(* ===== verification/Prelude.thy ===== *)
theory Prelude
  imports Complex_Main "HOL-Library.List_Lexorder" "HOL-Library.Char_ord"
begin

section \<open>Shared vocabulary: effects, exceptions, loops, text\<close>

text \<open>
  The program is Python. A coroutine of the program reads and writes the outside world
  (Redis, PostgreSQL, clocks, the random generator) and may raise. It is modelled as a
  function of type \<open>('w, 'a) io\<close>: from a world to an outcome and the next world, where
  the outcome is \<open>Inl\<close> of the raised exception or \<open>Inr\<close> of the returned value. The
  combinators below are Python's sequencing, \<open>try/except\<close>, \<open>try/finally\<close> and
  \<open>for\<close>. The weakest-precondition transformer \<open>wp\<close> and its rules, collected in
  \<open>wp_simps\<close> and \<open>wp_rules\<close>, are how every property of a coroutine is proved.
\<close>

named_theorems wp_simps \<open>equations that push wp through the control structure\<close>
named_theorems wp_rules \<open>introduction rules for calls with a contract\<close>

subsection \<open>Exceptions\<close>

text \<open>
  The exception classes that the program raises itself or tells apart in an
  \<open>except\<close> clause; every other exception class is \<open>OtherError\<close> with its text.
\<close>

datatype exn =
    TimeoutError
  | IntegrityError string
  | ValueError string
  | RuntimeError string
  | KeyError string
  | NoResultFound
  | MultipleResultsFound
  | HTTPException nat string
  | OtherError string

fun exn_str :: "exn \<Rightarrow> string" where
  "exn_str TimeoutError = ''''"
| "exn_str (IntegrityError m) = m"
| "exn_str (ValueError m) = m"
| "exn_str (RuntimeError m) = m"
| "exn_str (KeyError m) = m"
| "exn_str NoResultFound = ''No row was found when one was required''"
| "exn_str MultipleResultsFound = ''Multiple rows were found when one or none was required''"
| "exn_str (HTTPException _ d) = d"
| "exn_str (OtherError m) = m"

fun is_integrity :: "exn \<Rightarrow> bool" where
  "is_integrity (IntegrityError _) = True"
| "is_integrity _ = False"

subsection \<open>Coroutines\<close>

type_synonym ('w, 'a) io = "'w \<Rightarrow> (exn + 'a) \<times> 'w"

definition return_io :: "'a \<Rightarrow> ('w, 'a) io" where
  "return_io a w = (Inr a, w)"

definition raise_io :: "exn \<Rightarrow> ('w, 'a) io" where
  "raise_io e w = (Inl e, w)"

definition bind_io :: "('w, 'a) io \<Rightarrow> ('a \<Rightarrow> ('w, 'b) io) \<Rightarrow> ('w, 'b) io" where
  "bind_io m f w = (case m w of (Inl e, w') \<Rightarrow> (Inl e, w') | (Inr a, w') \<Rightarrow> f a w')"

abbreviation seq_io :: "('w, 'a) io \<Rightarrow> ('w, 'b) io \<Rightarrow> ('w, 'b) io" where
  "seq_io m k \<equiv> bind_io m (\<lambda>_. k)"

definition try_except :: "('w, 'a) io \<Rightarrow> (exn \<Rightarrow> ('w, 'a) io) \<Rightarrow> ('w, 'a) io" where
  "try_except m h w = (case m w of (Inl e, w') \<Rightarrow> h e w' | (Inr a, w') \<Rightarrow> (Inr a, w'))"

definition try_finally :: "('w, 'a) io \<Rightarrow> ('w, unit) io \<Rightarrow> ('w, 'a) io" where
  "try_finally m f w =
     (case m w of (r, w') \<Rightarrow>
        (case f w' of (Inl e, w'') \<Rightarrow> (Inl e, w'') | (Inr _, w'') \<Rightarrow> (r, w'')))"

text \<open>A call that cannot raise and returns nothing.\<close>

definition do_io :: "('w \<Rightarrow> 'w) \<Rightarrow> ('w, unit) io" where
  "do_io f w = (Inr (), f w)"

text \<open>A coroutine that works on a part of a larger state.\<close>

definition on_part :: "('v \<Rightarrow> 'w) \<Rightarrow> ('w \<Rightarrow> 'v \<Rightarrow> 'v) \<Rightarrow> ('w, 'a) io \<Rightarrow> ('v, 'a) io" where
  "on_part part put m v = (case m (part v) of (r, w) \<Rightarrow> (r, put w v))"

primrec for_each :: "('a \<Rightarrow> ('w, unit) io) \<Rightarrow> 'a list \<Rightarrow> ('w, unit) io" where
  "for_each f [] = return_io ()"
| "for_each f (x # xs) = seq_io (f x) (for_each f xs)"

text \<open>A loop that collects the elements whose body returns true.\<close>

primrec filter_each :: "('a \<Rightarrow> ('w, bool) io) \<Rightarrow> 'a list \<Rightarrow> ('w, 'a list) io" where
  "filter_each f [] = return_io []"
| "filter_each f (x # xs) =
     bind_io (f x) (\<lambda>b. bind_io (filter_each f xs) (\<lambda>ys. return_io (if b then x # ys else ys)))"

text \<open>Sequencing is a monad.\<close>

lemma bind_io_assoc: "bind_io (bind_io m f) g = bind_io m (\<lambda>a. bind_io (f a) g)"
  by (simp add: bind_io_def fun_eq_iff split: prod.split sum.split)

lemma bind_io_return: "bind_io (return_io a) f = f a" "bind_io m return_io = m"
  by (simp_all add: bind_io_def return_io_def fun_eq_iff split: prod.split sum.split)

lemma bind_io_unit: "seq_io m (return_io ()) = m"
  using bind_io_return(2) [of m] by (simp add: bind_io_def return_io_def fun_eq_iff split: prod.split sum.split)

lemma on_part_whole: "on_part id (\<lambda>w _. w) m = m"
  by (simp add: on_part_def fun_eq_iff split: prod.split)

lemma bind_io_cong: "(\<And>a. f a = g a) \<Longrightarrow> bind_io m f = bind_io m g"
  by (simp add: bind_io_def fun_eq_iff split: prod.split sum.split)

lemmas io_defs = return_io_def raise_io_def bind_io_def try_except_def try_finally_def do_io_def

subsection \<open>Weakest preconditions\<close>

definition wp :: "('w, 'a) io \<Rightarrow> ('a \<Rightarrow> 'w \<Rightarrow> bool) \<Rightarrow> (exn \<Rightarrow> 'w \<Rightarrow> bool) \<Rightarrow> 'w \<Rightarrow> bool" where
  "wp m Q X w = (case m w of (Inl e, w') \<Rightarrow> X e w' | (Inr a, w') \<Rightarrow> Q a w')"

lemma wp_return [wp_simps]: "wp (return_io a) Q X w = Q a w"
  by (simp add: wp_def return_io_def)

lemma wp_raise [wp_simps]: "wp (raise_io e) Q X w = X e w"
  by (simp add: wp_def raise_io_def)

lemma wp_do_io [wp_simps]: "wp (do_io f) Q X w = Q () (f w)"
  by (simp add: wp_def do_io_def)

lemma wp_on_part [wp_simps]:
  "wp (on_part part put m) Q X v = wp m (\<lambda>a w. Q a (put w v)) (\<lambda>e w. X e (put w v)) (part v)"
  by (simp add: wp_def on_part_def split: prod.split sum.split)

lemma wp_bind [wp_simps]: "wp (bind_io m f) Q X w = wp m (\<lambda>a. wp (f a) Q X) X w"
  by (simp add: wp_def bind_io_def split: prod.split sum.split)

lemma wp_try_except [wp_simps]:
  "wp (try_except m h) Q X w = wp m Q (\<lambda>e. wp (h e) Q X) w"
  by (simp add: wp_def try_except_def split: prod.split sum.split)

lemma wp_try_finally [wp_simps]:
  "wp (try_finally m f) Q X w =
     wp m (\<lambda>a. wp f (\<lambda>_. Q a) X) (\<lambda>e. wp f (\<lambda>_. X e) X) w"
  by (simp add: wp_def try_finally_def split: prod.split sum.split)

text \<open>The same for a continuation that has not met its world yet.\<close>

lemma wp_continuation [wp_simps]:
  "wp (bind_io m f) Q X = wp m (\<lambda>a. wp (f a) Q X) X" "wp (return_io a) Q X = Q a" "wp (raise_io e) Q X = X e"
  by (simp_all add: fun_eq_iff wp_bind wp_return wp_raise)

lemma wp_if [wp_simps]: "wp (if b then m else n) Q X w = (if b then wp m Q X w else wp n Q X w)"
  by simp

lemma wp_case_option [wp_simps]:
  "wp (case x of None \<Rightarrow> m | Some a \<Rightarrow> f a) Q X w =
     (case x of None \<Rightarrow> wp m Q X w | Some a \<Rightarrow> wp (f a) Q X w)"
  by (simp split: option.split)

lemma wp_case_list [wp_simps]:
  "wp (case x of [] \<Rightarrow> m | a # as \<Rightarrow> f a as) Q X w =
     (case x of [] \<Rightarrow> wp m Q X w | a # as \<Rightarrow> wp (f a as) Q X w)"
  by (simp split: list.split)

lemma wp_case_prod [wp_simps]:
  "wp (case x of (a, b) \<Rightarrow> f a b) Q X w = (case x of (a, b) \<Rightarrow> wp (f a b) Q X w)"
  by (simp split: prod.split)

lemma wp_let [wp_simps]: "wp (let x = a in f x) Q X w = (let x = a in wp (f x) Q X w)"
  by simp

text \<open>\<open>wp\<close> is monotone in its postconditions and conjunctive.\<close>

lemma wp_obtain: "wp m Q (\<lambda>_ _. False) w \<Longrightarrow> \<exists>a w'. m w = (Inr a, w') \<and> Q a w'"
  by (simp add: wp_def split: prod.splits sum.splits)

lemma wp_mono:
  assumes "wp m Q X w"
    and "\<And>a w'. Q a w' \<Longrightarrow> Q' a w'" and "\<And>e w'. X e w' \<Longrightarrow> X' e w'"
  shows "wp m Q' X' w"
  using assms by (auto simp: wp_def split: prod.splits sum.splits)

lemma wp_conj:
  assumes "wp m Q X w" and "wp m Q' X' w"
  shows "wp m (\<lambda>a w'. Q a w' \<and> Q' a w') (\<lambda>e w'. X e w' \<and> X' e w') w"
  using assms by (auto simp: wp_def split: prod.splits sum.splits)

lemma wp_True: "wp m (\<lambda>_ _. True) (\<lambda>_ _. True) w"
  by (simp add: wp_def split: prod.split sum.split)

lemma wp_returned: "wp m Q X w \<Longrightarrow> m w = (Inr a, w') \<Longrightarrow> Q a w'"
  by (simp add: wp_def)

lemma wp_raised: "wp m Q X w \<Longrightarrow> m w = (Inl e, w') \<Longrightarrow> X e w'"
  by (simp add: wp_def)

text \<open>Loops: an invariant indexed by the elements still to come.\<close>

lemma wp_for_each:
  assumes step: "\<And>x xs w. Inv (x # xs) w \<Longrightarrow> wp (f x) (\<lambda>_. Inv xs) X w"
    and start: "Inv xs w" and stop: "\<And>w. Inv [] w \<Longrightarrow> Q () w"
  shows "wp (for_each f xs) Q X w"
  using start
proof (induction xs arbitrary: w)
  case Nil
  then show ?case by (simp add: wp_simps stop)
next
  case (Cons x xs)
  show ?case
    by (simp add: wp_simps, rule wp_mono [OF step [OF Cons.prems]]) (simp_all add: Cons.IH)
qed

lemma wp_for_each_inv:
  assumes step: "\<And>x w. x \<in> set xs \<Longrightarrow> I w \<Longrightarrow> wp (f x) (\<lambda>_. I) (\<lambda>_. I) w" and "I w"
  shows "wp (for_each f xs) (\<lambda>_. I) (\<lambda>_. I) w"
  using assms
proof (induction xs arbitrary: w)
  case Nil
  then show ?case by (simp add: wp_simps)
next
  case (Cons x xs)
  have "wp (f x) (\<lambda>_. I) (\<lambda>_. I) w" using Cons.prems by simp
  then show ?case
    by (simp add: wp_simps, elim wp_mono) (simp_all add: Cons.IH Cons.prems(1))
qed

subsection \<open>Lists\<close>

lemma singleton_list: "distinct xs \<Longrightarrow> set xs = {x} \<Longrightarrow> xs = [x]"
  by (cases xs; cases "tl xs") auto

subsection \<open>Decimal text\<close>

text \<open>\<open>str(n)\<close> of a Python integer.\<close>

fun str_nat :: "nat \<Rightarrow> string" where
  "str_nat n = (if n < 10 then [char_of (48 + n)] else str_nat (n div 10) @ [char_of (48 + n mod 10)])"

declare str_nat.simps [simp del]

definition str_int :: "int \<Rightarrow> string" where
  "str_int i = (if i < 0 then ''-'' @ str_nat (nat (- i)) else str_nat (nat i))"

text \<open>The text reads back as the number.\<close>

definition digit_val :: "char \<Rightarrow> nat" where
  "digit_val c = of_char c - 48"

definition read_nat :: "string \<Rightarrow> nat" where
  "read_nat s = foldl (\<lambda>a c. a * 10 + digit_val c) 0 s"

lemma digit_val_char: "d < 10 \<Longrightarrow> digit_val (char_of (48 + d)) = d"
  by (simp add: digit_val_def)

lemma read_str_nat: "read_nat (str_nat n) = n"
proof (induction n rule: str_nat.induct)
  case (1 n)
  show ?case
  proof (cases "n < 10")
    case True
    then show ?thesis by (simp add: str_nat.simps [of n] read_nat_def digit_val_char)
  next
    case False
    with 1 have "read_nat (str_nat (n div 10)) = n div 10" by simp
    with False show ?thesis
      by (simp add: str_nat.simps [of n] read_nat_def digit_val_char)
  qed
qed

lemma str_nat_inject: "str_nat m = str_nat n \<longleftrightarrow> m = n"
  by (metis read_str_nat)

lemma str_nat_nonempty: "str_nat n \<noteq> []"
  by (subst str_nat.simps) simp

end
