(* ===== verification/Float64.thy ===== *)
theory Float64
  imports Prelude "HOL-Library.Log_Nat"
begin

section \<open>Python floats\<close>

text \<open>
  A Python float is an IEEE double. A finite double is modelled by its exact rational
  value, and every arithmetic operation of the program is the exact operation followed by
  \<open>fl\<close>, rounding to 53 significant bits with ties to even. The exponent is not bounded:
  every float of the program lies far inside the range of normal doubles. The queue score
  and the backoff delay are computed in these floats, and the order of the priority queue
  depends on how they round.

  \<open>monotone_rounding\<close> is what the score needs of a rounding; it is interpreted on \<open>fl\<close>.
\<close>

subsection \<open>Rounding to an integer, ties to even\<close>

definition round_half_even :: "rat \<Rightarrow> int" where
  "round_half_even x =
     (let f = \<lfloor>x\<rfloor>; d = x - of_int f in
      if d < 1/2 then f else if 1/2 < d then f + 1 else if even f then f else f + 1)"

lemma round_half_even_of_int [simp]: "round_half_even (of_int n) = n"
  by (simp add: round_half_even_def)

lemma round_half_even_ge_floor: "\<lfloor>x\<rfloor> \<le> round_half_even x"
  by (simp add: round_half_even_def Let_def)

lemma round_half_even_le_floor: "round_half_even x \<le> \<lfloor>x\<rfloor> + 1"
  by (simp add: round_half_even_def Let_def)

lemma round_half_even_error: "\<bar>of_int (round_half_even x) - x\<bar> \<le> 1/2"
proof -
  have "of_int \<lfloor>x\<rfloor> \<le> x" and "x < of_int \<lfloor>x\<rfloor> + 1" by linarith+
  then show ?thesis unfolding round_half_even_def Let_def by (simp add: abs_le_iff)
qed

lemma round_half_even_mono: assumes "x \<le> y" shows "round_half_even x \<le> round_half_even y"
proof (cases "\<lfloor>x\<rfloor> = \<lfloor>y\<rfloor>")
  case True
  with assms show ?thesis by (auto simp: round_half_even_def Let_def)
next
  case False
  with assms have "\<lfloor>x\<rfloor> + 1 \<le> \<lfloor>y\<rfloor>" using floor_mono [OF assms] by linarith
  with round_half_even_le_floor [of x] round_half_even_ge_floor [of y] show ?thesis by linarith
qed

subsection \<open>The binary exponent of a positive rational\<close>

text \<open>
  \<open>bin_exp x\<close> is the \<open>e\<close> with \<open>2 ^ e \<le> x < 2 ^ (e + 1)\<close>, computed from the bit lengths
  of the numerator and the denominator.
\<close>

definition bin_exp :: "rat \<Rightarrow> int" where
  "bin_exp x =
     (let (p, q) = quotient_of x; e = bitlen p - bitlen q
      in if 2 powi e \<le> x then e else e - 1)"

lemma bitlen_range: assumes "0 < p"
  shows "(2::rat) powi (bitlen p - 1) \<le> of_int p" and "of_int p < (2::rat) powi bitlen p"
proof -
  have b: "2 ^ nat (bitlen p - 1) \<le> p \<and> p < 2 ^ nat (bitlen p)"
    using assms by (rule bitlen_bounds)
  have n: "0 \<le> bitlen p - 1" using assms by (simp add: bitlen_alt_def)
  have "(2::rat) powi (bitlen p - 1) = of_int (2 ^ nat (bitlen p - 1))"
    using n by (simp add: power_int_def)
  moreover have "(2::rat) powi bitlen p = of_int (2 ^ nat (bitlen p))"
    using n by (simp add: power_int_def)
  ultimately show "(2::rat) powi (bitlen p - 1) \<le> of_int p" and "of_int p < (2::rat) powi bitlen p"
    using b by (metis of_int_le_iff) (metis b of_int_less_iff \<open>2 powi bitlen p = of_int (2 ^ nat (bitlen p))\<close>)
qed

lemma bin_exp_bounds: assumes "0 < x" shows "2 powi bin_exp x \<le> x" and "x < 2 powi (bin_exp x + 1)"
proof -
  obtain p q where pq: "quotient_of x = (p, q)" by (cases "quotient_of x")
  have q: "0 < q" using pq by (rule quotient_of_denom_pos)
  have x: "x = of_int p / of_int q" using pq by (rule quotient_of_div)
  have p: "0 < p" using assms x q by (simp add: zero_less_divide_iff)
  let ?e = "bitlen p - bitlen q"
  have up: "x < 2 powi (?e + 1)"
  proof -
    have "of_int p < (2::rat) powi bitlen p" using p by (rule bitlen_range)
    also have "\<dots> = 2 powi (?e + 1) * 2 powi (bitlen q - 1)"
      by (simp add: power_int_add [symmetric])
    also have "\<dots> \<le> 2 powi (?e + 1) * of_int q"
      using bitlen_range(1) [OF q] by (intro mult_left_mono) auto
    finally show ?thesis using q by (simp add: x divide_less_eq)
  qed
  have low: "2 powi (?e - 1) \<le> x"
  proof -
    have "(2::rat) powi (?e - 1) * of_int q \<le> 2 powi (?e - 1) * 2 powi bitlen q"
      using bitlen_range(2) [OF q] by (intro mult_left_mono) auto
    also have "\<dots> = (2::rat) powi (bitlen p - 1)" by (simp add: power_int_add [symmetric])
    also have "\<dots> \<le> of_int p" using p by (rule bitlen_range)
    finally show ?thesis using q by (simp add: x le_divide_eq)
  qed
  show "2 powi bin_exp x \<le> x" using low by (simp add: bin_exp_def pq Let_def)
  show "x < 2 powi (bin_exp x + 1)" using up by (auto simp: bin_exp_def pq Let_def)
qed

lemma powi_less_cancel: "(2::rat) powi m < 2 powi n \<longleftrightarrow> m < n"
  using power_int_strict_increasing [of m n "2::rat"] power_int_increasing [of n m "2::rat"]
  by (cases "m < n") auto

lemma bin_exp_unique: assumes "2 powi e \<le> x" and "x < 2 powi (e + 1)" shows "bin_exp x = e"
proof -
  have x: "0 < x" using assms(1) by (rule less_le_trans [rotated]) simp
  have "(2::rat) powi e < 2 powi (bin_exp x + 1)" and "(2::rat) powi bin_exp x < 2 powi (e + 1)"
    using bin_exp_bounds [OF x] assms by linarith+
  then show ?thesis by (simp add: powi_less_cancel)
qed

lemma bin_exp_mono: assumes "0 < x" and "x \<le> y" shows "bin_exp x \<le> bin_exp y"
proof -
  have "(2::rat) powi bin_exp x < 2 powi (bin_exp y + 1)"
    using bin_exp_bounds [of x] bin_exp_bounds [of y] assms by linarith
  then show ?thesis by (simp add: powi_less_cancel)
qed

lemma bin_exp_less: assumes "0 < x" and "x < 2 powi (e + 1)" shows "bin_exp x \<le> e"
proof -
  have "(2::rat) powi bin_exp x < 2 powi (e + 1)" using bin_exp_bounds [of x] assms by linarith
  then show ?thesis by (simp add: powi_less_cancel)
qed

subsection \<open>Rounding to a double\<close>

definition fl :: "rat \<Rightarrow> rat" where
  "fl x =
     (if x = 0 then 0
      else let u = 2 powi (bin_exp \<bar>x\<bar> - 52) in of_int (round_half_even (x / u)) * u)"

lemma fl_0 [simp]: "fl 0 = 0"
  by (simp add: fl_def)

lemma fl_pos: "0 < x \<Longrightarrow> fl x = of_int (round_half_even (x / 2 powi (bin_exp x - 52))) * 2 powi (bin_exp x - 52)"
  by (simp add: fl_def Let_def)

text \<open>A value with at most 53 significant bits is not changed.\<close>

lemma fl_exact_pos:
  assumes "0 < n" and "n < 2 ^ 53"
  shows "fl (of_int n * 2 powi k) = of_int n * 2 powi k"
proof -
  let ?x = "of_int n * (2::rat) powi k"
  have x: "0 < ?x" using assms(1) by simp
  have "?x < 2 powi 53 * 2 powi k"
    using assms(2) by (intro mult_strict_right_mono) (simp_all flip: of_int_less_iff)
  also have "\<dots> = 2 powi (k + 52 + 1)" by (simp add: power_int_add)
  finally have "bin_exp ?x \<le> k + 52" using x by (intro bin_exp_less)
  then have k: "0 \<le> k - (bin_exp ?x - 52)" by simp
  have "?x / 2 powi (bin_exp ?x - 52) = of_int n * 2 powi (k - (bin_exp ?x - 52))"
    by (simp add: power_int_diff)
  also have "\<dots> = of_int (n * 2 ^ nat (k - (bin_exp ?x - 52)))"
    using k by (simp add: power_int_def)
  finally have q: "?x / 2 powi (bin_exp ?x - 52) = of_int (n * 2 ^ nat (k - (bin_exp ?x - 52)))" .
  then have "fl ?x = of_int (n * 2 ^ nat (k - (bin_exp ?x - 52))) * 2 powi (bin_exp ?x - 52)"
    using fl_pos [OF x] by (metis round_half_even_of_int)
  also have "\<dots> = ?x"
    by (rule sym, rule nonzero_divide_eq_eq [THEN iffD1, OF _ q]) simp
  finally show ?thesis .
qed

lemma fl_of_int: assumes "0 \<le> n" and "n < 2 ^ 53" shows "fl (of_int n) = of_int n"
  using fl_exact_pos [of n 0] assms by (cases "n = 0") auto

lemma fl_powi [simp]: "fl (2 powi k) = 2 powi k"
  using fl_exact_pos [of 1 k] by simp

lemma fl_of_nat: "n < 2 ^ 53 \<Longrightarrow> fl (of_nat n) = of_nat n"
  using fl_of_int [of "int n"] by simp

text \<open>Rounding stays inside the binade of its argument, closed at the top.\<close>

lemma fl_binade:
  assumes "0 < x"
  shows "2 powi bin_exp x \<le> fl x" and "fl x \<le> 2 powi (bin_exp x + 1)"
proof -
  let ?u = "(2::rat) powi (bin_exp x - 52)"
  have u: "0 < ?u" by simp
  have lo: "(2::rat) powi bin_exp x = of_int (2 ^ 52) * ?u" 
    by (simp add: power_int_diff)
  have hi: "(2::rat) powi (bin_exp x + 1) = of_int (2 ^ 53) * ?u"
    by (simp add: power_int_diff power_int_add)
  have "of_int (2 ^ 52) \<le> x / ?u" using bin_exp_bounds(1) [OF assms] u lo by (simp add: pos_le_divide_eq)
  then have a: "2 ^ 52 \<le> round_half_even (x / ?u)" by (metis round_half_even_mono round_half_even_of_int)
  have "x / ?u \<le> of_int (2 ^ 53)" using bin_exp_bounds(2) [OF assms] u hi by (simp add: pos_divide_le_eq)
  then have b: "round_half_even (x / ?u) \<le> 2 ^ 53" by (metis round_half_even_mono round_half_even_of_int)
  show "2 powi bin_exp x \<le> fl x"
    unfolding fl_pos [OF assms] lo using a by (intro mult_right_mono) (simp_all only: of_int_le_iff, simp)
  show "fl x \<le> 2 powi (bin_exp x + 1)"
    unfolding fl_pos [OF assms] hi using b by (intro mult_right_mono) (simp_all only: of_int_le_iff, simp)
qed

lemma fl_nonneg: "0 \<le> x \<Longrightarrow> 0 \<le> fl x"
  using fl_binade(1) [of x] by (cases "x = 0") (auto intro: order_trans [rotated])

lemma fl_mono: assumes "0 \<le> x" and "x \<le> y" shows "fl x \<le> fl y"
proof (cases "x = 0")
  case True
  with assms show ?thesis by (simp add: fl_nonneg)
next
  case False
  with assms have x: "0 < x" and y: "0 < y" by auto
  show ?thesis
  proof (cases "bin_exp x = bin_exp y")
    case True
    have "x / 2 powi (bin_exp y - 52) \<le> y / 2 powi (bin_exp y - 52)"
      using assms(2) by (intro divide_right_mono) auto
    then show ?thesis
      unfolding fl_pos [OF x] fl_pos [OF y] True
      by (intro mult_right_mono) (simp_all add: round_half_even_mono)
  next
    case False
    with bin_exp_mono [OF x assms(2)] have "bin_exp x + 1 \<le> bin_exp y" by simp
    then have "(2::rat) powi (bin_exp x + 1) \<le> 2 powi bin_exp y" by (intro power_int_increasing) auto
    with fl_binade(2) [OF x] fl_binade(1) [OF y] show ?thesis by linarith
  qed
qed

text \<open>The rounding error is at most half a unit in the last place.\<close>

lemma fl_error: assumes "0 < x" shows "\<bar>fl x - x\<bar> \<le> 2 powi (bin_exp x - 53)"
proof -
  let ?u = "(2::rat) powi (bin_exp x - 52)"
  have "fl x - x = (of_int (round_half_even (x / ?u)) - x / ?u) * ?u"
    by (simp add: fl_pos [OF assms] left_diff_distrib)
  then have "\<bar>fl x - x\<bar> = \<bar>of_int (round_half_even (x / ?u)) - x / ?u\<bar> * ?u"
    by (simp add: abs_mult)
  also have "\<dots> \<le> 1/2 * ?u" by (intro mult_right_mono round_half_even_error) simp
  also have "\<dots> = 2 powi (bin_exp x - 53)" by (simp add: power_int_diff)
  finally show ?thesis .
qed

lemma fl_error_le:
  assumes "0 \<le> x" and "x < 2 powi (e + 1)" shows "\<bar>fl x - x\<bar> \<le> 2 powi (e - 53)"
proof (cases "x = 0")
  case False
  with assms have x: "0 < x" by simp
  have "(2::rat) powi (bin_exp x - 53) \<le> 2 powi (e - 53)"
    using bin_exp_less [OF x assms(2)] by (intro power_int_increasing) auto
  with fl_error [OF x] show ?thesis by linarith
qed simp

subsection \<open>What a score needs of a rounding\<close>

text \<open>
  A rounding that is monotone on the non-negative numbers and exact on small integers.
  \<open>offset\<close> is the shape of the queue score: an integer weight plus a small fraction.
\<close>

locale monotone_rounding =
  fixes rnd :: "rat \<Rightarrow> rat"
  assumes rnd_mono: "0 \<le> x \<Longrightarrow> x \<le> y \<Longrightarrow> rnd x \<le> rnd y"
    and rnd_exact: "n < 2 ^ 53 \<Longrightarrow> rnd (of_nat n) = of_nat n"
begin

lemma rnd_zero: "rnd 0 = 0"
  using rnd_exact [of 0] by simp

lemma rnd_nonneg: "0 \<le> x \<Longrightarrow> 0 \<le> rnd x"
  using rnd_mono [of 0 x] rnd_zero by simp

lemma rnd_le_nat: "0 \<le> x \<Longrightarrow> x \<le> of_nat n \<Longrightarrow> n < 2 ^ 53 \<Longrightarrow> rnd x \<le> of_nat n"
  using rnd_mono [of x "of_nat n"] by (simp add: rnd_exact)

lemma rnd_ge_nat: "of_nat n \<le> x \<Longrightarrow> n < 2 ^ 53 \<Longrightarrow> of_nat n \<le> rnd x"
  using rnd_mono [of "of_nat n" x] by (simp add: rnd_exact)

lemma offset_mono:
  assumes "0 \<le> s" and "s \<le> t"
  shows "rnd (of_nat w + rnd s) \<le> rnd (of_nat w + rnd t)"
  using assms rnd_mono [of s t] rnd_nonneg [of s] by (intro rnd_mono) auto

lemma offset_ge:
  assumes "0 \<le> s" and "w < 2 ^ 53"
  shows "of_nat w \<le> rnd (of_nat w + rnd s)"
  using assms rnd_nonneg [of s] by (intro rnd_ge_nat) auto

lemma offset_le:
  assumes "0 \<le> s" and "s \<le> of_nat d" and "w + d < 2 ^ 53"
  shows "rnd (of_nat w + rnd s) \<le> of_nat (w + d)"
proof -
  have "rnd s \<le> of_nat d" using assms by (intro rnd_le_nat) auto
  then show ?thesis using assms rnd_nonneg [of s] by (intro rnd_le_nat) auto
qed

text \<open>Weights further apart than the fraction can reach never cross.\<close>

lemma offset_less:
  assumes "0 \<le> s" and "s \<le> of_nat d" and "0 \<le> t" and "v + d < w" and "w < 2 ^ 53"
  shows "rnd (of_nat v + rnd s) < rnd (of_nat w + rnd t)"
proof -
  have "rnd (of_nat v + rnd s) \<le> of_nat (v + d)" using assms by (intro offset_le) auto
  also have "(of_nat (v + d) :: rat) < of_nat w" using assms(4) by (simp only: of_nat_less_iff)
  also have "of_nat w \<le> rnd (of_nat w + rnd t)" using assms by (intro offset_ge)
  finally show ?thesis .
qed

end

interpretation double: monotone_rounding fl
  by unfold_locales (auto intro: fl_mono fl_of_nat)

end
