(* ===== verification/Uuid_Text.thy ===== *)
theory Uuid_Text
  imports Prelude "HOL-Library.Word"
begin

section \<open>Job identifiers and their text\<close>

text \<open>
  A job identifier is a \<open>uuid.UUID\<close>, a 128-bit integer. PostgreSQL stores the identifier,
  Redis stores its text \<open>str(id)\<close>, and the worker turns the text back with \<open>UUID(text)\<close>,
  which raises \<open>ValueError\<close> on malformed text. Both directions follow Python's
  \<open>uuid\<close> module for ASCII text (\<open>UUID\<close> accepts braces, the \<open>urn:uuid:\<close> prefix, dashes
  anywhere, and whatever \<open>int(text, 16)\<close> accepts). The result is that every identifier
  the program puts in a queue is read back as itself.
\<close>

type_synonym uuid = "128 word"

subsection \<open>Hexadecimal digits\<close>

definition hex_char :: "nat \<Rightarrow> char" where
  "hex_char n = (if n < 10 then char_of (48 + n) else char_of (87 + n))"

definition hex_val :: "char \<Rightarrow> nat option" where
  "hex_val c =
     (let v = of_char c :: nat in
      if 48 \<le> v \<and> v \<le> 57 then Some (v - 48)
      else if 97 \<le> v \<and> v \<le> 102 then Some (v - 87)
      else if 65 \<le> v \<and> v \<le> 70 then Some (v - 55)
      else None)"

text \<open>\<open>format(n, "0kx")\<close> for \<open>n < 16 ^ k\<close>.\<close>

fun hex_pad :: "nat \<Rightarrow> nat \<Rightarrow> string" where
  "hex_pad 0 n = []"
| "hex_pad (Suc k) n = hex_pad k (n div 16) @ [hex_char (n mod 16)]"

lemma hex_val_char: "d < 16 \<Longrightarrow> hex_val (hex_char d) = Some d"
  by (simp add: hex_char_def hex_val_def Let_def)

lemma length_hex_pad [simp]: "length (hex_pad k n) = k"
  by (induction k arbitrary: n) auto

lemma hex_pad_digits: "c \<in> set (hex_pad k n) \<Longrightarrow> hex_val c \<noteq> None"
  by (induction k arbitrary: n) (auto simp: hex_val_char)

subsection \<open>\<open>int(text, 16)\<close>\<close>

text \<open>After the sign and the prefix: digits, a single underscore allowed before any digit.\<close>

fun hex_go :: "nat \<Rightarrow> string \<Rightarrow> nat option" where
  "hex_go a [] = Some a"
| "hex_go a (c # cs) =
     (if c = CHR ''_'' then
        (case cs of [] \<Rightarrow> None
         | d # ds \<Rightarrow> (case hex_val d of None \<Rightarrow> None | Some v \<Rightarrow> hex_go (a * 16 + v) ds))
      else (case hex_val c of None \<Rightarrow> None | Some v \<Rightarrow> hex_go (a * 16 + v) cs))"

definition is_space :: "char \<Rightarrow> bool" where
  "is_space c = (let v = of_char c :: nat in v = 32 \<or> 9 \<le> v \<and> v \<le> 13 \<or> 28 \<le> v \<and> v \<le> 31)"

definition strip_by :: "(char \<Rightarrow> bool) \<Rightarrow> string \<Rightarrow> string" where
  "strip_by p s = rev (dropWhile p (rev (dropWhile p s)))"

definition hex_body :: "string \<Rightarrow> nat option" where
  "hex_body s =
     (if take 2 s \<in> {''0x'', ''0X''} then (if length s = 2 then None else hex_go 0 (drop 2 s))
      else if s = [] \<or> hd s = CHR ''_'' then None
      else hex_go 0 s)"

definition int16 :: "string \<Rightarrow> int option" where
  "int16 t =
     (let s = strip_by is_space t in
      if take 1 s = ''-'' then map_option (\<lambda>n. - int n) (hex_body (drop 1 s))
      else if take 1 s = ''+'' then map_option int (hex_body (drop 1 s))
      else map_option int (hex_body s))"

lemma strip_by_id: "(\<And>c. c \<in> set s \<Longrightarrow> \<not> p c) \<Longrightarrow> strip_by p s = s"
  by (simp add: strip_by_def dropWhile_eq_self_iff)
    (metis dropWhile_eq_self_iff hd_in_set rev_rev_ident set_rev)

lemma underscore_no_digit: "hex_val CHR ''_'' = None"
  by (simp add: hex_val_def)

lemma hex_go_append:
  "(\<And>c. c \<in> set s \<Longrightarrow> hex_val c \<noteq> None) \<Longrightarrow>
   hex_go a (s @ t) = (case hex_go a s of None \<Rightarrow> None | Some b \<Rightarrow> hex_go b t)"
proof (induction s arbitrary: a)
  case (Cons c s)
  from Cons.prems [of c] have "hex_val c \<noteq> None" by simp
  moreover from this have "c \<noteq> CHR ''_''" by (auto simp: underscore_no_digit)
  ultimately show ?case using Cons by (auto split: option.split)
qed simp

lemma hex_go_pad: "n < 16 ^ k \<Longrightarrow> hex_go a (hex_pad k n) = Some (a * 16 ^ k + n)"
proof (induction k arbitrary: a n)
  case (Suc k)
  have d: "hex_val (hex_char (n mod 16)) = Some (n mod 16)" by (simp add: hex_val_char)
  then have "hex_char (n mod 16) \<noteq> CHR ''_''" by (auto simp: underscore_no_digit)
  moreover have "hex_go a (hex_pad k (n div 16)) = Some (a * 16 ^ k + n div 16)"
    using Suc.prems by (intro Suc.IH) (simp add: less_mult_imp_div_less mult.commute)
  ultimately show ?case
    by (simp add: hex_go_append hex_pad_digits d algebra_simps)
qed simp

lemma int16_digits:
  assumes "\<And>c. c \<in> set s \<Longrightarrow> hex_val c \<noteq> None" and "s \<noteq> []"
  shows "int16 s = map_option int (hex_go 0 s)"
proof -
  have no: "c \<notin> set s" if "hex_val c = None" for c using assms(1) [of c] that by blast
  have sp: "\<not> is_space c" if "c \<in> set s" for c
    using assms(1) [OF that] by (auto simp: is_space_def hex_val_def Let_def split: if_splits)
  have "take 1 s \<noteq> ''-''" and "take 1 s \<noteq> ''+''" and "hd s \<noteq> CHR ''_''"
    using no [of "CHR ''-''"] no [of "CHR ''+''"] no [of "CHR ''_''"] assms(2)
    by (auto simp: hex_val_def neq_Nil_conv)
  moreover have "take 2 s \<notin> {''0x'', ''0X''}"
    using no [of "CHR ''x''"] no [of "CHR ''X''"]
    by (auto simp: hex_val_def take_Suc numeral_2_eq_2 dest: arg_cong [where f = set] in_set_takeD)
      (metis in_set_takeD list.set_intros)+
  ultimately show ?thesis using assms(2)
    by (simp add: int16_def hex_body_def strip_by_id sp)
qed

subsection \<open>\<open>str(id)\<close> and \<open>UUID(text)\<close>\<close>

definition str_uuid :: "uuid \<Rightarrow> string" where
  "str_uuid u =
     (let h = hex_pad 32 (unat u) in
      take 8 h @ ''-'' @ take 4 (drop 8 h) @ ''-'' @ take 4 (drop 12 h) @ ''-'' @
      take 4 (drop 16 h) @ ''-'' @ drop 20 h)"

text \<open>\<open>text.replace(sub, "")\<close> for a non-empty \<open>sub\<close>.\<close>

function remove_all :: "string \<Rightarrow> string \<Rightarrow> string" where
  "remove_all sub s =
     (if s = [] \<or> sub = [] then s
      else if take (length sub) s = sub then remove_all sub (drop (length sub) s)
      else hd s # remove_all sub (tl s))"
  by pat_completeness auto
termination
  by (relation "measure (\<lambda>(sub, s). length s)") auto

declare remove_all.simps [simp del]

definition parse_uuid :: "string \<Rightarrow> exn + uuid" where
  "parse_uuid t =
     (let h = remove_all ''uuid:'' (remove_all ''urn:'' t);
          d = filter (\<lambda>c. c \<noteq> CHR ''-'') (strip_by (\<lambda>c. c \<in> {CHR ''{'', CHR ''}''}) h)
      in if length d \<noteq> 32 then Inl (ValueError ''badly formed hexadecimal UUID string'')
         else case int16 d of
                None \<Rightarrow> Inl (ValueError ''invalid literal for int() with base 16'')
              | Some i \<Rightarrow>
                  if 0 \<le> i \<and> i < 2 ^ 128 then Inr (of_int i)
                  else Inl (ValueError ''int is out of range (need a 128-bit value)''))"

lemma remove_all_absent: "c \<in> set sub \<Longrightarrow> c \<notin> set s \<Longrightarrow> remove_all sub s = s"
proof (induction sub s rule: remove_all.induct)
  case (1 sub s)
  show ?case
  proof (cases "s = [] \<or> sub = []")
    case False
    then have n: "s \<noteq> []" "sub \<noteq> []" by auto
    have t: "take (length sub) s \<noteq> sub" using "1.prems" by (metis in_set_takeD)
    have "c \<notin> set (tl s)" using "1.prems"(2) n(1) by (metis list.set_sel(2))
    with "1.IH"(2) [OF False t] "1.prems"(1) have "remove_all sub (tl s) = tl s" by simp
    with n t show ?thesis by (simp add: remove_all.simps [of sub s])
  qed (auto simp: remove_all.simps [of sub s])
qed

lemma set_str_uuid: "c \<in> set (str_uuid u) \<Longrightarrow> c = CHR ''-'' \<or> hex_val c \<noteq> None"
  unfolding str_uuid_def Let_def
  by (auto dest!: in_set_takeD in_set_dropD hex_pad_digits)

lemma filter_str_uuid: "filter (\<lambda>c. c \<noteq> CHR ''-'') (str_uuid u) = hex_pad 32 (unat u)"
proof -
  let ?h = "hex_pad 32 (unat u)"
  have keep: "filter (\<lambda>c. c \<noteq> CHR ''-'') s = s" if "set s \<subseteq> set ?h" for s
    using that by (auto simp: filter_id_conv hex_val_def dest!: subsetD hex_pad_digits)
  have sub: "set (take n (drop m ?h)) \<subseteq> set ?h" "set (drop m ?h) \<subseteq> set ?h" for n m
    by (auto dest: in_set_takeD in_set_dropD)
  have "take 8 ?h @ take 4 (drop 8 ?h) @ take 4 (drop 12 ?h) @ take 4 (drop 16 ?h) @ drop 20 ?h = ?h"
    using append_take_drop_id [of 8 ?h] append_take_drop_id [of 4 "drop 8 ?h"]
      append_take_drop_id [of 4 "drop 12 ?h"] append_take_drop_id [of 4 "drop 16 ?h"]
    by simp
  then show ?thesis
    using sub(1) [of 8 0] by (simp add: str_uuid_def Let_def keep sub)
qed

lemma parse_str_uuid [simp]: "parse_uuid (str_uuid u) = Inr u"
proof -
  have no: "c \<notin> set (str_uuid u)" if "hex_val c = None" "c \<noteq> CHR ''-''" for c
    using that set_str_uuid by blast
  have r: "remove_all ''uuid:'' (remove_all ''urn:'' (str_uuid u)) = str_uuid u"
    using no [of "CHR '':''"] by (simp add: remove_all_absent [of "CHR '':''"] hex_val_def)
  have s: "strip_by (\<lambda>c. c \<in> {CHR ''{'', CHR ''}''}) (str_uuid u) = str_uuid u"
    using no [of "CHR ''{''"] no [of "CHR ''}''"] by (intro strip_by_id) (auto simp: hex_val_def)
  have u: "unat u < 16 ^ 32" using unsigned_less [of u, where 'a = nat] by simp
  have "int16 (hex_pad 32 (unat u)) = map_option int (hex_go 0 (hex_pad 32 (unat u)))"
    by (rule int16_digits) (auto dest: hex_pad_digits simp flip: length_0_conv)
  also have "\<dots> = Some (int (unat u))" by (simp add: hex_go_pad [OF u])
  finally have i: "int16 (hex_pad 32 (unat u)) = Some (int (unat u))" .
  have "int (unat u) < 2 ^ 128"
    using unsigned_less [of u, where 'a = int] by simp
  then show ?thesis
    unfolding parse_uuid_def Let_def r s filter_str_uuid by (simp add: i del: hex_pad.simps)
qed

lemma str_uuid_inject [simp]: "str_uuid u = str_uuid v \<longleftrightarrow> u = v"
  by (metis parse_str_uuid sum.inject(2))

lemma str_uuid_nonempty [simp]: "str_uuid u \<noteq> []"
  by (simp add: str_uuid_def Let_def)

end
