(* ===== verification/Job_Model.thy ===== *)
theory Job_Model
  imports Uuid_Text
begin

section \<open>app/db/models: the Job and JobLog rows\<close>

text \<open>
  A row of the table \<open>jobs\<close> is the record \<open>job\<close>, one field per column of \<open>class Job\<close>; a
  row of \<open>job_logs\<close> is \<open>job_log\<close>. The columns \<open>type\<close>, \<open>priority\<close>, \<open>status\<close> and
  \<open>level\<close> are plain strings in the database, so they are strings here; the enumerations
  \<open>JobStatus\<close> and \<open>JobPriority\<close> are datatypes with their \<open>.value\<close>. A timestamp is an
  integer number of microseconds since the epoch (the resolution of \<open>datetime\<close> and of
  \<open>timestamptz\<close>). JSON objects are maps, because \<open>JSONB\<close> does not keep key order.
\<close>

type_synonym datetime = int

datatype json =
    JNull
  | JBool bool
  | JInt int
  | JFloat rat
  | JStr string
  | JArr "json list"
  | JObj "string \<Rightarrow> json option"

type_synonym json_dict = "string \<Rightarrow> json option"

subsection \<open>The enumerations\<close>

datatype job_priority = HIGH | MEDIUM | LOW

fun priority_value :: "job_priority \<Rightarrow> string" where
  "priority_value HIGH = ''high''"
| "priority_value MEDIUM = ''medium''"
| "priority_value LOW = ''low''"

datatype job_status = QUEUED | PROCESSING | COMPLETED | FAILED | CANCELLED

fun status_value :: "job_status \<Rightarrow> string" where
  "status_value QUEUED = ''queued''"
| "status_value PROCESSING = ''processing''"
| "status_value COMPLETED = ''completed''"
| "status_value FAILED = ''failed''"
| "status_value CANCELLED = ''cancelled''"

definition all_statuses :: "job_status list" where
  "all_statuses = [QUEUED, PROCESSING, COMPLETED, FAILED, CANCELLED]"

lemma set_all_statuses [simp]: "set all_statuses = UNIV"
  by (auto simp: all_statuses_def) (metis job_status.exhaust)

lemma status_value_inject [simp]: "status_value a = status_value b \<longleftrightarrow> a = b"
  by (cases a; cases b) auto

lemma priority_value_inject [simp]: "priority_value a = priority_value b \<longleftrightarrow> a = b"
  by (cases a; cases b) auto

text \<open>The order of service: a higher priority is a smaller element.\<close>

fun priority_rank :: "job_priority \<Rightarrow> nat" where
  "priority_rank HIGH = 0"
| "priority_rank MEDIUM = 1"
| "priority_rank LOW = 2"

lemma priority_rank_inject [simp]: "priority_rank a = priority_rank b \<longleftrightarrow> a = b"
  by (cases a; cases b) auto

instantiation job_priority :: linorder
begin

definition less_eq_job_priority :: "job_priority \<Rightarrow> job_priority \<Rightarrow> bool" where
  "less_eq_job_priority a b = (priority_rank a \<le> priority_rank b)"

definition less_job_priority :: "job_priority \<Rightarrow> job_priority \<Rightarrow> bool" where
  "less_job_priority a b = (priority_rank a < priority_rank b)"

instance
  by standard (auto simp: less_eq_job_priority_def less_job_priority_def)

end

subsection \<open>The rows\<close>

record job =
  job_id :: uuid
  job_type :: string
  payload :: json_dict
  priority :: string
  status :: string
  idempotency_key :: "string option"
  attempts :: int
  max_attempts :: int
  next_retry_at :: "datetime option"
  created_at :: datetime
  started_at :: "datetime option"
  completed_at :: "datetime option"
  job_error :: "string option"
  job_result :: "json_dict option"

record job_log =
  log_id :: uuid
  log_job_id :: uuid
  level :: string
  log_message :: string
  log_created_at :: datetime

text \<open>
  \<open>Job(type=.., payload=.., priority=.., idempotency_key=.., max_attempts=..)\<close>: the other
  columns take the defaults that \<open>class Job\<close> declares. The identifier is the
  \<open>uuid.uuid4\<close> default; \<open>created_at\<close> is the server default \<open>now()\<close>.
\<close>

definition new_job ::
  "uuid \<Rightarrow> datetime \<Rightarrow> string \<Rightarrow> json_dict \<Rightarrow> string \<Rightarrow> string option \<Rightarrow> int \<Rightarrow> job" where
  "new_job i now typ pl prio key maxa =
     \<lparr>job_id = i, job_type = typ, payload = pl, priority = prio,
      status = status_value QUEUED, idempotency_key = key, attempts = 0, max_attempts = maxa,
      next_retry_at = None, created_at = now, started_at = None, completed_at = None,
      job_error = None, job_result = None\<rparr>"

subsection \<open>The table and its constraints\<close>

text \<open>
  The table is a finite map from the primary key. The constraints are those that
  \<open>class Job\<close> declares: the primary key and the unique partial index
  \<open>uq_jobs_idempotency_key\<close> on the keys that are not null.
\<close>

type_synonym table = "uuid \<Rightarrow> job option"

definition keyed_by_id :: "table \<Rightarrow> bool" where
  "keyed_by_id t \<longleftrightarrow> (\<forall>i j. t i = Some j \<longrightarrow> job_id j = i)"

definition unique_keys :: "table \<Rightarrow> bool" where
  "unique_keys t \<longleftrightarrow>
     (\<forall>i j i' j'. t i = Some j \<longrightarrow> t i' = Some j' \<longrightarrow> idempotency_key j \<noteq> None \<longrightarrow>
        idempotency_key j = idempotency_key j' \<longrightarrow> i = i')"

definition insert_conflicts :: "job \<Rightarrow> table \<Rightarrow> bool" where
  "insert_conflicts j t \<longleftrightarrow>
     job_id j \<in> dom t \<or>
     (idempotency_key j \<noteq> None \<and> (\<exists>r \<in> ran t. idempotency_key r = idempotency_key j))"

lemma unique_keys_insert:
  assumes "unique_keys t" and "\<not> insert_conflicts j t"
  shows "unique_keys (t(job_id j \<mapsto> j))"
  using assms unfolding unique_keys_def insert_conflicts_def
  by (auto simp: ran_def)

lemma unique_keys_update:
  assumes "unique_keys t" and "t i = Some j" and "idempotency_key j' = idempotency_key j"
  shows "unique_keys (t(i \<mapsto> j'))"
  using assms unfolding unique_keys_def by (auto split: if_splits)

lemma keyed_by_id_insert: "keyed_by_id t \<Longrightarrow> job_id j = i \<Longrightarrow> keyed_by_id (t(i \<mapsto> j))"
  by (auto simp: keyed_by_id_def)

lemma keyed_by_idD: "keyed_by_id t \<Longrightarrow> t i = Some j \<Longrightarrow> job_id j = i"
  by (auto simp: keyed_by_id_def)

end
