(* ===== verification/Queue_Keys.thy ===== *)
theory Queue_Keys
  imports Float64 Job_Model
begin

section \<open>app/queue/keys.py: key names and the priority score\<close>

text \<open>
  The priority queue is a Redis sorted set; its score is a float, the weight of the
  priority plus the enqueueing time in units of \<open>1e12\<close> seconds. \<open>score_at\<close> is that
  computation with every rounding of the two float operations. The lemmas state what the
  score achieves: priorities never mix, within a priority a later job never gets a smaller
  score, and jobs at least a quarter of a second apart get strictly increasing scores.
  Closer jobs may get the same score.
\<close>

definition FIFO_KEY :: string where
  "FIFO_KEY = ''queue:fifo''"

definition PRIORITY_KEY :: string where
  "PRIORITY_KEY = ''queue:priority''"

definition RETRY_KEY :: string where
  "RETRY_KEY = ''queue:retry''"

lemma keys_distinct [simp]:
  "FIFO_KEY \<noteq> PRIORITY_KEY" "FIFO_KEY \<noteq> RETRY_KEY" "PRIORITY_KEY \<noteq> RETRY_KEY"
  "PRIORITY_KEY \<noteq> FIFO_KEY" "RETRY_KEY \<noteq> FIFO_KEY" "RETRY_KEY \<noteq> PRIORITY_KEY"
  by (simp_all add: FIFO_KEY_def PRIORITY_KEY_def RETRY_KEY_def)

definition PRIORITY_WEIGHTS :: "(string \<times> rat) list" where
  "PRIORITY_WEIGHTS =
     [(priority_value HIGH, 0), (priority_value MEDIUM, 1000), (priority_value LOW, 2000)]"

definition priority_weight :: "string \<Rightarrow> rat" where
  "priority_weight p = (case map_of PRIORITY_WEIGHTS p of None \<Rightarrow> 1000 | Some x \<Rightarrow> x)"

text \<open>\<open>weight + (time.time() / 1e12)\<close> at the time \<open>t\<close>.\<close>

definition score_at :: "string \<Rightarrow> rat \<Rightarrow> rat" where
  "score_at p t = fl (priority_weight p + fl (t / 10 ^ 12))"

subsection \<open>The score orders the queue\<close>

lemma priority_weight_value [simp]: "priority_weight (priority_value p) = of_nat (1000 * priority_rank p)"
  by (cases p) (simp_all add: priority_weight_def PRIORITY_WEIGHTS_def)

lemma priority_weight_cases: "\<exists>n \<le> 2000. priority_weight p = of_nat n"
proof -
  have "priority_weight p = of_nat 0 \<or> priority_weight p = of_nat 1000 \<or> priority_weight p = of_nat 2000"
    by (simp add: priority_weight_def PRIORITY_WEIGHTS_def)
  then show ?thesis by (elim disjE) (auto intro: exI [of _ 0] exI [of _ 1000] exI [of _ 2000])
qed

lemma score_mono:
  assumes "0 \<le> t" and "t \<le> t'" shows "score_at p t \<le> score_at p t'"
proof -
  obtain n where "priority_weight p = of_nat n" using priority_weight_cases by blast
  then show ?thesis
    using double.offset_mono [of "t / 10 ^ 12" "t' / 10 ^ 12" n] assms
    by (simp add: score_at_def divide_right_mono)
qed

lemma score_tiers:
  assumes "p < q" and "0 \<le> t" and "t \<le> 10 ^ 13" and "0 \<le> t'"
  shows "score_at (priority_value p) t < score_at (priority_value q) t'"
proof -
  have "1000 * priority_rank p + 10 < 1000 * priority_rank q"
    using assms(1) by (simp add: less_job_priority_def)
  moreover have "1000 * priority_rank q < 2 ^ 53" by (cases q) simp_all
  ultimately show ?thesis
    using double.offset_less [of "t / 10 ^ 12" 10 "t' / 10 ^ 12" "1000 * priority_rank p" "1000 * priority_rank q"] assms
    unfolding score_at_def priority_weight_value by (simp add: divide_le_eq)
qed

lemma fl_time_error:
  assumes "0 \<le> t" and "t \<le> 10 ^ 13" shows "\<bar>fl (t / 10 ^ 12) - t / 10 ^ 12\<bar> \<le> 1 / 2 ^ 50"
proof -
  have "t / 10 ^ 12 < 2 powi (3 + 1)" using assms by (simp add: power_int_def divide_less_eq)
  then have "\<bar>fl (t / 10 ^ 12) - t / 10 ^ 12\<bar> \<le> 2 powi (3 - 53)"
    using assms by (intro fl_error_le) auto
  then show ?thesis by (simp add: power_int_def field_simps)
qed

lemma score_error:
  assumes "0 \<le> t" and "t \<le> 10 ^ 13"
  shows "\<bar>score_at p t - (priority_weight p + t / 10 ^ 12)\<bar> \<le> 1 / 2 ^ 50 + 1 / 2 ^ 43"
proof -
  obtain n where n: "n \<le> 2000" and w: "priority_weight p = of_nat n" using priority_weight_cases by blast
  let ?x = "priority_weight p + fl (t / 10 ^ 12)"
  have f: "0 \<le> fl (t / 10 ^ 12)" "fl (t / 10 ^ 12) \<le> 10"
    using double.rnd_nonneg [of "t / 10 ^ 12"] double.rnd_le_nat [of "t / 10 ^ 12" 10] assms
    by (auto simp: divide_le_eq)
  have "(of_nat n :: rat) \<le> 2000" using n of_nat_le_iff [of n 2000, where 'a = rat] by simp
  then have "0 \<le> ?x" and "?x < 2 powi (10 + 1)" using f w by (auto simp: power_int_def)
  then have "\<bar>fl ?x - ?x\<bar> \<le> 2 powi (10 - 53)" by (rule fl_error_le)
  then have "\<bar>fl ?x - ?x\<bar> \<le> 1 / 2 ^ 43" by (simp add: power_int_def field_simps)
  with fl_time_error [OF assms] show ?thesis unfolding score_at_def by linarith
qed

lemma score_strict:
  assumes "0 \<le> t" and "t + 1/4 \<le> t'" and "t' \<le> 10 ^ 13"
  shows "score_at p t < score_at p t'"
proof -
  define err :: rat where "err = 1 / 2 ^ 50 + 1 / 2 ^ 43"
  have "\<bar>score_at p t - (priority_weight p + t / 10 ^ 12)\<bar> \<le> err"
    unfolding err_def using assms by (intro score_error) auto
  moreover have "\<bar>score_at p t' - (priority_weight p + t' / 10 ^ 12)\<bar> \<le> err"
    unfolding err_def using assms by (intro score_error) auto
  moreover have "1 / 4 / 10 ^ 12 \<le> t' / 10 ^ 12 - t / 10 ^ 12"
    using assms(2) by (simp add: field_simps)
  moreover have "err + err < 1 / 4 / 10 ^ 12" by (simp add: err_def)
  ultimately show ?thesis by (simp only: abs_le_iff) linarith
qed

lemma score_order:
  assumes "score_at (priority_value p) t \<le> score_at (priority_value q) t'"
    and "0 \<le> t" and "t \<le> 10 ^ 13" and "0 \<le> t'" and "t' \<le> 10 ^ 13"
  shows "p < q \<or> p = q \<and> t < t' + 1/4"
proof -
  have "\<not> q < p" using score_tiers [of q p t' t] assms by auto
  moreover have "t < t' + 1/4" if "p = q"
    using score_strict [of t' t "priority_value p"] assms that by force
  ultimately show ?thesis by force
qed

text \<open>Two medium jobs a sixteenth of a second apart can get the same score: ZPOPMIN then goes by identifier.\<close>

lemma score_tie: "score_at (priority_value MEDIUM) 1778000003 = score_at (priority_value MEDIUM) (1778000003 + 1/16)"
  by code_simp

end
