(* ===== verification/Telemetry.thy ===== *)
theory Telemetry
  imports Prelude "HOL-Library.AList" "HOL-Library.Product_Lexorder"
begin

section \<open>app/core/telemetry.py: the metric registry\<close>

text \<open>
  The module keeps its instruments in dictionaries that are empty until
  \<open>setup_telemetry\<close> fills them, and the last value of each observable gauge in
  \<open>_gauge_state\<close>. The record \<open>telemetry\<close> is that module state; an instrument is its
  OpenTelemetry name. A dictionary whose order can be observed is an association list
  under \<open>AList.update\<close>, which keeps a key's position as Python does; the text
  \<open>str(sorted(attrs.items()))\<close> that keys a gauge is the sorted list of pairs it prints.
  The OpenTelemetry SDK itself (providers, exporters, auto-instrumentation) is not
  modelled; a metric update is an event handed to it.
\<close>

type_synonym attrs = "(string \<times> string) list"

datatype metric =
    CounterAdd string nat attrs
  | UpDownAdd string int attrs
  | HistogramRecord string rat attrs

datatype gauge_callback = Queue_Depth_Callback | Db_Pool_Callback | Redis_Pool_Callback

record telemetry =
  initialized :: bool
  service_name :: string
  span_exporter :: "string option"
  gauge_state :: "(string \<times> (attrs \<times> rat \<times> attrs) list) list"
  counters :: "(string \<times> string) list"
  histograms :: "(string \<times> string) list"
  gauges :: "(string \<times> string) list"
  observable_gauges :: "(string \<times> gauge_callback) list"

definition telemetry_module :: telemetry where
  "telemetry_module =
     \<lparr>initialized = False, service_name = '''', span_exporter = None,
      gauge_state = [(''queue_depth'', []), (''db_pool_size'', []), (''redis_pool_connections'', [])],
      counters = [], histograms = [], gauges = [], observable_gauges = []\<rparr>"

definition counter :: "telemetry \<Rightarrow> string \<Rightarrow> string option" where
  "counter T name = map_of (counters T) name"

definition histogram :: "telemetry \<Rightarrow> string \<Rightarrow> string option" where
  "histogram T name = map_of (histograms T) name"

definition updown :: "telemetry \<Rightarrow> string \<Rightarrow> string option" where
  "updown T name = map_of (gauges T) name"

text \<open>\<open>set_gauge\<close> raises \<open>KeyError\<close> for a metric the module does not know.\<close>

definition set_gauge :: "string \<Rightarrow> attrs \<Rightarrow> rat \<Rightarrow> telemetry \<Rightarrow> exn + telemetry" where
  "set_gauge metric attrs v T =
     (case map_of (gauge_state T) metric of
        None \<Rightarrow> Inl (KeyError metric)
      | Some g \<Rightarrow>
          Inr (T\<lparr>gauge_state := AList.update metric (AList.update (sort attrs) (v, attrs) g) (gauge_state T)\<rparr>))"

text \<open>The three observable-gauge callbacks: one observation per stored attribute set.\<close>

definition observations :: "telemetry \<Rightarrow> string \<Rightarrow> (rat \<times> attrs) list" where
  "observations T metric = map snd (the (map_of (gauge_state T) metric))"

definition queue_depth_callback :: "telemetry \<Rightarrow> (rat \<times> attrs) list" where
  "queue_depth_callback T = observations T ''queue_depth''"

definition db_pool_callback :: "telemetry \<Rightarrow> (rat \<times> attrs) list" where
  "db_pool_callback T = observations T ''db_pool_size''"

definition redis_pool_callback :: "telemetry \<Rightarrow> (rat \<times> attrs) list" where
  "redis_pool_callback T = observations T ''redis_pool_connections''"

fun run_callback :: "gauge_callback \<Rightarrow> telemetry \<Rightarrow> (rat \<times> attrs) list" where
  "run_callback Queue_Depth_Callback T = queue_depth_callback T"
| "run_callback Db_Pool_Callback T = db_pool_callback T"
| "run_callback Redis_Pool_Callback T = redis_pool_callback T"

text \<open>A collection runs the callback of every observable gauge that was created.\<close>

definition collect :: "telemetry \<Rightarrow> (string \<times> (rat \<times> attrs) list) list" where
  "collect T = map (\<lambda>(name, cb). (name, run_callback cb T)) (observable_gauges T)"

definition histogram_views :: "(string \<times> rat list) list" where
  "histogram_views =
     [(''jobqueue_job_wait_duration_seconds'', [1/10, 1/2, 1, 5, 10, 30, 60, 120, 300, 600, 1800]),
      (''jobqueue_job_processing_duration_seconds'', [1/10, 1/2, 1, 5, 10, 30, 60, 120, 300]),
      (''jobqueue_worker_executor_duration_seconds'', [1/10, 1/2, 1, 5, 10, 30, 60, 120, 300]),
      (''jobqueue_retry_backoff_seconds'', [1, 2, 4, 8, 16, 32, 64, 128, 256, 512, 1024, 3600]),
      (''jobqueue_db_query_duration_seconds'',
        [1/1000, 5/1000, 1/100, 25/1000, 5/100, 1/10, 25/100, 5/10, 1]),
      (''jobqueue_redis_command_duration_seconds'',
        [1/10000, 5/10000, 1/1000, 5/1000, 1/100, 5/100, 1/10])]"

definition counter_names :: "string list" where
  "counter_names =
     [''jobs_created'', ''jobs_completed'', ''jobs_failed'', ''jobs_retried'', ''jobs_cancelled'',
      ''idempotency_hits'', ''rate_limit_hits'', ''enqueue'', ''dequeue'', ''retry_drain'',
      ''worker_loop_iterations'', ''worker_idle_seconds'', ''worker_recovery_actions'',
      ''worker_restarts'', ''db_errors'', ''redis_errors'']"

definition histogram_names :: "string list" where
  "histogram_names =
     [''job_wait_duration'', ''job_processing_duration'', ''worker_executor_duration'',
      ''retry_backoff'', ''db_query_duration'', ''redis_command_duration'']"

text \<open>\<open>for name in names: table[name] = create(f"jobqueue_{name}{suffix}")\<close>\<close>

fun create_instruments :: "string \<Rightarrow> string list \<Rightarrow> (string \<times> string) list \<Rightarrow> (string \<times> string) list" where
  "create_instruments suffix [] table = table"
| "create_instruments suffix (n # ns) table =
     create_instruments suffix ns (AList.update n (''jobqueue_'' @ n @ suffix) table)"

definition setup_telemetry :: "string \<Rightarrow> string option \<Rightarrow> telemetry \<Rightarrow> telemetry" where
  "setup_telemetry name otlp_endpoint T =
     (if initialized T then T
      else T\<lparr>initialized := True,
             service_name := name,
             span_exporter := (case otlp_endpoint of None \<Rightarrow> None | Some e \<Rightarrow> if e = '''' then None else Some e),
             counters := create_instruments ''_total'' counter_names (counters T),
             histograms := create_instruments ''_seconds'' histogram_names (histograms T),
             gauges := AList.update ''jobs_active'' ''jobqueue_jobs_active'' (gauges T),
             observable_gauges := observable_gauges T @
               [(''jobqueue_queue_depth'', Queue_Depth_Callback),
                (''jobqueue_db_pool_size'', Db_Pool_Callback),
                (''jobqueue_redis_pool_connections'', Redis_Pool_Callback)]\<rparr>)"

subsection \<open>Properties of the registry\<close>

lemma map_of_create_instruments:
  "map_of (create_instruments suffix ns table) n =
     (if n \<in> set ns then Some (''jobqueue_'' @ n @ suffix) else map_of table n)"
  by (induction ns arbitrary: table) (auto simp: update_conv')

lemma setup_telemetry_idem:
  "setup_telemetry m e' (setup_telemetry n e T) = setup_telemetry n e T"
  by (simp add: setup_telemetry_def)

lemma counter_setup:
  "counter (setup_telemetry n e telemetry_module) c =
     (if c \<in> set counter_names then Some (''jobqueue_'' @ c @ ''_total'') else None)"
  by (simp add: counter_def setup_telemetry_def telemetry_module_def map_of_create_instruments)

lemma histogram_setup:
  "histogram (setup_telemetry n e telemetry_module) h =
     (if h \<in> set histogram_names then Some (''jobqueue_'' @ h @ ''_seconds'') else None)"
  by (simp add: histogram_def setup_telemetry_def telemetry_module_def map_of_create_instruments)

lemma updown_setup:
  "updown (setup_telemetry n e telemetry_module) g =
     (if g = ''jobs_active'' then Some ''jobqueue_jobs_active'' else None)"
  by (simp add: updown_def setup_telemetry_def telemetry_module_def)

text \<open>After the set-up, one collection reports each metric of the module state once.\<close>

lemma collect_setup:
  "collect (setup_telemetry n e telemetry_module\<lparr>gauge_state := g\<rparr>) =
     [(''jobqueue_queue_depth'', map snd (the (map_of g ''queue_depth''))),
      (''jobqueue_db_pool_size'', map snd (the (map_of g ''db_pool_size''))),
      (''jobqueue_redis_pool_connections'', map snd (the (map_of g ''redis_pool_connections'')))]"
  by (simp add: collect_def setup_telemetry_def telemetry_module_def queue_depth_callback_def db_pool_callback_def
      redis_pool_callback_def observations_def)

text \<open>A gauge reports exactly the last value set for each attribute set.\<close>

lemma set_gauge_observed:
  assumes "set_gauge metric attrs v T = Inr T'"
  shows "(v, attrs) \<in> set (observations T' metric)"
    and "map_of (the (map_of (gauge_state T') metric)) (sort attrs) = Some (v, attrs)"
proof -
  obtain g where g: "map_of (gauge_state T) metric = Some g"
    and T': "gauge_state T' = AList.update metric (AList.update (sort attrs) (v, attrs) g) (gauge_state T)"
    using assms by (auto simp: set_gauge_def split: option.splits)
  show m: "map_of (the (map_of (gauge_state T') metric)) (sort attrs) = Some (v, attrs)"
    by (simp add: T' update_conv')
  show "(v, attrs) \<in> set (observations T' metric)"
    using map_of_SomeD [OF m] by (force simp: observations_def)
qed

end
