(* ===== verification/Services.thy ===== *)
theory Services
  imports Job_Model Telemetry "HOL-Library.Multiset"
begin

section \<open>Redis, PostgreSQL, the clock: the services the program calls\<close>

text \<open>
  Redis, PostgreSQL and the OpenTelemetry SDK are not part of the repository. They are a
  parameter of the model: the record \<open>app\<close> has one field per command the program sends,
  and every coroutine of the program takes such a record. What the program relies on is
  the locale \<open>services\<close>: it observes the world through \<open>view\<close>, a \<open>store\<close>, and states
  for each command its documented effect on the store. A command may also raise; then its
  effect either happened or did not (a lost connection does not tell which). A database
  error that the code tells apart, \<open>IntegrityError\<close>, is raised only by a write that
  violates a constraint, and then nothing was written. \<open>reliable_services\<close> adds that
  commands do not fail. Both are interpreted on an in-memory implementation in
  \<open>Mem_Services\<close>.
\<close>

subsection \<open>The store\<close>

record store =
  zsets :: "string \<Rightarrow> string \<Rightarrow> rat option"
  lists :: "string \<Rightarrow> string list"
  rows :: table
  logs :: "job_log list"
  meters :: "metric list"

text \<open>
  A unit of work: what a SQLAlchemy session has collected when it commits. Assigning
  attributes of a loaded \<open>Job\<close> is an \<open>UpdateJob\<close> of exactly those columns, with values
  computed from the row as it was loaded; \<open>session.add(JobLog(..))\<close> is an \<open>AddLog\<close>.
\<close>

datatype db_write =
    InsertJob job
  | UpdateJob uuid "job \<Rightarrow> job"
  | AddLog uuid string string

fun row_write :: "db_write \<Rightarrow> table \<Rightarrow> table" where
  "row_write (InsertJob j) t = t(job_id j \<mapsto> j)"
| "row_write (UpdateJob i f) t = t(i := map_option f (t i))"
| "row_write (AddLog i l m) t = t"

fun row_writes :: "db_write list \<Rightarrow> table \<Rightarrow> table" where
  "row_writes [] t = t"
| "row_writes (x # xs) t = row_writes xs (row_write x t)"

fun writable :: "db_write list \<Rightarrow> table \<Rightarrow> bool" where
  "writable [] t = True"
| "writable (InsertJob j # xs) t = (\<not> insert_conflicts j t \<and> writable xs (row_write (InsertJob j) t))"
| "writable (UpdateJob i f # xs) t = (i \<in> dom t \<and> writable xs (row_write (UpdateJob i f) t))"
| "writable (AddLog i l m # xs) t = (i \<in> dom t \<and> writable xs t)"

fun log_writes :: "db_write list \<Rightarrow> (uuid \<times> string \<times> string) list" where
  "log_writes [] = []"
| "log_writes (AddLog i l m # xs) = (i, l, m) # log_writes xs"
| "log_writes (InsertJob j # xs) = log_writes xs"
| "log_writes (UpdateJob i f # xs) = log_writes xs"

definition log_entry :: "job_log \<Rightarrow> uuid \<times> string \<times> string" where
  "log_entry l = (log_job_id l, level l, log_message l)"

text \<open>
  A committed unit of work writes all its rows and appends its log lines, which all get
  the transaction's start time (\<open>now()\<close> does not advance inside a transaction).
\<close>

definition committed :: "db_write list \<Rightarrow> store \<Rightarrow> store \<Rightarrow> bool" where
  "committed ws s s' \<longleftrightarrow>
     writable ws (rows s) \<and>
     (\<exists>ls t. map log_entry ls = log_writes ws \<and> (\<forall>l \<in> set ls. log_created_at l = t) \<and>
        s' = s\<lparr>rows := row_writes ws (rows s), logs := logs s @ ls\<rparr>)"

subsection \<open>Sorted sets\<close>

text \<open>Redis orders the members of a sorted set by score, then by member.\<close>

definition zbefore :: "(string \<Rightarrow> rat option) \<Rightarrow> string \<Rightarrow> string \<Rightarrow> bool" where
  "zbefore z m n \<longleftrightarrow> (\<exists>a b. z m = Some a \<and> z n = Some b \<and> (a < b \<or> a = b \<and> m < n))"

definition zfirst :: "(string \<Rightarrow> rat option) \<Rightarrow> string \<Rightarrow> bool" where
  "zfirst z m \<longleftrightarrow> m \<in> dom z \<and> (\<forall>n \<in> dom z. n = m \<or> zbefore z m n)"

definition zset_put :: "string \<Rightarrow> string \<Rightarrow> rat \<Rightarrow> store \<Rightarrow> store" where
  "zset_put k m sc s = s\<lparr>zsets := (zsets s)(k := (zsets s k)(m \<mapsto> sc))\<rparr>"

definition zset_del :: "string \<Rightarrow> string \<Rightarrow> store \<Rightarrow> store" where
  "zset_del k m s = s\<lparr>zsets := (zsets s)(k := (zsets s k)(m := None))\<rparr>"

definition zpopped :: "string \<Rightarrow> store \<Rightarrow> (string \<times> rat) list \<Rightarrow> store \<Rightarrow> bool" where
  "zpopped k s r s' \<longleftrightarrow>
     (if zsets s k = Map.empty then r = [] \<and> s' = s
      else \<exists>m sc. zfirst (zsets s k) m \<and> zsets s k m = Some sc \<and> r = [(m, sc)] \<and> s' = zset_del k m s)"

definition zranged :: "string \<Rightarrow> rat \<Rightarrow> nat \<Rightarrow> nat \<Rightarrow> store \<Rightarrow> string list \<Rightarrow> store \<Rightarrow> bool" where
  "zranged k hi start num s r s' \<longleftrightarrow>
     s' = s \<and>
     (\<exists>ms. sorted_wrt (zbefore (zsets s k)) ms \<and>
           set ms = {m. \<exists>sc. zsets s k m = Some sc \<and> sc \<le> hi} \<and>
           r = take num (drop start ms))"

definition zremoved :: "string \<Rightarrow> string \<Rightarrow> store \<Rightarrow> nat \<Rightarrow> store \<Rightarrow> bool" where
  "zremoved k m s r s' \<longleftrightarrow>
     r = (if m \<in> dom (zsets s k) then 1 else 0) \<and> s' = zset_del k m s"

definition list_put :: "string \<Rightarrow> string list \<Rightarrow> store \<Rightarrow> store" where
  "list_put k xs s = s\<lparr>lists := (lists s)(k := xs)\<rparr>"

definition brpopped :: "string \<Rightarrow> store \<Rightarrow> (string \<times> string) option \<Rightarrow> store \<Rightarrow> bool" where
  "brpopped k s r s' \<longleftrightarrow>
     (if lists s k = [] then r = None \<and> s' = s
      else r = Some (k, last (lists s k)) \<and> s' = list_put k (butlast (lists s k)) s)"

subsection \<open>Queries\<close>

definition matching :: "(job \<Rightarrow> bool) \<Rightarrow> store \<Rightarrow> job set" where
  "matching P s = {j \<in> ran (rows s). P j}"

definition newest_first :: "job list \<Rightarrow> bool" where
  "newest_first = sorted_wrt (\<lambda>a b. created_at b \<le> created_at a)"

definition paged :: "(job \<Rightarrow> bool) \<Rightarrow> nat \<Rightarrow> nat \<Rightarrow> store \<Rightarrow> job list \<Rightarrow> store \<Rightarrow> bool" where
  "paged P off n s r s' \<longleftrightarrow>
     s' = s \<and> (\<exists>js. distinct js \<and> set js = matching P s \<and> newest_first js \<and> r = take n (drop off js))"

definition job_logs_of :: "uuid \<Rightarrow> store \<Rightarrow> job_log list \<Rightarrow> store \<Rightarrow> bool" where
  "job_logs_of i s r s' \<longleftrightarrow>
     s' = s \<and> mset r = mset (filter (\<lambda>l. log_job_id l = i) (logs s)) \<and>
     sorted_wrt (\<lambda>a b. log_created_at a \<le> log_created_at b) r"

definition status_counted :: "store \<Rightarrow> (string \<times> nat) list \<Rightarrow> store \<Rightarrow> bool" where
  "status_counted s r s' \<longleftrightarrow>
     s' = s \<and> distinct (map fst r) \<and>
     (\<forall>st n. (st, n) \<in> set r \<longleftrightarrow> (n = card (matching (\<lambda>j. status j = st) s) \<and> 0 < n))"

text \<open>\<open>AVG(EXTRACT(EPOCH FROM (completed_at - started_at)))\<close> over the rows it selects.\<close>

definition finished :: "job \<Rightarrow> bool" where
  "finished j \<longleftrightarrow> status j = ''completed'' \<and> started_at j \<noteq> None \<and> completed_at j \<noteq> None"

definition averaged :: "store \<Rightarrow> rat option \<Rightarrow> store \<Rightarrow> bool" where
  "averaged s r s' \<longleftrightarrow>
     s' = s \<and>
     (let F = matching finished s in
      r = (if F = {} then None
           else Some ((\<Sum>j\<in>F. of_int (the (completed_at j) - the (started_at j)) / 10 ^ 6) / of_nat (card F))))"

subsection \<open>The commands\<close>

record 'w app =
  registry :: telemetry
  hostname :: string
  metric_add :: "metric \<Rightarrow> 'w \<Rightarrow> 'w"
  clock_now :: "'w \<Rightarrow> datetime \<times> 'w"
  clock_time :: "'w \<Rightarrow> rat \<times> 'w"
  clock_perf :: "'w \<Rightarrow> rat \<times> 'w"
  rnd_random :: "'w \<Rightarrow> rat \<times> 'w"
  rnd_uniform :: "rat \<Rightarrow> rat \<Rightarrow> 'w \<Rightarrow> rat \<times> 'w"
  rnd_int :: "int \<Rightarrow> int \<Rightarrow> 'w \<Rightarrow> int \<times> 'w"
  rnd_uuid4 :: "'w \<Rightarrow> uuid \<times> 'w"
  trace_parent :: "'w \<Rightarrow> string option \<times> 'w"
  deadline_hit :: "int \<Rightarrow> 'w \<Rightarrow> bool \<times> 'w"
  nap :: "rat \<Rightarrow> 'w \<Rightarrow> 'w"
  dict_text :: "json_dict \<Rightarrow> string"
  zadd :: "string \<Rightarrow> string \<Rightarrow> rat \<Rightarrow> ('w, unit) io"
  zpopmin :: "string \<Rightarrow> ('w, (string \<times> rat) list) io"
  zrangebyscore :: "string \<Rightarrow> rat \<Rightarrow> nat \<Rightarrow> nat \<Rightarrow> ('w, string list) io"
  zrem :: "string \<Rightarrow> string \<Rightarrow> ('w, nat) io"
  zcard :: "string \<Rightarrow> ('w, nat) io"
  lpush :: "string \<Rightarrow> string \<Rightarrow> ('w, unit) io"
  brpop :: "string \<Rightarrow> nat \<Rightarrow> ('w, (string \<times> string) option) io"
  lrem_all :: "string \<Rightarrow> string \<Rightarrow> ('w, nat) io"
  llen :: "string \<Rightarrow> ('w, nat) io"
  db_get :: "uuid \<Rightarrow> ('w, job option) io"
  db_where :: "(job \<Rightarrow> bool) \<Rightarrow> ('w, job list) io"
  db_page :: "(job \<Rightarrow> bool) \<Rightarrow> nat \<Rightarrow> nat \<Rightarrow> ('w, job list) io"
  db_count :: "(job \<Rightarrow> bool) \<Rightarrow> ('w, nat) io"
  db_job_logs :: "uuid \<Rightarrow> ('w, job_log list) io"
  db_status_counts :: "('w, (string \<times> nat) list) io"
  db_avg_seconds :: "('w, rat option) io"
  db_flush_new :: "job \<Rightarrow> ('w, job) io"
  db_commit :: "db_write list \<Rightarrow> ('w, unit) io"
  db_rollback :: "('w, unit) io"

text \<open>Readings of clocks and generators do not raise.\<close>

definition read_io :: "('w \<Rightarrow> 'a \<times> 'w) \<Rightarrow> ('w, 'a) io" where
  "read_io f w = (case f w of (a, w') \<Rightarrow> (Inr a, w'))"

text \<open>app/utils/time.py\<close>

abbreviation now_utc :: "'w app \<Rightarrow> ('w, datetime) io" where
  "now_utc A \<equiv> read_io (clock_now A)"

abbreviation epoch_now :: "'w app \<Rightarrow> ('w, rat) io" where
  "epoch_now A \<equiv> read_io (clock_time A)"

text \<open>
  \<open>if c := counter(name): c.add(n, attrs)\<close>, and the same for \<open>updown\<close> and for
  \<open>histogram(name)\<close> with \<open>h.record(v, attrs)\<close>
\<close>

definition count_io :: "'w app \<Rightarrow> string \<Rightarrow> nat \<Rightarrow> attrs \<Rightarrow> ('w, unit) io" where
  "count_io A name n attrs =
     (case counter (registry A) name of
        None \<Rightarrow> return_io ()
      | Some c \<Rightarrow> do_io (metric_add A (CounterAdd c n attrs)))"

definition updown_io :: "'w app \<Rightarrow> string \<Rightarrow> int \<Rightarrow> attrs \<Rightarrow> ('w, unit) io" where
  "updown_io A name n attrs =
     (case updown (registry A) name of
        None \<Rightarrow> return_io ()
      | Some g \<Rightarrow> do_io (metric_add A (UpDownAdd g n attrs)))"

definition record_io :: "'w app \<Rightarrow> string \<Rightarrow> rat \<Rightarrow> attrs \<Rightarrow> ('w, unit) io" where
  "record_io A name v attrs =
     (case histogram (registry A) name of
        None \<Rightarrow> return_io ()
      | Some h \<Rightarrow> do_io (metric_add A (HistogramRecord h v attrs)))"

subsection \<open>What is promised of a command\<close>

definition call :: "('w \<Rightarrow> store) \<Rightarrow> ('w, 'a) io \<Rightarrow> (store \<Rightarrow> 'a \<Rightarrow> store \<Rightarrow> bool) \<Rightarrow> bool" where
  "call view m R \<longleftrightarrow>
     (\<forall>w. case m w of
            (Inr a, w') \<Rightarrow> R (view w) a (view w')
          | (Inl e, w') \<Rightarrow> \<not> is_integrity e \<and> (view w' = view w \<or> (\<exists>a. R (view w) a (view w'))))"

definition reading :: "('w \<Rightarrow> store) \<Rightarrow> ('w \<Rightarrow> 'a \<times> 'w) \<Rightarrow> ('a \<Rightarrow> bool) \<Rightarrow> bool" where
  "reading view f P \<longleftrightarrow> (\<forall>w. view (snd (f w)) = view w \<and> P (fst (f w)))"

definition flushes :: "('w \<Rightarrow> store) \<Rightarrow> ('w, job) io \<Rightarrow> job \<Rightarrow> bool" where
  "flushes view m j \<longleftrightarrow>
     (\<forall>w. case m w of
            (Inr r, w') \<Rightarrow> view w' = view w \<and> \<not> insert_conflicts j (rows (view w)) \<and>
                            (\<exists>t. r = j\<lparr>created_at := t\<rparr>)
          | (Inl e, w') \<Rightarrow> view w' = view w \<and> (is_integrity e \<longrightarrow> insert_conflicts j (rows (view w))))"

definition commits :: "('w \<Rightarrow> store) \<Rightarrow> ('w, unit) io \<Rightarrow> db_write list \<Rightarrow> bool" where
  "commits view m ws \<longleftrightarrow>
     (\<forall>w. case m w of
            (Inr _, w') \<Rightarrow> committed ws (view w) (view w')
          | (Inl e, w') \<Rightarrow>
              view w' = view w \<and> (is_integrity e \<longrightarrow> \<not> writable ws (rows (view w))) \<or>
              \<not> is_integrity e \<and> committed ws (view w) (view w'))"

locale services =
  fixes A :: "'w app" and view :: "'w \<Rightarrow> store"
  assumes metric_law: "view (metric_add A m w) = (view w)\<lparr>meters := meters (view w) @ [m]\<rparr>"
    and nap_law: "view (nap A d w) = view w"
    and now_law: "reading view (clock_now A) (\<lambda>_. True)"
    and time_law: "reading view (clock_time A) (\<lambda>t. 0 \<le> t \<and> t \<le> 10 ^ 13)"
    and perf_law: "reading view (clock_perf A) (\<lambda>_. True)"
    and random_law: "reading view (rnd_random A) (\<lambda>r. 0 \<le> r \<and> r \<le> 1 - 1 / 2 ^ 53)"
    and uniform_law: "a \<le> b \<Longrightarrow> reading view (rnd_uniform A a b) (\<lambda>r. a \<le> r \<and> r \<le> b)"
    and randint_law: "lo \<le> up \<Longrightarrow> reading view (rnd_int A lo up) (\<lambda>r. lo \<le> r \<and> r \<le> up)"
    and uuid4_law: "reading view (rnd_uuid4 A) (\<lambda>_. True)"
    and trace_law: "reading view (trace_parent A) (\<lambda>_. True)"
    and deadline_law: "reading view (deadline_hit A secs) (\<lambda>_. True)"
    and zadd_law: "call view (zadd A k mem sc) (\<lambda>s _ s'. s' = zset_put k mem sc s)"
    and zpopmin_law: "call view (zpopmin A k) (zpopped k)"
    and zrangebyscore_law: "call view (zrangebyscore A k hi start num) (zranged k hi start num)"
    and zrem_law: "call view (zrem A k mem) (zremoved k mem)"
    and zcard_law: "call view (zcard A k) (\<lambda>s r s'. s' = s \<and> r = card (dom (zsets s k)))"
    and lpush_law: "call view (lpush A k x) (\<lambda>s _ s'. s' = list_put k (x # lists s k) s)"
    and brpop_law: "call view (brpop A k timeout) (brpopped k)"
    and lrem_law: "call view (lrem_all A k x)
                     (\<lambda>s r s'. r = count_list (lists s k) x \<and> s' = list_put k (removeAll x (lists s k)) s)"
    and llen_law: "call view (llen A k) (\<lambda>s r s'. s' = s \<and> r = length (lists s k))"
    and get_law: "call view (db_get A i) (\<lambda>s r s'. s' = s \<and> r = rows s i)"
    and where_law: "call view (db_where A P) (\<lambda>s r s'. s' = s \<and> distinct r \<and> set r = matching P s)"
    and page_law: "call view (db_page A P off n) (paged P off n)"
    and count_law: "call view (db_count A P) (\<lambda>s r s'. s' = s \<and> r = card (matching P s))"
    and logs_law: "call view (db_job_logs A i) (job_logs_of i)"
    and status_counts_law: "call view (db_status_counts A) status_counted"
    and avg_law: "call view (db_avg_seconds A) averaged"
    and flush_law: "flushes view (db_flush_new A j) j"
    and commit_law: "commits view (db_commit A ws) ws"
    and rollback_law: "call view (db_rollback A) (\<lambda>s _ s'. s' = s)"

text \<open>The same services when no command fails, except an insert that violates a constraint.\<close>

definition total :: "('w, 'a) io \<Rightarrow> bool" where
  "total m \<longleftrightarrow> (\<forall>w. \<exists>a w'. m w = (Inr a, w'))"

locale reliable_services = services +
  assumes redis_total:
      "total (zadd A k mem sc)" "total (zpopmin A k)" "total (zrangebyscore A k hi start num)"
      "total (zrem A k mem)" "total (zcard A k)" "total (lpush A k x)" "total (brpop A k timeout)"
      "total (lrem_all A k x)" "total (llen A k)"
    and query_total:
      "total (db_get A i)" "total (db_where A P)" "total (db_page A P off n)" "total (db_count A P)"
      "total (db_job_logs A i)" "total (db_status_counts A)" "total (db_avg_seconds A)"
      "total (db_rollback A)"
    and flush_fails: "db_flush_new A j w = (Inl e, w') \<Longrightarrow> is_integrity e"
    and insert_fails: "db_commit A [InsertJob j] w = (Inl e, w') \<Longrightarrow> is_integrity e"
    and commit_total: "writable ws (rows (view w)) \<Longrightarrow> \<exists>w'. db_commit A ws w = (Inr (), w')"

subsection \<open>Rules for the commands\<close>

lemma wp_call:
  assumes "call view m R"
    and "\<And>a w'. R (view w) a (view w') \<Longrightarrow> Q a w'"
    and "\<And>e w'. \<not> is_integrity e \<Longrightarrow> view w' = view w \<Longrightarrow> X e w'"
    and "\<And>e a w'. \<not> is_integrity e \<Longrightarrow> R (view w) a (view w') \<Longrightarrow> X e w'"
  shows "wp m Q X w"
proof -
  from assms(1) have "case m w of (Inr a, w') \<Rightarrow> R (view w) a (view w')
      | (Inl e, w') \<Rightarrow> \<not> is_integrity e \<and> (view w' = view w \<or> (\<exists>a. R (view w) a (view w')))"
    by (simp add: call_def)
  then show ?thesis using assms(2-4) unfolding wp_def by (auto split: prod.splits sum.splits)
qed

lemma wp_call_total:
  assumes "call view m R" and "total m" and "\<And>a w'. R (view w) a (view w') \<Longrightarrow> Q a w'"
  shows "wp m Q X w"
proof -
  obtain a w' where m: "m w = (Inr a, w')" using assms(2) unfolding total_def by blast
  then have "R (view w) a (view w')" using assms(1) by (auto simp: call_def dest: spec [of _ w])
  then show ?thesis by (simp add: wp_def m assms(3))
qed

lemma wp_reading:
  assumes "reading view f P" and "\<And>a w'. P a \<Longrightarrow> view w' = view w \<Longrightarrow> Q a w'"
  shows "wp (read_io f) Q X w"
  using assms by (auto simp: reading_def wp_def read_io_def split: prod.split dest: spec [of _ w])

text \<open>A reading is the value the service gives in this world.\<close>

lemma wp_read_io: "wp (read_io f) Q X w = Q (fst (f w)) (snd (f w))"
  by (simp add: wp_def read_io_def split: prod.split)

lemma committedD:
  assumes "committed ws s s'"
  shows "writable ws (rows s)" and "rows s' = row_writes ws (rows s)"
    and "zsets s' = zsets s" and "lists s' = lists s" and "meters s' = meters s"
    and "\<exists>ls t. logs s' = logs s @ ls \<and> map log_entry ls = log_writes ws \<and> (\<forall>l \<in> set ls. log_created_at l = t)"
  using assms by (auto simp: committed_def)

context services
begin

lemma wp_count [wp_rules]:
  assumes "\<And>w' ms. view w' = (view w)\<lparr>meters := meters (view w) @ ms\<rparr> \<Longrightarrow> Q () w'"
  shows "wp (count_io A name n attrs) Q X w"
  using assms [of w "[]"] assms by (auto simp: count_io_def wp_simps metric_law split: option.split)

lemma wp_updown [wp_rules]:
  assumes "\<And>w' ms. view w' = (view w)\<lparr>meters := meters (view w) @ ms\<rparr> \<Longrightarrow> Q () w'"
  shows "wp (updown_io A name n attrs) Q X w"
  using assms [of w "[]"] assms by (auto simp: updown_io_def wp_simps metric_law split: option.split)

lemma wp_record [wp_rules]:
  assumes "\<And>w' ms. view w' = (view w)\<lparr>meters := meters (view w) @ ms\<rparr> \<Longrightarrow> Q () w'"
  shows "wp (record_io A name v attrs) Q X w"
  using assms [of w "[]"] assms by (auto simp: record_io_def wp_simps metric_law split: option.split)

lemma wp_nap [wp_rules]: "(\<And>w'. view w' = view w \<Longrightarrow> Q () w') \<Longrightarrow> wp (do_io (nap A d)) Q X w"
  by (simp add: wp_simps nap_law)

lemma wp_commit:
  assumes "\<And>w'. committed ws (view w) (view w') \<Longrightarrow> Q () w'"
    and "\<And>e w'. view w' = view w \<Longrightarrow> (is_integrity e \<Longrightarrow> \<not> writable ws (rows (view w))) \<Longrightarrow> X e w'"
    and "\<And>e w'. \<not> is_integrity e \<Longrightarrow> committed ws (view w) (view w') \<Longrightarrow> X e w'"
  shows "wp (db_commit A ws) Q X w"
proof -
  from commit_law [of ws] have "case db_commit A ws w of
            (Inr _, w') \<Rightarrow> committed ws (view w) (view w')
          | (Inl e, w') \<Rightarrow>
              view w' = view w \<and> (is_integrity e \<longrightarrow> \<not> writable ws (rows (view w))) \<or>
              \<not> is_integrity e \<and> committed ws (view w) (view w')"
    by (simp add: commits_def)
  then show ?thesis using assms unfolding wp_def by (auto split: prod.splits sum.splits)
qed

lemma wp_flush:
  assumes "\<And>t w'. view w' = view w \<Longrightarrow> \<not> insert_conflicts j (rows (view w)) \<Longrightarrow> Q (j\<lparr>created_at := t\<rparr>) w'"
    and "\<And>e w'. view w' = view w \<Longrightarrow> (is_integrity e \<Longrightarrow> insert_conflicts j (rows (view w))) \<Longrightarrow> X e w'"
  shows "wp (db_flush_new A j) Q X w"
proof -
  from flush_law [of j] have "case db_flush_new A j w of
            (Inr r, w') \<Rightarrow> view w' = view w \<and> \<not> insert_conflicts j (rows (view w)) \<and>
                            (\<exists>t. r = j\<lparr>created_at := t\<rparr>)
          | (Inl e, w') \<Rightarrow> view w' = view w \<and> (is_integrity e \<longrightarrow> insert_conflicts j (rows (view w)))"
    by (simp add: flushes_def)
  then show ?thesis using assms unfolding wp_def by (auto split: prod.splits sum.splits)
qed

lemmas wp_now = wp_reading [OF now_law]
lemmas wp_time = wp_reading [OF time_law]
lemmas wp_perf = wp_reading [OF perf_law]
lemmas wp_random = wp_reading [OF random_law]
lemmas wp_uuid4 = wp_reading [OF uuid4_law]
lemmas wp_trace = wp_reading [OF trace_law]
lemmas wp_deadline = wp_reading [OF deadline_law]
lemmas wp_readings = wp_now wp_time wp_perf wp_random wp_uuid4 wp_trace wp_deadline
lemmas wp_redis = wp_call [OF zadd_law] wp_call [OF zpopmin_law] wp_call [OF zrangebyscore_law]
  wp_call [OF zrem_law] wp_call [OF zcard_law] wp_call [OF lpush_law] wp_call [OF brpop_law]
  wp_call [OF lrem_law] wp_call [OF llen_law]
lemmas wp_queries = wp_call [OF get_law] wp_call [OF where_law] wp_call [OF page_law]
  wp_call [OF count_law] wp_call [OF logs_law] wp_call [OF status_counts_law] wp_call [OF avg_law]
  wp_call [OF rollback_law]

end

context reliable_services
begin

lemmas wp_redis_total = wp_call_total [OF zadd_law redis_total(1)]
  wp_call_total [OF zpopmin_law redis_total(2)] wp_call_total [OF zrangebyscore_law redis_total(3)]
  wp_call_total [OF zrem_law redis_total(4)] wp_call_total [OF zcard_law redis_total(5)]
  wp_call_total [OF lpush_law redis_total(6)] wp_call_total [OF brpop_law redis_total(7)]
  wp_call_total [OF lrem_law redis_total(8)] wp_call_total [OF llen_law redis_total(9)]
lemmas wp_queries_total = wp_call_total [OF get_law query_total(1)]
  wp_call_total [OF where_law query_total(2)] wp_call_total [OF page_law query_total(3)]
  wp_call_total [OF count_law query_total(4)] wp_call_total [OF logs_law query_total(5)]
  wp_call_total [OF status_counts_law query_total(6)] wp_call_total [OF avg_law query_total(7)]
  wp_call_total [OF rollback_law query_total(8)]

text \<open>The world a command ends in.\<close>

lemma wp_call_at:
  assumes "call view m R" and "total m"
    and "\<And>a w'. w' = snd (m w) \<Longrightarrow> R (view w) a (view w') \<Longrightarrow> Q a w'"
  shows "wp m Q X w"
proof -
  obtain a w' where m: "m w = (Inr a, w')" using assms(2) unfolding total_def by blast
  then have "R (view w) a (view w')" using assms(1) by (auto simp: call_def dest: spec [of _ w])
  then show ?thesis by (simp add: wp_def m assms(3))
qed

lemma wp_commit_total:
  assumes "writable ws (rows (view w))" and "\<And>w'. committed ws (view w) (view w') \<Longrightarrow> Q () w'"
  shows "wp (db_commit A ws) Q X w"
proof -
  obtain w' where m: "db_commit A ws w = (Inr (), w')" using commit_total [OF assms(1)] by auto
  have "wp (db_commit A ws) (\<lambda>_. committed ws (view w) \<circ> view) (\<lambda>_ _. True) w"
    by (rule wp_commit) auto
  then have "committed ws (view w) (view w')" using m by (simp add: wp_def)
  then show ?thesis by (simp add: wp_def m assms(2))
qed

lemma wp_insert_cases:
  assumes "\<And>w'. \<not> insert_conflicts j (rows (view w)) \<Longrightarrow> view w' = (view w)\<lparr>rows := (rows (view w))(job_id j \<mapsto> j)\<rparr> \<Longrightarrow> Q () w'"
    and "\<And>e w'. is_integrity e \<Longrightarrow> insert_conflicts j (rows (view w)) \<Longrightarrow> view w' = view w \<Longrightarrow> X e w'"
  shows "wp (db_commit A [InsertJob j]) Q X w"
proof -
  have "wp (db_commit A [InsertJob j]) (\<lambda>_ w'. committed [InsertJob j] (view w) (view w'))
      (\<lambda>e w'. is_integrity e \<longrightarrow> insert_conflicts j (rows (view w)) \<and> view w' = view w) w"
    by (rule wp_commit) auto
  moreover have "is_integrity e" if "db_commit A [InsertJob j] w = (Inl e, w')" for e w'
    using insert_fails [OF that] .
  ultimately show ?thesis
    using assms by (fastforce simp: wp_def committed_def split: prod.splits sum.splits)
qed

lemma wp_flush_cases:
  assumes "\<And>t w'. view w' = view w \<Longrightarrow> \<not> insert_conflicts j (rows (view w)) \<Longrightarrow> Q (j\<lparr>created_at := t\<rparr>) w'"
    and "\<And>e w'. is_integrity e \<Longrightarrow> view w' = view w \<Longrightarrow> insert_conflicts j (rows (view w)) \<Longrightarrow> X e w'"
  shows "wp (db_flush_new A j) Q X w"
proof -
  have "wp (db_flush_new A j) (\<lambda>r w'. view w' = view w \<and> \<not> insert_conflicts j (rows (view w)) \<and> (\<exists>t. r = j\<lparr>created_at := t\<rparr>))
      (\<lambda>e w'. view w' = view w \<and> (is_integrity e \<longrightarrow> insert_conflicts j (rows (view w)))) w"
    by (rule wp_flush) auto
  then show ?thesis
    using assms flush_fails by (fastforce simp: wp_def split: prod.splits sum.splits)
qed

end

end
