(* ===== verification/Mem_Services.thy ===== *)
theory Mem_Services
  imports Services
begin

section \<open>An in-memory implementation of the services\<close>

text \<open>
  A complete executable implementation of every command: sorted sets and tables are
  association lists, clocks count up, the random generator and the identifiers follow a
  script, and \<open>m_faults\<close> scripts which of the next commands raise. It satisfies every law
  of \<open>services\<close>, and of \<open>reliable_services\<close> when its script cannot fail
  (\<open>mem_app False\<close>), so no theorem about all services is about none, and the witnesses
  run the program on it.
\<close>

record mem =
  m_zsets :: "string \<Rightarrow> (string \<times> rat) list"
  m_lists :: "string \<Rightarrow> string list"
  m_rows :: "(uuid \<times> job) list"
  m_logs :: "job_log list"
  m_meters :: "metric list"
  m_clock :: int
  m_random :: "rat list"
  m_uuid :: nat
  m_faults :: "bool list"
  m_late :: "bool list"

definition mem_init :: mem where
  "mem_init =
     \<lparr>m_zsets = (\<lambda>_. []), m_lists = (\<lambda>_. []), m_rows = [], m_logs = [], m_meters = [],
      m_clock = 0, m_random = [], m_uuid = 1, m_faults = [], m_late = []\<rparr>"

definition mem_view :: "mem \<Rightarrow> store" where
  "mem_view w =
     \<lparr>zsets = (\<lambda>k. map_of (m_zsets w k)), lists = m_lists w, rows = map_of (m_rows w),
      logs = m_logs w, meters = m_meters w\<rparr>"

lemma mem_view_sel [simp]:
  "zsets (mem_view w) = (\<lambda>k. map_of (m_zsets w k))"
  "lists (mem_view w) = m_lists w" "rows (mem_view w) = map_of (m_rows w)"
  "logs (mem_view w) = m_logs w" "meters (mem_view w) = m_meters w"
  by (simp_all add: mem_view_def)

subsection \<open>Running a command\<close>

text \<open>When faults are possible, the script says whether the command raises before it runs.\<close>

definition mem_cmd :: "bool \<Rightarrow> (mem \<Rightarrow> 'a \<times> mem) \<Rightarrow> (mem, 'a) io" where
  "mem_cmd faulty f w =
     (case m_faults w of
        b # bs \<Rightarrow> if faulty \<and> b then (Inl (OtherError ''connection lost''), w\<lparr>m_faults := bs\<rparr>)
                  else (case f (w\<lparr>m_faults := bs\<rparr>) of (a, w') \<Rightarrow> (Inr a, w'))
      | [] \<Rightarrow> (case f w of (a, w') \<Rightarrow> (Inr a, w')))"

lemma mem_view_faults [simp]: "mem_view (w\<lparr>m_faults := bs\<rparr>) = mem_view w"
  by (simp add: mem_view_def)

lemma call_mem_cmd:
  assumes "\<And>w. R (mem_view w) (fst (f w)) (mem_view (snd (f w)))"
  shows "call mem_view (mem_cmd faulty f) R"
proof -
  have r: "R (mem_view w) (fst (f (w\<lparr>m_faults := bs\<rparr>))) (mem_view (snd (f (w\<lparr>m_faults := bs\<rparr>))))" for w bs
    using assms [of "w\<lparr>m_faults := bs\<rparr>"] by simp
  have "case mem_cmd faulty f w of (Inr a, w') \<Rightarrow> R (mem_view w) a (mem_view w')
      | (Inl e, w') \<Rightarrow> \<not> is_integrity e \<and> (mem_view w' = mem_view w \<or> (\<exists>a. R (mem_view w) a (mem_view w')))" for w
  proof (cases "m_faults w")
    case Nil
    then show ?thesis using assms [of w] by (auto simp: mem_cmd_def split: prod.split)
  next
    case (Cons b bs)
    then show ?thesis using r [of w bs] by (auto simp: mem_cmd_def split: prod.split)
  qed
  then show ?thesis by (simp add: call_def)
qed

lemma total_mem_cmd: "total (mem_cmd False f)"
  unfolding total_def mem_cmd_def by (auto split: list.split prod.split)

subsection \<open>Redis\<close>

definition zsorted :: "(string \<times> rat) list \<Rightarrow> (string \<times> rat) list" where
  "zsorted z = sort_key (\<lambda>(m, s). (s, m)) (AList.clearjunk z)"

definition mem_zadd :: "string \<Rightarrow> string \<Rightarrow> rat \<Rightarrow> mem \<Rightarrow> unit \<times> mem" where
  "mem_zadd k m sc w = ((), w\<lparr>m_zsets := (m_zsets w)(k := AList.update m sc (m_zsets w k))\<rparr>)"

definition mem_zdel :: "string \<Rightarrow> string \<Rightarrow> mem \<Rightarrow> mem" where
  "mem_zdel k m w = w\<lparr>m_zsets := (m_zsets w)(k := AList.delete m (m_zsets w k))\<rparr>"

definition mem_zpopmin :: "string \<Rightarrow> mem \<Rightarrow> (string \<times> rat) list \<times> mem" where
  "mem_zpopmin k w = (case zsorted (m_zsets w k) of [] \<Rightarrow> ([], w) | p # _ \<Rightarrow> ([p], mem_zdel k (fst p) w))"

definition mem_zrangebyscore :: "string \<Rightarrow> rat \<Rightarrow> nat \<Rightarrow> nat \<Rightarrow> mem \<Rightarrow> string list \<times> mem" where
  "mem_zrangebyscore k hi start num w =
     (take num (drop start (map fst (filter (\<lambda>p. snd p \<le> hi) (zsorted (m_zsets w k))))), w)"

definition mem_zrem :: "string \<Rightarrow> string \<Rightarrow> mem \<Rightarrow> nat \<times> mem" where
  "mem_zrem k m w = (if map_of (m_zsets w k) m = None then 0 else 1, mem_zdel k m w)"

definition mem_zcard :: "string \<Rightarrow> mem \<Rightarrow> nat \<times> mem" where
  "mem_zcard k w = (length (AList.clearjunk (m_zsets w k)), w)"

definition mem_set_list :: "string \<Rightarrow> string list \<Rightarrow> mem \<Rightarrow> mem" where
  "mem_set_list k xs w = w\<lparr>m_lists := (m_lists w)(k := xs)\<rparr>"

definition mem_brpop :: "string \<Rightarrow> mem \<Rightarrow> (string \<times> string) option \<times> mem" where
  "mem_brpop k w =
     (if m_lists w k = [] then (None, w)
      else (Some (k, last (m_lists w k)), mem_set_list k (butlast (m_lists w k)) w))"

lemma distinct_zsorted: "distinct (map fst (zsorted z))"
proof -
  have "mset (map fst (zsorted z)) = mset (map fst (AList.clearjunk z))" by (simp add: zsorted_def)
  then show ?thesis using distinct_clearjunk [of z] by (metis mset_eq_imp_distinct_iff)
qed

lemma map_of_zsorted: "map_of (zsorted z) = map_of z"
proof
  fix m
  have "map_of (zsorted z) m = Some s \<longleftrightarrow> map_of (AList.clearjunk z) m = Some s" for s
    using distinct_zsorted [of z] distinct_clearjunk [of z]
    by (simp add: map_of_eq_Some_iff) (simp add: zsorted_def)
  then show "map_of (zsorted z) m = map_of z m" by (metis map_of_clearjunk not_Some_eq)
qed

lemma zsorted_mem: "(m, s) \<in> set (zsorted z) \<longleftrightarrow> map_of z m = Some s"
  using distinct_zsorted [of z] map_of_zsorted [of z] by (metis map_of_eq_Some_iff)

lemma zsorted_sorted: "sorted_wrt (\<lambda>p q. zbefore (map_of z) (fst p) (fst q)) (zsorted z)"
proof -
  let ?swap = "\<lambda>(m, s). (s, m)"
  have "sorted (map ?swap (zsorted z))" by (simp add: zsorted_def)
  moreover have "distinct (map ?swap (zsorted z))"
    using distinct_zsorted [of z] by (auto simp: distinct_map inj_on_def)
  ultimately have "sorted_wrt (<) (map ?swap (zsorted z))" by (simp add: strict_sorted_iff)
  then have "sorted_wrt (\<lambda>p q. ?swap p < ?swap q) (zsorted z)" by (simp add: sorted_wrt_map)
  then show ?thesis
    by (rule sorted_wrt_mono_rel [rotated]) (auto simp: zbefore_def zsorted_mem less_prod_def)
qed

lemma zsorted_Nil: "zsorted z = [] \<longleftrightarrow> z = []"
  using map_of_zsorted [of z] by (metis map_of_eq_empty_iff)

lemma zsorted_empty [simp]: "zsorted [] = []"
  by (simp add: zsorted_Nil)

subsection \<open>PostgreSQL\<close>

definition mem_matching :: "(job \<Rightarrow> bool) \<Rightarrow> mem \<Rightarrow> job list" where
  "mem_matching P w = remdups (filter P (map snd (AList.clearjunk (m_rows w))))"

definition mem_page :: "(job \<Rightarrow> bool) \<Rightarrow> nat \<Rightarrow> nat \<Rightarrow> mem \<Rightarrow> job list \<times> mem" where
  "mem_page P off n w = (take n (drop off (sort_key (\<lambda>j. - created_at j) (mem_matching P w))), w)"

definition mem_job_logs :: "uuid \<Rightarrow> mem \<Rightarrow> job_log list \<times> mem" where
  "mem_job_logs i w = (sort_key log_created_at (filter (\<lambda>l. log_job_id l = i) (m_logs w)), w)"

definition mem_status_counts :: "mem \<Rightarrow> (string \<times> nat) list \<times> mem" where
  "mem_status_counts w =
     (map (\<lambda>st. (st, length (mem_matching (\<lambda>j. status j = st) w)))
        (remdups (map status (mem_matching (\<lambda>_. True) w))), w)"

definition mem_avg_seconds :: "mem \<Rightarrow> rat option \<times> mem" where
  "mem_avg_seconds w =
     (let js = mem_matching finished w in
      (if js = [] then None
       else Some (sum_list (map (\<lambda>j. of_int (the (completed_at j) - the (started_at j)) / 10 ^ 6) js)
                  / of_nat (length js)), w))"

definition mem_tick :: "mem \<Rightarrow> datetime \<times> mem" where
  "mem_tick w = (m_clock w, w\<lparr>m_clock := m_clock w + 1\<rparr>)"

definition mem_conflicts :: "job \<Rightarrow> mem \<Rightarrow> bool" where
  "mem_conflicts j w =
     (map_of (m_rows w) (job_id j) \<noteq> None \<or>
      (idempotency_key j \<noteq> None \<and>
       list_ex (\<lambda>r. idempotency_key r = idempotency_key j) (map snd (AList.clearjunk (m_rows w)))))"

definition mem_flush_new :: "bool \<Rightarrow> job \<Rightarrow> (mem, job) io" where
  "mem_flush_new faulty j w =
     (if mem_conflicts j w then (Inl (IntegrityError ''duplicate key value violates unique constraint''), w)
      else case m_faults w of
             b # bs \<Rightarrow> if faulty \<and> b then (Inl (OtherError ''connection lost''), w\<lparr>m_faults := bs\<rparr>)
                       else (Inr (j\<lparr>created_at := m_clock w\<rparr>), w\<lparr>m_faults := bs\<rparr>)
           | [] \<Rightarrow> (Inr (j\<lparr>created_at := m_clock w\<rparr>), w))"

fun mem_write :: "datetime \<Rightarrow> db_write list \<Rightarrow> mem \<Rightarrow> mem option" where
  "mem_write t [] w = Some w"
| "mem_write t (InsertJob j # ws) w =
     (if mem_conflicts j w then None
      else mem_write t ws (w\<lparr>m_rows := AList.update (job_id j) j (m_rows w)\<rparr>))"
| "mem_write t (UpdateJob i f # ws) w =
     (case map_of (m_rows w) i of
        None \<Rightarrow> None
      | Some j \<Rightarrow> mem_write t ws (w\<lparr>m_rows := AList.update i (f j) (m_rows w)\<rparr>))"
| "mem_write t (AddLog i lv msg # ws) w =
     (case map_of (m_rows w) i of
        None \<Rightarrow> None
      | Some _ \<Rightarrow>
          mem_write t ws (w\<lparr>m_uuid := m_uuid w + 1,
            m_logs := m_logs w @ [\<lparr>log_id = of_nat (m_uuid w), log_job_id = i, level = lv,
                                    log_message = msg, log_created_at = t\<rparr>]\<rparr>))"

definition mem_commit :: "bool \<Rightarrow> db_write list \<Rightarrow> (mem, unit) io" where
  "mem_commit faulty ws w =
     (case mem_write (m_clock w) ws w of
        None \<Rightarrow> (Inl (IntegrityError ''constraint violated''), w)
      | Some w' \<Rightarrow>
          (case m_faults w of
             b # bs \<Rightarrow> if faulty \<and> b then (Inl (OtherError ''connection lost''), w\<lparr>m_faults := bs\<rparr>)
                       else (Inr (), w'\<lparr>m_faults := bs\<rparr>)
           | [] \<Rightarrow> (Inr (), w')))"

subsection \<open>The clock, the generator, the environment\<close>

definition mem_random :: "mem \<Rightarrow> rat \<times> mem" where
  "mem_random w =
     (case m_random w of
        [] \<Rightarrow> (0, w)
      | r # rs \<Rightarrow> (max 0 (min (1 - 1 / 2 ^ 53) r), w\<lparr>m_random := rs\<rparr>))"

definition mem_uuid4 :: "mem \<Rightarrow> uuid \<times> mem" where
  "mem_uuid4 w = (of_nat (m_uuid w), w\<lparr>m_uuid := m_uuid w + 1\<rparr>)"

definition mem_deadline :: "int \<Rightarrow> mem \<Rightarrow> bool \<times> mem" where
  "mem_deadline secs w = (case m_late w of [] \<Rightarrow> (False, w) | b # bs \<Rightarrow> (b, w\<lparr>m_late := bs\<rparr>))"

definition mem_time :: "mem \<Rightarrow> rat \<times> mem" where
  "mem_time w = (of_int (max 0 (min (10 ^ 13) (m_clock w div 10 ^ 6))), w\<lparr>m_clock := m_clock w + 1\<rparr>)"

definition mem_app :: "bool \<Rightarrow> mem app" where
  "mem_app faulty =
     \<lparr>registry = setup_telemetry ''job-queue'' None telemetry_module,
      hostname = ''worker-1'',
      metric_add = (\<lambda>m w. w\<lparr>m_meters := m_meters w @ [m]\<rparr>),
      clock_now = mem_tick, clock_time = mem_time, clock_perf = mem_time,
      rnd_random = mem_random, rnd_uniform = (\<lambda>a b w. (a, w)), rnd_int = (\<lambda>a b w. (a, w)),
      rnd_uuid4 = mem_uuid4, trace_parent = (\<lambda>w. (None, w)), deadline_hit = mem_deadline,
      nap = (\<lambda>d w. w), dict_text = (\<lambda>_. ''{...}''),
      zadd = (\<lambda>k m sc. mem_cmd faulty (mem_zadd k m sc)),
      zpopmin = (\<lambda>k. mem_cmd faulty (mem_zpopmin k)),
      zrangebyscore = (\<lambda>k hi start num. mem_cmd faulty (mem_zrangebyscore k hi start num)),
      zrem = (\<lambda>k m. mem_cmd faulty (mem_zrem k m)),
      zcard = (\<lambda>k. mem_cmd faulty (mem_zcard k)),
      lpush = (\<lambda>k x. mem_cmd faulty (\<lambda>w. ((), mem_set_list k (x # m_lists w k) w))),
      brpop = (\<lambda>k timeout. mem_cmd faulty (mem_brpop k)),
      lrem_all = (\<lambda>k x. mem_cmd faulty
        (\<lambda>w. (count_list (m_lists w k) x, mem_set_list k (removeAll x (m_lists w k)) w))),
      llen = (\<lambda>k. mem_cmd faulty (\<lambda>w. (length (m_lists w k), w))),
      db_get = (\<lambda>i. mem_cmd faulty (\<lambda>w. (map_of (m_rows w) i, w))),
      db_where = (\<lambda>P. mem_cmd faulty (\<lambda>w. (mem_matching P w, w))),
      db_page = (\<lambda>P off n. mem_cmd faulty (mem_page P off n)),
      db_count = (\<lambda>P. mem_cmd faulty (\<lambda>w. (length (mem_matching P w), w))),
      db_job_logs = (\<lambda>i. mem_cmd faulty (mem_job_logs i)),
      db_status_counts = mem_cmd faulty mem_status_counts,
      db_avg_seconds = mem_cmd faulty mem_avg_seconds,
      db_flush_new = mem_flush_new faulty, db_commit = mem_commit faulty,
      db_rollback = mem_cmd faulty (\<lambda>w. ((), w))\<rparr>"

subsection \<open>The implementation satisfies the laws\<close>

lemma mem_zadd_law: "call mem_view (mem_cmd b (mem_zadd k m sc)) (\<lambda>s _ s'. s' = zset_put k m sc s)"
  by (rule call_mem_cmd) (auto simp: mem_zadd_def zset_put_def mem_view_def update_conv')

lemma mem_view_zdel: "mem_view (mem_zdel k m w) = zset_del k m (mem_view w)"
  by (auto simp: mem_zdel_def zset_del_def mem_view_def delete_conv')

lemma mem_zpopmin_law: "call mem_view (mem_cmd b (mem_zpopmin k)) (zpopped k)"
proof (rule call_mem_cmd)
  fix w :: mem
  show "zpopped k (mem_view w) (fst (mem_zpopmin k w)) (mem_view (snd (mem_zpopmin k w)))"
  proof (cases "zsorted (m_zsets w k)")
    case Nil
    then show ?thesis by (simp add: mem_zpopmin_def zpopped_def zsorted_Nil)
  next
    case (Cons p ps)
    obtain m s where p: "p = (m, s)" by (cases p)
    have ms: "map_of (m_zsets w k) m = Some s" using Cons p by (simp flip: zsorted_mem)
    have "zbefore (map_of (m_zsets w k)) m n" if "n \<in> dom (map_of (m_zsets w k))" "n \<noteq> m" for n
      using zsorted_sorted [of "m_zsets w k"] that Cons p
      by (auto simp flip: zsorted_mem dest: bspec)
    then have "zfirst (map_of (m_zsets w k)) m" using ms by (auto simp: zfirst_def)
    with Cons p ms show ?thesis
      by (auto simp: mem_zpopmin_def zpopped_def mem_view_zdel)
  qed
qed

lemma mem_zrangebyscore_law:
  "call mem_view (mem_cmd b (mem_zrangebyscore k hi start num)) (zranged k hi start num)"
proof (rule call_mem_cmd)
  fix w :: mem
  let ?ms = "map fst (filter (\<lambda>p. snd p \<le> hi) (zsorted (m_zsets w k)))"
  have "sorted_wrt (zbefore (map_of (m_zsets w k))) ?ms"
    by (simp add: sorted_wrt_map sorted_wrt_filter zsorted_sorted)
  moreover have "set ?ms = {m. \<exists>sc. map_of (m_zsets w k) m = Some sc \<and> sc \<le> hi}"
    by (force simp flip: zsorted_mem)
  ultimately show "zranged k hi start num (mem_view w) (fst (mem_zrangebyscore k hi start num w))
      (mem_view (snd (mem_zrangebyscore k hi start num w)))"
    by (auto simp: mem_zrangebyscore_def zranged_def)
qed

lemma mem_zrem_law: "call mem_view (mem_cmd b (mem_zrem k m)) (zremoved k m)"
  by (rule call_mem_cmd) (auto simp: mem_zrem_def zremoved_def mem_view_zdel domIff)

lemma mem_zcard_law:
  "call mem_view (mem_cmd b (mem_zcard k)) (\<lambda>s r s'. s' = s \<and> r = card (dom (zsets s k)))"
proof (rule call_mem_cmd)
  fix w :: mem
  have "card (dom (map_of (m_zsets w k))) = length (AList.clearjunk (m_zsets w k))"
    using distinct_card [OF distinct_clearjunk [of "m_zsets w k"]]
    by (simp add: dom_map_of_conv_image_fst dom_clearjunk)
  then show "mem_view (snd (mem_zcard k w)) = mem_view w \<and>
      fst (mem_zcard k w) = card (dom (zsets (mem_view w) k))"
    by (simp add: mem_zcard_def)
qed

lemma mem_view_set_list: "mem_view (mem_set_list k xs w) = list_put k xs (mem_view w)"
  by (simp add: mem_set_list_def list_put_def mem_view_def)

lemma mem_brpop_law: "call mem_view (mem_cmd b (mem_brpop k)) (brpopped k)"
  by (rule call_mem_cmd) (simp add: mem_brpop_def brpopped_def mem_view_set_list)

lemma set_mem_matching: "set (mem_matching P w) = matching P (mem_view w)"
proof -
  have "snd ` set (AList.clearjunk (m_rows w)) = ran (map_of (m_rows w))"
    by (metis distinct_clearjunk map_of_clearjunk ran_distinct)
  then show ?thesis by (auto simp: mem_matching_def matching_def)
qed

lemma distinct_mem_matching [simp]: "distinct (mem_matching P w)"
  by (simp add: mem_matching_def)

lemma length_mem_matching: "length (mem_matching P w) = card (matching P (mem_view w))"
  by (metis distinct_card distinct_mem_matching set_mem_matching)

lemma mem_page_law: "call mem_view (mem_cmd b (mem_page P off n)) (paged P off n)"
proof (rule call_mem_cmd)
  fix w :: mem
  let ?js = "sort_key (\<lambda>j. - created_at j) (mem_matching P w)"
  have "sorted (map (\<lambda>j. - created_at j) ?js)" by simp
  then have "newest_first ?js" by (simp add: newest_first_def sorted_map)
  then show "paged P off n (mem_view w) (fst (mem_page P off n w)) (mem_view (snd (mem_page P off n w)))"
    by (auto simp: mem_page_def paged_def set_mem_matching intro!: exI [of _ ?js])
qed

lemma mem_job_logs_law: "call mem_view (mem_cmd b (mem_job_logs i)) (job_logs_of i)"
proof (rule call_mem_cmd)
  fix w :: mem
  let ?ls = "sort_key log_created_at (filter (\<lambda>l. log_job_id l = i) (m_logs w))"
  have "sorted (map log_created_at ?ls)" by simp
  then have "sorted_wrt (\<lambda>a b. log_created_at a \<le> log_created_at b) ?ls" by (simp add: sorted_map)
  then show "job_logs_of i (mem_view w) (fst (mem_job_logs i w)) (mem_view (snd (mem_job_logs i w)))"
    by (simp add: mem_job_logs_def job_logs_of_def)
qed

lemma mem_status_counts_law: "call mem_view (mem_cmd b mem_status_counts) status_counted"
proof (rule call_mem_cmd)
  fix w :: mem
  let ?sts = "remdups (map status (mem_matching (\<lambda>_. True) w))"
  have pos: "st \<in> set ?sts \<longleftrightarrow> 0 < card (matching (\<lambda>j. status j = st) (mem_view w))" for st
  proof -
    have "finite (matching (\<lambda>j. status j = st) (mem_view w))" by (simp flip: set_mem_matching)
    then show ?thesis by (auto simp: card_gt_0_iff set_mem_matching matching_def)
  qed
  show "status_counted (mem_view w) (fst (mem_status_counts w)) (mem_view (snd (mem_status_counts w)))"
    unfolding status_counted_def mem_status_counts_def fst_conv snd_conv length_mem_matching
    using pos by (auto simp: comp_def)
qed

lemma mem_avg_law: "call mem_view (mem_cmd b mem_avg_seconds) averaged"
proof (rule call_mem_cmd)
  fix w :: mem
  let ?js = "mem_matching finished w"
  have "sum_list (map f ?js) = sum f (matching finished (mem_view w))" for f :: "job \<Rightarrow> rat"
    by (simp add: sum_list_distinct_conv_sum_set set_mem_matching)
  then show "averaged (mem_view w) (fst (mem_avg_seconds w)) (mem_view (snd (mem_avg_seconds w)))"
    by (simp add: averaged_def mem_avg_seconds_def Let_def length_mem_matching flip: set_mem_matching)
qed

lemma mem_conflicts_iff: "mem_conflicts j w \<longleftrightarrow> insert_conflicts j (map_of (m_rows w))"
proof -
  have "snd ` set (AList.clearjunk (m_rows w)) = ran (map_of (m_rows w))"
    by (metis distinct_clearjunk map_of_clearjunk ran_distinct)
  then show ?thesis
    by (auto simp: mem_conflicts_def insert_conflicts_def list_ex_iff domIff image_iff)
qed

lemma map_of_put: "map_of (AList.update i j t) = (map_of t)(i \<mapsto> j)"
  by (rule update_conv')

lemma mem_write_Some:
  "mem_write t ws w = Some w' \<Longrightarrow>
   writable ws (map_of (m_rows w)) \<and>
   (\<exists>ls. map log_entry ls = log_writes ws \<and> (\<forall>l \<in> set ls. log_created_at l = t) \<and>
      mem_view w' = (mem_view w)\<lparr>rows := row_writes ws (map_of (m_rows w)), logs := m_logs w @ ls\<rparr>)"
proof (induction t ws w rule: mem_write.induct)
  case (1 t w)
  then show ?case by (simp add: mem_view_def)
next
  case (2 t j ws w)
  then show ?case
    by (auto simp: mem_conflicts_iff map_of_put fun_upd_def mem_view_def split: if_splits)
next
  case (3 t i f ws w)
  then obtain j where j: "map_of (m_rows w) i = Some j" by (auto split: option.splits)
  show ?case using 3 j by (auto simp: map_of_put fun_upd_def mem_view_def)
next
  case (4 t i lv msg ws w)
  then obtain j where j: "map_of (m_rows w) i = Some j" by (auto split: option.splits)
  let ?l = "\<lparr>log_id = of_nat (m_uuid w), log_job_id = i, level = lv, log_message = msg, log_created_at = t\<rparr>"
  from 4 j obtain ls where "writable ws (map_of (m_rows w))" and "map log_entry ls = log_writes ws"
    and "\<forall>l \<in> set ls. log_created_at l = t"
    and "mem_view w' = (mem_view w)\<lparr>rows := row_writes ws (map_of (m_rows w)), logs := m_logs w @ ?l # ls\<rparr>"
    by (auto simp: mem_view_def)
  moreover have "log_entry ?l = (i, lv, msg)" by (simp add: log_entry_def)
  ultimately show ?case using j by (auto intro!: exI [of _ "?l # ls"])
qed

lemma mem_write_None: "mem_write t ws w = None \<Longrightarrow> \<not> writable ws (map_of (m_rows w))"
proof (induction t ws w rule: mem_write.induct)
  case (3 t i f ws w)
  then show ?case
    by (cases "map_of (m_rows w) i") (auto simp: map_of_put fun_upd_def domIff)
next
  case (4 t i lv msg ws w)
  then show ?case by (cases "map_of (m_rows w) i") (auto simp: domIff)
qed (auto simp: mem_conflicts_iff map_of_put fun_upd_def split: if_splits)

lemma mem_commit_law: "commits mem_view (mem_commit b ws) ws"
proof -
  have "case mem_commit b ws w of
            (Inr _, w') \<Rightarrow> committed ws (mem_view w) (mem_view w')
          | (Inl e, w') \<Rightarrow>
              mem_view w' = mem_view w \<and> (is_integrity e \<longrightarrow> \<not> writable ws (rows (mem_view w))) \<or>
              \<not> is_integrity e \<and> committed ws (mem_view w) (mem_view w')" for w
  proof (cases "mem_write (m_clock w) ws w")
    case None
    with mem_write_None [OF None] show ?thesis by (simp add: mem_commit_def)
  next
    case (Some w')
    from mem_write_Some [OF Some] have "committed ws (mem_view w) (mem_view w')"
      by (auto simp: committed_def)
    with Some show ?thesis by (auto simp: mem_commit_def split: list.split)
  qed
  then show ?thesis by (simp add: commits_def)
qed

lemma mem_flush_law: "flushes mem_view (mem_flush_new b j) j"
proof -
  have "case mem_flush_new b j w of
            (Inr r, w') \<Rightarrow> mem_view w' = mem_view w \<and> \<not> insert_conflicts j (rows (mem_view w)) \<and>
                            (\<exists>t. r = j\<lparr>created_at := t\<rparr>)
          | (Inl e, w') \<Rightarrow> mem_view w' = mem_view w \<and>
                            (is_integrity e \<longrightarrow> insert_conflicts j (rows (mem_view w)))" for w
    by (auto simp: mem_flush_new_def mem_conflicts_iff split: list.split)
  then show ?thesis by (simp add: flushes_def)
qed

lemma mem_services: "services (mem_app b) mem_view"
proof unfold_locales
  fix k :: string and num start :: nat and hi :: rat
  show "call mem_view (zpopmin (mem_app b) k) (zpopped k)"
    by (simp add: mem_app_def mem_zpopmin_law)
  show "call mem_view (zrangebyscore (mem_app b) k hi start num) (zranged k hi start num)"
    by (simp add: mem_app_def mem_zrangebyscore_law)
qed (simp_all add: mem_app_def mem_zadd_law mem_zrem_law mem_zcard_law mem_brpop_law
      mem_page_law mem_job_logs_law mem_status_counts_law mem_avg_law mem_commit_law mem_flush_law,
     auto intro!: call_mem_cmd
       simp: reading_def mem_tick_def mem_time_def mem_random_def mem_uuid4_def mem_deadline_def
         mem_view_def mem_view_set_list [unfolded mem_view_def] set_mem_matching length_mem_matching
       split: list.split)

interpretation mem: services "mem_app True" mem_view
  by (rule mem_services)

lemma mem_flush_fails: "mem_flush_new False j w = (Inl e, w') \<Longrightarrow> is_integrity e"
  by (auto simp: mem_flush_new_def split: if_splits list.splits)

lemma mem_insert_fails: "mem_commit False [InsertJob j] w = (Inl e, w') \<Longrightarrow> is_integrity e"
  by (auto simp: mem_commit_def split: option.splits list.splits if_splits)

lemma mem_commit_total: "writable ws (map_of (m_rows w)) \<Longrightarrow> \<exists>w'. mem_commit False ws w = (Inr (), w')"
  using mem_write_None [of "m_clock w" ws w]
  by (auto simp: mem_commit_def split: option.split list.split)

lemma mem_reliable_services: "reliable_services (mem_app False) mem_view"
  by (intro reliable_services.intro mem_services reliable_services_axioms.intro)
     (auto simp: mem_app_def total_mem_cmd mem_flush_fails mem_insert_fails intro: mem_commit_total)

interpretation mem_ok: reliable_services "mem_app False" mem_view
  by (rule mem_reliable_services)

end
