(* ===== verification/Job_Queue.thy ===== *)
theory Job_Queue
  imports Queue_Keys Mem_Services
begin

section \<open>app/queue/enqueue.py and dequeue.py: the three queues\<close>

text \<open>
  The priority and retry queues are sorted sets, the FIFO queue is a list. Every operation
  sends its Redis commands in the order of the code, records their duration
  (\<open>timed_io\<close>) and then updates its counter. The contracts are stated on \<open>data\<close>, the store without
  its metrics: \<open>wp_enqueue_priority\<close> and its kin for services that may fail,
  the \<open>_total\<close> versions for services that do not. The locale \<open>priority_queue\<close> is what a
  consumer needs of a dequeue; its client lemma gives the order of any run of dequeues,
  and every reliable service with \<open>dequeue_priority\<close> is an instance.
\<close>

definition data :: "store \<Rightarrow> store" where
  "data s = s\<lparr>meters := []\<rparr>"

lemma data_sel [simp]:
  "zsets (data s) = zsets s" "lists (data s) = lists s" "rows (data s) = rows s" "logs (data s) = logs s"
  "meters (data s) = []" "data (s\<lparr>meters := ms\<rparr>) = data s" "data (data s) = data s"
  by (simp_all add: data_def)

lemma data_eqD:
  assumes "data s = data s'"
  shows "zsets s = zsets s'" and "lists s = lists s'" and "rows s = rows s'" and "logs s = logs s'"
  using data_sel(1-4) [of s] data_sel(1-4) [of s'] assms by metis+

lemma data_isD:
  assumes "data s = t"
  shows "zsets s = zsets t" and "lists s = lists t" and "rows s = rows t" and "logs s = logs t"
  using assms by auto

lemma data_put [simp]:
  "data (zset_put k m sc s) = zset_put k m sc (data s)" "data (zset_del k m s) = zset_del k m (data s)"
  "data (list_put k xs s) = list_put k xs (data s)"
  by (simp_all add: data_def zset_put_def zset_del_def list_put_def)

lemma store_put_sel [simp]:
  "zsets (zset_put k m sc s) = (zsets s)(k := (zsets s k)(m \<mapsto> sc))"
  "zsets (zset_del k m s) = (zsets s)(k := (zsets s k)(m := None))"
  "zsets (list_put k xs s) = zsets s"
  "lists (zset_put k m sc s) = lists s" "lists (zset_del k m s) = lists s"
  "lists (list_put k xs s) = (lists s)(k := xs)"
  "rows (zset_put k m sc s) = rows s" "rows (zset_del k m s) = rows s" "rows (list_put k xs s) = rows s"
  "logs (zset_put k m sc s) = logs s" "logs (zset_del k m s) = logs s" "logs (list_put k xs s) = logs s"
  by (simp_all add: zset_put_def zset_del_def list_put_def)

subsection \<open>Operations\<close>

text \<open>
  The frame around a command: \<open>t = time.perf_counter()\<close>, the command, then
  \<open>if h := histogram("redis_command_duration"): h.record(time.perf_counter() - t, ..)\<close>.
\<close>

definition record_elapsed :: "'w app \<Rightarrow> string \<Rightarrow> rat \<Rightarrow> ('w, unit) io" where
  "record_elapsed A command t =
     (case histogram (registry A) ''redis_command_duration'' of
        None \<Rightarrow> return_io ()
      | Some h \<Rightarrow>
          bind_io (read_io (clock_perf A)) (\<lambda>t'.
          do_io (metric_add A (HistogramRecord h (fl (t' - t)) [(''command'', command)]))))"

definition timed_io :: "'w app \<Rightarrow> string \<Rightarrow> ('w, 'a) io \<Rightarrow> ('w, 'a) io" where
  "timed_io A command m =
     bind_io (read_io (clock_perf A)) (\<lambda>t.
     bind_io m (\<lambda>result.
     seq_io (record_elapsed A command t)
     (return_io result)))"

definition priority_score :: "'w app \<Rightarrow> string \<Rightarrow> ('w, rat) io" where
  "priority_score A p = bind_io (read_io (clock_time A)) (\<lambda>t. return_io (score_at p t))"

definition enqueue_priority :: "'w app \<Rightarrow> string \<Rightarrow> string \<Rightarrow> string \<Rightarrow> ('w, unit) io" where
  "enqueue_priority A jid prio typ =
     bind_io (priority_score A prio) (\<lambda>score.
     seq_io (timed_io A ''zadd'' (zadd A PRIORITY_KEY jid score))
     (count_io A ''enqueue'' 1 [(''queue_name'', ''priority''), (''job_type'', typ), (''priority'', prio)]))"

definition enqueue_fifo :: "'w app \<Rightarrow> string \<Rightarrow> string \<Rightarrow> ('w, unit) io" where
  "enqueue_fifo A jid typ =
     seq_io (timed_io A ''lpush'' (lpush A FIFO_KEY jid))
     (count_io A ''enqueue'' 1 [(''queue_name'', ''fifo''), (''job_type'', typ), (''priority'', '''')])"

definition enqueue_retry :: "'w app \<Rightarrow> string \<Rightarrow> rat \<Rightarrow> ('w, unit) io" where
  "enqueue_retry A jid run_at_epoch = timed_io A ''zadd'' (zadd A RETRY_KEY jid run_at_epoch)"

definition remove_from_queues :: "'w app \<Rightarrow> string \<Rightarrow> ('w, unit) io" where
  "remove_from_queues A jid =
     seq_io (lrem_all A FIFO_KEY jid)
     (seq_io (zrem A PRIORITY_KEY jid)
     (seq_io (zrem A RETRY_KEY jid)
     (return_io ())))"

definition dequeue_priority :: "'w app \<Rightarrow> ('w, string option) io" where
  "dequeue_priority A =
     bind_io (timed_io A ''zpopmin'' (zpopmin A PRIORITY_KEY)) (\<lambda>result.
     case result of [] \<Rightarrow> return_io None | r # _ \<Rightarrow> return_io (Some (fst r)))"

definition dequeue_fifo :: "'w app \<Rightarrow> nat \<Rightarrow> ('w, string option) io" where
  "dequeue_fifo A timeout =
     bind_io (timed_io A ''brpop'' (brpop A FIFO_KEY timeout)) (\<lambda>result.
     case result of None \<Rightarrow> return_io None | Some r \<Rightarrow> return_io (Some (snd r)))"

text \<open>
  The due members are read first, then claimed one by one: a member that another worker
  has removed in between is skipped.
\<close>

definition drain_retry_queue :: "'w app \<Rightarrow> nat \<Rightarrow> ('w, string list) io" where
  "drain_retry_queue A limit =
     bind_io (epoch_now A) (\<lambda>now.
     bind_io (timed_io A ''zrangebyscore'' (zrangebyscore A RETRY_KEY now 0 limit)) (\<lambda>due.
     bind_io (filter_each (\<lambda>jid. bind_io (zrem A RETRY_KEY jid) (\<lambda>removed. return_io (removed \<noteq> 0))) due) (\<lambda>claimed.
     seq_io (if claimed \<noteq> [] then count_io A ''retry_drain'' (length claimed) [] else return_io ())
     (return_io claimed))))"

subsection \<open>Contracts of the operations\<close>

context services
begin

lemma wp_priority_score [wp_rules]:
  assumes "\<And>t w'. 0 \<le> t \<Longrightarrow> t \<le> 10 ^ 13 \<Longrightarrow> view w' = view w \<Longrightarrow> Q (score_at p t) w'"
  shows "wp (priority_score A p) Q X w"
  using assms by (auto intro!: wp_time simp: priority_score_def wp_simps)

lemma wp_elapsed [wp_rules]:
  assumes "\<And>w'. data (view w') = data (view w) \<Longrightarrow> Q () w'"
  shows "wp (record_elapsed A command t) Q X w"
  using assms by (auto simp: record_elapsed_def wp_simps metric_law split: option.split intro!: wp_perf)

lemma wp_timed:
  assumes "call view m R"
    and "\<And>a s w'. R (view w) a s \<Longrightarrow> data (view w') = data s \<Longrightarrow> Q a w'"
    and "\<And>e w'. \<not> is_integrity e \<Longrightarrow> view w' = view w \<Longrightarrow> X e w'"
    and "\<And>e a w'. \<not> is_integrity e \<Longrightarrow> R (view w) a (view w') \<Longrightarrow> X e w'"
  shows "wp (timed_io A command m) Q X w"
  unfolding timed_io_def wp_bind wp_return
  by (rule wp_perf, rule wp_call [OF assms(1)]) (auto intro!: wp_elapsed intro: assms(2-4))

lemma wp_enqueue_priority:
  assumes "\<And>t w'. 0 \<le> t \<Longrightarrow> t \<le> 10 ^ 13 \<Longrightarrow>
      data (view w') = zset_put PRIORITY_KEY jid (score_at p t) (data (view w)) \<Longrightarrow> Q () w'"
    and "\<And>e w'. \<not> is_integrity e \<Longrightarrow> data (view w') = data (view w) \<Longrightarrow> X e w'"
    and "\<And>e t w'. \<not> is_integrity e \<Longrightarrow> 0 \<le> t \<Longrightarrow> t \<le> 10 ^ 13 \<Longrightarrow>
      data (view w') = zset_put PRIORITY_KEY jid (score_at p t) (data (view w)) \<Longrightarrow> X e w'"
  shows "wp (enqueue_priority A jid p typ) Q X w"
  unfolding enqueue_priority_def wp_bind
  by (rule wp_priority_score, rule wp_timed [OF zadd_law], rule wp_count)
     (auto intro: assms)

lemma wp_enqueue_retry:
  assumes "\<And>w'. data (view w') = zset_put RETRY_KEY jid run_at (data (view w)) \<Longrightarrow> Q () w'"
    and "\<And>e w'. \<not> is_integrity e \<Longrightarrow> data (view w') = data (view w) \<Longrightarrow> X e w'"
    and "\<And>e w'. \<not> is_integrity e \<Longrightarrow> data (view w') = zset_put RETRY_KEY jid run_at (data (view w)) \<Longrightarrow> X e w'"
  shows "wp (enqueue_retry A jid run_at) Q X w"
  unfolding enqueue_retry_def by (rule wp_timed [OF zadd_law]) (auto intro: assms)

end

subsection \<open>No queue operation touches the database\<close>

named_theorems keeps_rules \<open>coroutines that leave the tables alone\<close>

definition keeps_db :: "('w \<Rightarrow> store) \<Rightarrow> ('w, 'a) io \<Rightarrow> bool" where
  "keeps_db view m \<longleftrightarrow>
     (\<forall>w. wp m (\<lambda>_ w'. rows (view w') = rows (view w) \<and> logs (view w') = logs (view w))
            (\<lambda>e w'. rows (view w') = rows (view w) \<and> logs (view w') = logs (view w)) w)"

lemma wp_keeps_db:
  assumes "keeps_db view m"
    and "\<And>a w'. rows (view w') = rows (view w) \<Longrightarrow> logs (view w') = logs (view w) \<Longrightarrow> Q a w'"
    and "\<And>e w'. rows (view w') = rows (view w) \<Longrightarrow> logs (view w') = logs (view w) \<Longrightarrow> X e w'"
  shows "wp m Q X w"
proof -
  from assms(1) have "wp m (\<lambda>_ w'. rows (view w') = rows (view w) \<and> logs (view w') = logs (view w))
      (\<lambda>_ w'. rows (view w') = rows (view w) \<and> logs (view w') = logs (view w)) w"
    by (simp add: keeps_db_def)
  then show ?thesis by (rule wp_mono) (auto intro: assms(2,3))
qed

lemma keeps_db_return [keeps_rules]: "keeps_db view (return_io a)"
  by (simp add: keeps_db_def wp_simps)

lemma keeps_db_raise [keeps_rules]: "keeps_db view (raise_io e)"
  by (simp add: keeps_db_def wp_simps)

lemma keeps_db_bind [keeps_rules]:
  assumes "keeps_db view m" and "\<And>a. keeps_db view (f a)" shows "keeps_db view (bind_io m f)"
  unfolding keeps_db_def wp_bind
  by (intro allI, rule wp_keeps_db [OF assms(1)], rule wp_keeps_db [OF assms(2)]) simp_all

lemma keeps_db_if [keeps_rules]:
  "keeps_db view m \<Longrightarrow> keeps_db view n \<Longrightarrow> keeps_db view (if b then m else n)"
  by simp

lemma keeps_db_case_option [keeps_rules]:
  "keeps_db view m \<Longrightarrow> (\<And>a. keeps_db view (f a)) \<Longrightarrow> keeps_db view (case x of None \<Rightarrow> m | Some a \<Rightarrow> f a)"
  by (simp split: option.split)

lemma keeps_db_case_list [keeps_rules]:
  "keeps_db view m \<Longrightarrow> (\<And>a as. keeps_db view (f a as)) \<Longrightarrow>
   keeps_db view (case x of [] \<Rightarrow> m | a # as \<Rightarrow> f a as)"
  by (simp split: list.split)

lemma keeps_db_filter_each [keeps_rules]:
  "(\<And>x. keeps_db view (f x)) \<Longrightarrow> keeps_db view (filter_each f xs)"
  by (induction xs) (auto intro!: keeps_rules)

lemma keeps_db_call:
  assumes "call view m R" and "\<And>s a s'. R s a s' \<Longrightarrow> rows s' = rows s \<and> logs s' = logs s"
  shows "keeps_db view m"
  unfolding keeps_db_def by (intro allI, rule wp_call [OF assms(1)]) (auto dest: assms(2))

context services
begin

lemma keeps_db_commands [keeps_rules]:
  "keeps_db view (zadd A k m sc)" "keeps_db view (zpopmin A k)" "keeps_db view (zrangebyscore A k hi st n)"
  "keeps_db view (zrem A k m)" "keeps_db view (lrem_all A k m)" "keeps_db view (lpush A k m)"
  "keeps_db view (brpop A k tm)" "keeps_db view (zcard A k)" "keeps_db view (llen A k)"
  "keeps_db view (db_get A i)" "keeps_db view (db_where A P)" "keeps_db view (db_rollback A)"
  by (rule keeps_db_call,
      rule zadd_law zpopmin_law zrangebyscore_law zrem_law lrem_law lpush_law brpop_law zcard_law
        llen_law get_law where_law rollback_law,
      auto simp: zpopped_def zranged_def zremoved_def brpopped_def split: if_splits)+

lemma keeps_db_metrics [keeps_rules]:
  "keeps_db view (count_io A name n ats)" "keeps_db view (updown_io A name i ats)"
  "keeps_db view (do_io (nap A d))" "keeps_db view (record_io A name v ats)"
  unfolding keeps_db_def by (auto intro!: wp_count wp_updown wp_nap wp_record)

lemma keeps_db_readings [keeps_rules]:
  "keeps_db view (epoch_now A)" "keeps_db view (now_utc A)"
  "keeps_db view (read_io (rnd_random A))" "keeps_db view (read_io (rnd_uuid4 A))"
  "keeps_db view (read_io (trace_parent A))" "keeps_db view (read_io (deadline_hit A secs))"
  "keeps_db view (read_io (clock_perf A))"
  unfolding keeps_db_def by (auto intro!: wp_readings)

lemma keeps_db_timed [keeps_rules]: "keeps_db view m \<Longrightarrow> keeps_db view (timed_io A command m)"
proof -
  have "keeps_db view (record_elapsed A command t)" for t
    unfolding keeps_db_def by (auto intro!: wp_elapsed dest: data_eqD)
  then show "keeps_db view m \<Longrightarrow> keeps_db view (timed_io A command m)"
    unfolding timed_io_def by (intro keeps_rules)
qed

lemma keeps_db_queue [keeps_rules]:
  "keeps_db view (enqueue_priority A jid p typ)" "keeps_db view (enqueue_fifo A jid typ)"
  "keeps_db view (enqueue_retry A jid run_at)" "keeps_db view (remove_from_queues A jid)"
  "keeps_db view (dequeue_priority A)" "keeps_db view (dequeue_fifo A timeout)"
  "keeps_db view (drain_retry_queue A limit)"
  unfolding enqueue_priority_def enqueue_fifo_def enqueue_retry_def remove_from_queues_def
    dequeue_priority_def dequeue_fifo_def drain_retry_queue_def priority_score_def
  by (intro keeps_rules)+

end

subsection \<open>Contracts when the services do not fail\<close>

definition drained :: "(string \<Rightarrow> rat option) \<Rightarrow> nat \<Rightarrow> rat \<Rightarrow> string list \<Rightarrow> bool" where
  "drained z limit now ids \<longleftrightarrow>
     (\<exists>ms. sorted_wrt (zbefore z) ms \<and> set ms = {m. \<exists>sc. z m = Some sc \<and> sc \<le> now} \<and> ids = take limit ms)"

lemma zbefore_irrefl [simp]: "\<not> zbefore z m m"
  by (auto simp: zbefore_def)

lemma zbefore_trans: "zbefore z a b \<Longrightarrow> zbefore z b c \<Longrightarrow> zbefore z a c"
  by (auto simp: zbefore_def)

lemma sorted_zbefore_distinct: "sorted_wrt (zbefore z) ms \<Longrightarrow> distinct ms"
  by (induction ms) auto

definition without_ids :: "string list \<Rightarrow> (string \<Rightarrow> rat option) \<Rightarrow> string \<Rightarrow> rat option" where
  "without_ids ids z = (\<lambda>m. if m \<in> set ids then None else z m)"

definition zset_drop :: "string \<Rightarrow> string list \<Rightarrow> store \<Rightarrow> store" where
  "zset_drop k ids s = s\<lparr>zsets := (zsets s)(k := without_ids ids (zsets s k))\<rparr>"

lemma zset_drop_sel [simp]:
  "zsets (zset_drop k ids s) = (zsets s)(k := without_ids ids (zsets s k))"
  "lists (zset_drop k ids s) = lists s" "rows (zset_drop k ids s) = rows s" "logs (zset_drop k ids s) = logs s"
  by (simp_all add: zset_drop_def)

lemma data_drop: "data (zset_drop k ids s) = zset_drop k ids (data s)"
  by (simp add: data_def zset_drop_def)

lemma zset_drop_Nil [simp]: "zset_drop k [] s = s"
  by (simp add: zset_drop_def without_ids_def)

lemma zset_drop_Cons: "zset_drop k (m # ids) s = zset_drop k ids (zset_del k m s)"
  by (auto simp: zset_drop_def zset_del_def without_ids_def fun_eq_iff)

context reliable_services
begin

lemma wp_timed_total:
  assumes "call view m R" and "total m"
    and "\<And>a s w'. R (view w) a s \<Longrightarrow> data (view w') = data s \<Longrightarrow> Q a w'"
  shows "wp (timed_io A command m) Q X w"
  unfolding timed_io_def wp_bind wp_return
  by (rule wp_perf, rule wp_call_total [OF assms(1,2)]) (auto intro!: wp_elapsed intro: assms(3))

lemma wp_enqueue_priority_total:
  assumes "\<And>t w'. 0 \<le> t \<Longrightarrow> t \<le> 10 ^ 13 \<Longrightarrow>
      data (view w') = zset_put PRIORITY_KEY jid (score_at p t) (data (view w)) \<Longrightarrow> Q () w'"
  shows "wp (enqueue_priority A jid p typ) Q X w"
  unfolding enqueue_priority_def wp_bind
  by (rule wp_priority_score, rule wp_timed_total [OF zadd_law redis_total(1)], rule wp_count)
     (auto intro: assms)

lemma wp_enqueue_fifo_total:
  assumes "\<And>w'. data (view w') = list_put FIFO_KEY (jid # lists (view w) FIFO_KEY) (data (view w)) \<Longrightarrow> Q () w'"
  shows "wp (enqueue_fifo A jid typ) Q X w"
  unfolding enqueue_fifo_def wp_bind
  by (rule wp_timed_total [OF lpush_law redis_total(6)], rule wp_count) (auto intro: assms)

lemma wp_enqueue_retry_total:
  assumes "\<And>w'. data (view w') = zset_put RETRY_KEY jid run_at (data (view w)) \<Longrightarrow> Q () w'"
  shows "wp (enqueue_retry A jid run_at) Q X w"
  unfolding enqueue_retry_def
  by (rule wp_timed_total [OF zadd_law redis_total(1)]) (auto intro: assms)

lemma wp_remove_total:
  assumes "\<And>w'. data (view w') = zset_del RETRY_KEY jid (zset_del PRIORITY_KEY jid
      (list_put FIFO_KEY (removeAll jid (lists (view w) FIFO_KEY)) (data (view w)))) \<Longrightarrow> Q () w'"
  shows "wp (remove_from_queues A jid) Q X w"
  unfolding remove_from_queues_def wp_bind wp_return
  by (rule wp_call_total [OF lrem_law redis_total(8)], rule wp_call_total [OF zrem_law redis_total(4)],
      rule wp_call_total [OF zrem_law redis_total(4)]) (auto simp: zremoved_def intro!: assms)

lemma wp_dequeue_priority_total:
  assumes "\<And>w'. zsets (view w) PRIORITY_KEY = Map.empty \<Longrightarrow> data (view w') = data (view w) \<Longrightarrow> Q None w'"
    and "\<And>m w'. zfirst (zsets (view w) PRIORITY_KEY) m \<Longrightarrow>
      data (view w') = zset_del PRIORITY_KEY m (data (view w)) \<Longrightarrow> Q (Some m) w'"
  shows "wp (dequeue_priority A) Q X w"
  unfolding dequeue_priority_def wp_bind
  by (rule wp_timed_total [OF zpopmin_law redis_total(2)])
     (auto simp: zpopped_def wp_simps intro: assms split: if_splits list.split)

lemma wp_dequeue_fifo_total:
  assumes "\<And>w'. lists (view w) FIFO_KEY = [] \<Longrightarrow> data (view w') = data (view w) \<Longrightarrow> Q None w'"
    and "\<And>w'. lists (view w) FIFO_KEY \<noteq> [] \<Longrightarrow>
      data (view w') = list_put FIFO_KEY (butlast (lists (view w) FIFO_KEY)) (data (view w)) \<Longrightarrow>
      Q (Some (last (lists (view w) FIFO_KEY))) w'"
  shows "wp (dequeue_fifo A timeout) Q X w"
  unfolding dequeue_fifo_def wp_bind
  by (rule wp_timed_total [OF brpop_law redis_total(7)])
     (auto simp: brpopped_def wp_simps intro: assms split: if_splits option.split)

lemma wp_claim_total:
  assumes "set ids \<subseteq> dom (zsets (view w) RETRY_KEY)" and "distinct ids"
    and "\<And>w'. view w' = zset_drop RETRY_KEY ids (view w) \<Longrightarrow> Q ids w'"
  shows "wp (filter_each (\<lambda>jid. bind_io (zrem A RETRY_KEY jid) (\<lambda>removed. return_io (removed \<noteq> 0))) ids) Q X w"
  using assms
proof (induction ids arbitrary: w Q)
  case Nil
  then show ?case by (simp add: wp_simps)
next
  case (Cons m ids)
  from Cons.prems(1) have m: "m \<in> dom (zsets (view w) RETRY_KEY)" by simp
  show ?case
    unfolding filter_each.simps wp_bind wp_return
  proof (rule wp_call_total [OF zrem_law redis_total(4)])
    fix r w1
    assume z: "zremoved RETRY_KEY m (view w) r (view w1)"
    then have r: "r \<noteq> 0" and v: "view w1 = zset_del RETRY_KEY m (view w)"
      using m by (auto simp: zremoved_def)
    show "wp (filter_each (\<lambda>jid. bind_io (zrem A RETRY_KEY jid) (\<lambda>removed. return_io (removed \<noteq> 0))) ids)
        (\<lambda>ys. Q (if r \<noteq> 0 then m # ys else ys)) X w1"
      using Cons.prems r
      by (intro Cons.IH) (auto simp: v wp_simps zset_drop_Cons subset_iff split: if_splits)
  qed
qed

lemma wp_drain_at:
  assumes "\<And>now ids w'. now = fst (clock_time A w) \<Longrightarrow> 0 \<le> now \<Longrightarrow> drained (zsets (view w) RETRY_KEY) limit now ids \<Longrightarrow>
      data (view w') = zset_drop RETRY_KEY ids (data (view w)) \<Longrightarrow> Q ids w'"
  shows "wp (drain_retry_queue A limit) Q X w"
  unfolding drain_retry_queue_def wp_bind wp_read_io
proof (rule wp_timed_total [OF zrangebyscore_law redis_total(3)])
  fix due s w2
  let ?now = "fst (clock_time A w)" and ?w1 = "snd (clock_time A w)"
  have now: "0 \<le> ?now" and w1: "view ?w1 = view w" using time_law by (simp_all add: reading_def)
  assume r: "zranged RETRY_KEY ?now 0 limit (view ?w1) due s" and s: "data (view w2) = data s"
  let ?z = "zsets (view w) RETRY_KEY"
  have d: "drained ?z limit ?now due" and w2: "data (view w2) = data (view w)"
    using r s by (auto simp: zranged_def drained_def w1)
  have z2: "zsets (view w2) RETRY_KEY = ?z" using data_eqD(1) [OF w2] by simp
  from d have "distinct due" and "set due \<subseteq> dom ?z"
    by (auto simp: drained_def dest: sorted_zbefore_distinct in_set_takeD)
  then show "wp (filter_each (\<lambda>jid. bind_io (zrem A RETRY_KEY jid) (\<lambda>removed. return_io (removed \<noteq> 0))) due)
     (\<lambda>claimed. wp (if claimed \<noteq> [] then count_io A ''retry_drain'' (length claimed) [] else return_io ())
        (\<lambda>_. wp (return_io claimed) Q X) X) X w2"
  proof (intro wp_claim_total)
    fix w3 assume w3: "view w3 = zset_drop RETRY_KEY due (view w2)"
    have done_w: "Q due w'" if "data (view w') = data (view w3)" for w'
      by (rule assms [OF refl now d]) (use that w3 w2 in \<open>simp add: data_drop\<close>)
    show "wp (if due \<noteq> [] then count_io A ''retry_drain'' (length due) [] else return_io ())
        (\<lambda>_. wp (return_io due) Q X) X w3"
      using done_w [of w3] by (auto simp: wp_simps intro!: wp_count done_w)
  qed (simp_all add: z2)
qed

lemma wp_drain_total:
  assumes "\<And>now ids w'. 0 \<le> now \<Longrightarrow> drained (zsets (view w) RETRY_KEY) limit now ids \<Longrightarrow>
      data (view w') = zset_drop RETRY_KEY ids (data (view w)) \<Longrightarrow> Q ids w'"
  shows "wp (drain_retry_queue A limit) Q X w"
  by (rule wp_drain_at) (rule assms)

end

subsection \<open>The interface of a priority queue\<close>

text \<open>A run of dequeues that stops at an empty queue.\<close>

primrec dequeues :: "('w, string option) io \<Rightarrow> nat \<Rightarrow> ('w, string list) io" where
  "dequeues deq 0 = return_io []"
| "dequeues deq (Suc n) =
     bind_io deq (\<lambda>r. case r of None \<Rightarrow> return_io []
       | Some m \<Rightarrow> bind_io (dequeues deq n) (\<lambda>ms. return_io (m # ms)))"

locale priority_queue =
  fixes deq :: "('w, string option) io" and content :: "'w \<Rightarrow> string \<Rightarrow> rat option"
  assumes deq_law: "wp deq
      (\<lambda>r w'. case r of None \<Rightarrow> content w = Map.empty \<and> content w' = Map.empty
                    | Some m \<Rightarrow> zfirst (content w) m \<and> content w' = (content w)(m := None))
      (\<lambda>_ _. False) w"
begin

text \<open>The members come out in the order of the sorted set, each once; enough dequeues give all.\<close>

lemma dequeues_sorted:
  "wp (dequeues deq n)
     (\<lambda>ms w'. sorted_wrt (zbefore (content w)) ms \<and> set ms \<subseteq> dom (content w) \<and>
              content w' = content w |` (- set ms) \<and> (length ms < n \<longrightarrow> content w' = Map.empty))
     (\<lambda>_ _. False) w"
proof (induction n arbitrary: w)
  case 0
  then show ?case by (simp add: wp_simps restrict_map_def)
next
  case (Suc n)
  show ?case
    unfolding dequeues.simps wp_bind
  proof (rule wp_mono [OF deq_law])
    fix r w1
    assume r: "case r of None \<Rightarrow> content w = Map.empty \<and> content w1 = Map.empty
        | Some m \<Rightarrow> zfirst (content w) m \<and> content w1 = (content w)(m := None)"
    show "wp (case r of None \<Rightarrow> return_io []
        | Some m \<Rightarrow> bind_io (dequeues deq n) (\<lambda>ms. return_io (m # ms)))
      (\<lambda>ms w'. sorted_wrt (zbefore (content w)) ms \<and> set ms \<subseteq> dom (content w) \<and>
              content w' = content w |` (- set ms) \<and> (length ms < Suc n \<longrightarrow> content w' = Map.empty))
      (\<lambda>_ _. False) w1"
    proof (cases r)
      case None
      with r show ?thesis by (auto simp: wp_simps)
    next
      case (Some m)
      with r have f: "zfirst (content w) m" and c: "content w1 = (content w)(m := None)" by auto
      show ?thesis
        unfolding Some option.case wp_bind wp_return
      proof (rule wp_mono [OF Suc.IH])
        fix ms w2
        assume h: "sorted_wrt (zbefore (content w1)) ms \<and> set ms \<subseteq> dom (content w1) \<and>
            content w2 = content w1 |` (- set ms) \<and> (length ms < n \<longrightarrow> content w2 = Map.empty)"
        then have "sorted_wrt (zbefore (content w)) ms"
          by (auto simp: c zbefore_def elim!: sorted_wrt_mono_rel [rotated] split: if_splits)
        moreover have "\<forall>x \<in> set ms. zbefore (content w) m x"
          using f h by (auto simp: zfirst_def c split: if_splits)
        moreover have "content w2 = content w |` (- set (m # ms))"
          using h by (auto simp: c restrict_map_def fun_eq_iff)
        ultimately show "sorted_wrt (zbefore (content w)) (m # ms) \<and> set (m # ms) \<subseteq> dom (content w) \<and>
            content w2 = content w |` (- set (m # ms)) \<and> (length (m # ms) < Suc n \<longrightarrow> content w2 = Map.empty)"
          using f h by (auto simp: zfirst_def c split: if_splits)
      qed simp
    qed
  qed simp
qed

end

sublocale reliable_services \<subseteq> prio: priority_queue "dequeue_priority A" "\<lambda>w. zsets (view w) PRIORITY_KEY"
  by unfold_locales (rule wp_dequeue_priority_total, auto dest: data_isD(1))

subsection \<open>The interface of a FIFO queue\<close>

locale fifo_queue =
  fixes enq :: "string \<Rightarrow> ('w, unit) io" and deq :: "('w, string option) io"
    and content :: "'w \<Rightarrow> string list"
  assumes enq_law: "wp (enq x) (\<lambda>_ w'. content w' = content w @ [x]) (\<lambda>_ _. False) w"
    and deq_law: "wp deq
      (\<lambda>r w'. case content w of [] \<Rightarrow> r = None \<and> content w' = []
                    | x # xs \<Rightarrow> r = Some x \<and> content w' = xs) (\<lambda>_ _. False) w"
begin

lemma enqs_content: "wp (for_each enq xs) (\<lambda>_ w'. content w' = content w @ xs) (\<lambda>_ _. False) w"
proof (induction xs arbitrary: w)
  case Nil
  then show ?case by (simp add: wp_simps)
next
  case (Cons x xs)
  show ?case
    unfolding for_each.simps wp_bind
    by (rule wp_mono [OF enq_law], rule wp_mono [OF Cons.IH]) simp_all
qed

lemma deqs_content:
  "wp (dequeues deq n) (\<lambda>r w'. r = take n (content w) \<and> content w' = drop n (content w)) (\<lambda>_ _. False) w"
proof (induction n arbitrary: w)
  case 0
  then show ?case by (simp add: wp_simps)
next
  case (Suc n)
  show ?case
    unfolding dequeues.simps wp_bind
    by (rule wp_mono [OF deq_law])
       (auto simp: wp_simps split: list.splits intro: wp_mono [OF Suc.IH])
qed

lemma enqs_deqs:
  assumes "content w = []"
  shows "wp (seq_io (for_each enq xs) (dequeues deq (length xs))) (\<lambda>r _. r = xs) (\<lambda>_ _. False) w"
  unfolding wp_bind
  by (rule wp_mono [OF enqs_content], rule wp_mono [OF deqs_content]) (simp_all add: assms)

end

sublocale reliable_services \<subseteq>
  fifo: fifo_queue "\<lambda>jid. enqueue_fifo A jid tag" "dequeue_fifo A timeout" "\<lambda>w. rev (lists (view w) FIFO_KEY)"
  for tag timeout
proof unfold_locales
  fix x w
  have "lists (view w') = lists (data (view w'))" for w' by simp
  then show "wp (enqueue_fifo A x tag) (\<lambda>_ w'. rev (lists (view w') FIFO_KEY) = rev (lists (view w) FIFO_KEY) @ [x])
      (\<lambda>_ _. False) w"
    by (intro wp_enqueue_fifo_total) (simp del: data_sel(2))
  show "wp (dequeue_fifo A timeout)
      (\<lambda>r w'. case rev (lists (view w) FIFO_KEY) of [] \<Rightarrow> r = None \<and> rev (lists (view w') FIFO_KEY) = []
                    | x # xs \<Rightarrow> r = Some x \<and> rev (lists (view w') FIFO_KEY) = xs) (\<lambda>_ _. False) w"
    by (cases "lists (view w) FIFO_KEY" rule: rev_cases; rule wp_dequeue_fifo_total) (auto dest: data_isD(2))
qed

interpretation mem_prio: priority_queue "dequeue_priority (mem_app False)"
    "\<lambda>w. zsets (mem_view w) PRIORITY_KEY"
  by (rule mem_ok.prio.priority_queue_axioms)

interpretation mem_fifo: fifo_queue "\<lambda>jid. enqueue_fifo (mem_app False) jid ''email_send''"
    "dequeue_fifo (mem_app False) 1" "\<lambda>w. rev (lists (mem_view w) FIFO_KEY)"
  by (rule mem_ok.fifo.fifo_queue_axioms)

subsection \<open>Dispatch order\<close>

definition dispatched_before ::
  "(string \<Rightarrow> job_priority) \<Rightarrow> (string \<Rightarrow> rat) \<Rightarrow> string \<Rightarrow> string \<Rightarrow> bool" where
  "dispatched_before pr at_time a b \<longleftrightarrow> pr a < pr b \<or> pr a = pr b \<and> at_time a < at_time b + 1/4"

context reliable_services
begin

lemma dequeues_dispatch:
  assumes scores: "\<And>m sc. zsets (view w) PRIORITY_KEY m = Some sc \<Longrightarrow>
      sc = score_at (priority_value (pr m)) (at_time m) \<and> 0 \<le> at_time m \<and> at_time m \<le> 10 ^ 13"
  shows "wp (dequeues (dequeue_priority A) n)
      (\<lambda>ms w'. sorted_wrt (dispatched_before pr at_time) ms \<and>
               (length ms < n \<longrightarrow> set ms = dom (zsets (view w) PRIORITY_KEY)))
      (\<lambda>_ _. False) w"
proof (rule wp_mono [OF prio.dequeues_sorted])
  fix ms w'
  let ?z = "zsets (view w) PRIORITY_KEY"
  assume h: "sorted_wrt (zbefore ?z) ms \<and> set ms \<subseteq> dom ?z \<and>
      zsets (view w') PRIORITY_KEY = ?z |` (- set ms) \<and>
      (length ms < n \<longrightarrow> zsets (view w') PRIORITY_KEY = Map.empty)"
  have "dispatched_before pr at_time a b" if "zbefore ?z a b" for a b
  proof -
    from that obtain x y where "?z a = Some x" and "?z b = Some y" and "x \<le> y"
      by (auto simp: zbefore_def)
    with scores [of a x] scores [of b y] show ?thesis
      unfolding dispatched_before_def by (intro score_order) auto
  qed
  then have "sorted_wrt (dispatched_before pr at_time) ms"
    using h by (blast intro: sorted_wrt_mono_rel)
  moreover have "set ms = dom ?z" if "length ms < n"
  proof -
    have "?z |` (- set ms) = Map.empty" using h that by (elim conjE) (rule trans [OF sym], auto)
    then have "dom ?z \<subseteq> set ms" by (auto simp: restrict_map_def fun_eq_iff split: if_splits)
    with h show ?thesis by auto
  qed
  ultimately show "sorted_wrt (dispatched_before pr at_time) ms \<and>
      (length ms < n \<longrightarrow> set ms = dom ?z)" by blast
qed simp

end

context reliable_services
begin

lemmas fifo_enqs_deqs = fifo.enqs_deqs

end

text \<open>
  C16: Dispatch order. Whatever is in the priority queue, as long as each member's score is
  the one computed from a priority and an enqueueing time, a run of dequeues with no
  enqueue in between serves every member of a higher priority before every member of a
  lower one, and within a priority never serves a job before one that was enqueued a
  quarter of a second or more earlier; a run longer than the queue serves all of it.
\<close>
theorem priority_dispatch_order:
  assumes "reliable_services A view"
    and "\<And>m sc. zsets (view w) PRIORITY_KEY m = Some sc \<Longrightarrow>
      sc = score_at (priority_value (pr m)) (at_time m) \<and> 0 \<le> at_time m \<and> at_time m \<le> 10 ^ 13"
  shows "wp (dequeues (dequeue_priority A) n)
      (\<lambda>ms _. sorted_wrt (dispatched_before pr at_time) ms \<and>
               (length ms < n \<longrightarrow> set ms = dom (zsets (view w) PRIORITY_KEY)))
      (\<lambda>_ _. False) w"
  by (rule reliable_services.dequeues_dispatch [OF assms])

definition two_jobs :: mem where
  "two_jobs = mem_init\<lparr>m_zsets := (m_zsets mem_init)(PRIORITY_KEY :=
     [(''a'', score_at (priority_value LOW) 5), (''b'', score_at (priority_value HIGH) 7)])\<rparr>"

theorem priority_dispatch_order_witness:
  "wp (dequeues (dequeue_priority (mem_app False)) 3)
      (\<lambda>ms _. sorted_wrt (dispatched_before (\<lambda>m. if m = ''a'' then LOW else HIGH) (\<lambda>m. if m = ''a'' then 5 else 7)) ms \<and>
               (length ms < 3 \<longrightarrow> set ms = dom (zsets (mem_view two_jobs) PRIORITY_KEY)))
      (\<lambda>_ _. False) two_jobs"
  by (rule priority_dispatch_order [OF mem_reliable_services]) (auto simp: two_jobs_def split: if_splits)

text \<open>
  FIFO queue. On an empty FIFO queue, enqueueing a list of job identifiers and then
  dequeuing as many times returns exactly that list in the same order.
\<close>
lemma fifo_order:
  assumes "reliable_services A view" and "lists (view w) FIFO_KEY = []"
  shows "wp (seq_io (for_each (\<lambda>jid. enqueue_fifo A jid tag) xs) (dequeues (dequeue_fifo A timeout) (length xs)))
      (\<lambda>r _. r = xs) (\<lambda>_ _. False) w"
  by (rule reliable_services.fifo_enqs_deqs [OF assms(1)]) (simp add: assms(2))

text \<open>
  C20: Draining. \<open>drain_retry_queue\<close> returns at most \<open>limit\<close> members of the retry queue,
  each of them due at the time its clock reads when it is called, and every due member it
  leaves behind comes after all it returns; it removes exactly the returned members from the retry queue and changes
  nothing else in the store.
\<close>
theorem drain_retry_queue_spec:
  assumes "reliable_services A view"
  shows "wp (drain_retry_queue A limit)
      (\<lambda>ids w'. length ids \<le> limit \<and> distinct ids \<and>
         (\<forall>m \<in> set ids. \<exists>sc. zsets (view w) RETRY_KEY m = Some sc \<and> sc \<le> fst (clock_time A w)) \<and>
         (\<forall>m sc. zsets (view w) RETRY_KEY m = Some sc \<longrightarrow> sc \<le> fst (clock_time A w) \<longrightarrow> m \<notin> set ids \<longrightarrow>
            length ids = limit \<and> (\<forall>i \<in> set ids. zbefore (zsets (view w) RETRY_KEY) i m)) \<and>
         data (view w') = zset_drop RETRY_KEY ids (data (view w)))
      (\<lambda>_ _. False) w"
proof (rule reliable_services.wp_drain_at [OF assms])
  fix now ids w'
  let ?z = "zsets (view w) RETRY_KEY"
  assume now: "now = fst (clock_time A w)" and "drained ?z limit now ids" and w': "data (view w') = zset_drop RETRY_KEY ids (data (view w))"
  then obtain ms where s: "sorted_wrt (zbefore ?z) ms" and ms: "set ms = {m. \<exists>sc. ?z m = Some sc \<and> sc \<le> now}"
    and ids: "ids = take limit ms" by (auto simp: drained_def)
  have rest: "m \<in> set (drop limit ms)" if "m \<in> set ms" "m \<notin> set ids" for m
    using that by (metis Un_iff append_take_drop_id ids set_append)
  have "sorted_wrt (zbefore ?z) (take limit ms @ drop limit ms)" using s by simp
  then have before: "zbefore ?z i m" if "i \<in> set ids" "m \<in> set (drop limit ms)" for i m
    using that unfolding sorted_wrt_append ids by blast
  have full: "length ids = limit" if "m \<in> set (drop limit ms)" for m
    using that by (cases "length ms \<le> limit") (auto simp: ids)
  have "distinct ids" using sorted_zbefore_distinct [OF s] by (simp add: ids)
  moreover have "\<forall>m \<in> set ids. \<exists>sc. ?z m = Some sc \<and> sc \<le> now"
    using ms by (auto simp: ids dest: in_set_takeD)
  moreover have "\<forall>m sc. ?z m = Some sc \<longrightarrow> sc \<le> now \<longrightarrow> m \<notin> set ids \<longrightarrow>
      length ids = limit \<and> (\<forall>i \<in> set ids. zbefore ?z i m)"
    using ms rest before full by blast
  ultimately show "length ids \<le> limit \<and> distinct ids \<and>
         (\<forall>m \<in> set ids. \<exists>sc. ?z m = Some sc \<and> sc \<le> fst (clock_time A w)) \<and>
         (\<forall>m sc. ?z m = Some sc \<longrightarrow> sc \<le> fst (clock_time A w) \<longrightarrow> m \<notin> set ids \<longrightarrow>
            length ids = limit \<and> (\<forall>i \<in> set ids. zbefore ?z i m)) \<and>
         data (view w') = zset_drop RETRY_KEY ids (data (view w))"
    unfolding now [symmetric] using w' by (auto simp: ids)
qed

text \<open>Three retries, two of them due at the time of the clock, and room for one.\<close>

definition retry_mem :: mem where
  "retry_mem = mem_init\<lparr>m_clock := 5 * 10 ^ 6,
     m_zsets := (m_zsets mem_init)(RETRY_KEY := [(''late'', 9), (''b'', 4), (''a'', 3)])\<rparr>"

theorem drain_retry_queue_spec_witness:
  "wp (drain_retry_queue (mem_app False) 1)
      (\<lambda>ids w'. length ids \<le> 1 \<and> distinct ids \<and>
         (\<forall>m \<in> set ids. \<exists>sc. zsets (mem_view retry_mem) RETRY_KEY m = Some sc \<and> sc \<le> fst (clock_time (mem_app False) retry_mem)) \<and>
         (\<forall>m sc. zsets (mem_view retry_mem) RETRY_KEY m = Some sc \<longrightarrow> sc \<le> fst (clock_time (mem_app False) retry_mem) \<longrightarrow>
            m \<notin> set ids \<longrightarrow> length ids = 1 \<and> (\<forall>i \<in> set ids. zbefore (zsets (mem_view retry_mem) RETRY_KEY) i m)) \<and>
         data (mem_view w') = zset_drop RETRY_KEY ids (data (mem_view retry_mem)))
      (\<lambda>_ _. False) retry_mem"
  by (rule drain_retry_queue_spec [OF mem_reliable_services])

end
