(* ===== verification/Job_Service.thy ===== *)
theory Job_Service
  imports Job_Queue
begin

section \<open>app/services: creating, listing, reading and cancelling jobs\<close>

text \<open>
  The functions of \<open>idempotency.py\<close> and \<open>job_service.py\<close> with the schemas of
  \<open>db/schemas/job.py\<close> they take and return. A session is the unit of work its commit
  writes. \<open>get_or_create_job\<close> is its lookup followed by \<open>create_new\<close>, the rest of the
  function, so that another request's commit between the two can be stated. Spans and log
  lines are left out.
\<close>

subsection \<open>Schemas\<close>

record job_create =
  jc_type :: string
  jc_payload :: json_dict
  jc_priority :: string
  jc_idempotency_key :: "string option"
  jc_max_attempts :: int

text \<open>A request body with its optional fields; \<open>None\<close> is a validation error.\<close>

definition job_create_of ::
  "string \<Rightarrow> json_dict option \<Rightarrow> string option \<Rightarrow> string option \<Rightarrow> int option \<Rightarrow> job_create option" where
  "job_create_of typ pl prio key maxa =
     (let n = (case maxa of None \<Rightarrow> 5 | Some n \<Rightarrow> n) in
      if 1 \<le> n \<and> n \<le> 10 then
        Some \<lparr>jc_type = typ, jc_payload = (case pl of None \<Rightarrow> Map.empty | Some p \<Rightarrow> p),
              jc_priority = (case prio of None \<Rightarrow> priority_value MEDIUM | Some p \<Rightarrow> p),
              jc_idempotency_key = key, jc_max_attempts = n\<rparr>
      else None)"

record job_log_read =
  lr_id :: uuid
  lr_job_id :: uuid
  lr_level :: string
  lr_message :: string
  lr_created_at :: datetime

definition job_log_read_of :: "job_log \<Rightarrow> job_log_read" where
  "job_log_read_of l =
     \<lparr>lr_id = log_id l, lr_job_id = log_job_id l, lr_level = level l, lr_message = log_message l,
      lr_created_at = log_created_at l\<rparr>"

record job_read =
  r_id :: uuid
  r_type :: string
  r_payload :: json_dict
  r_priority :: string
  r_status :: string
  r_idempotency_key :: "string option"
  r_attempts :: int
  r_max_attempts :: int
  r_next_retry_at :: "datetime option"
  r_created_at :: datetime
  r_started_at :: "datetime option"
  r_completed_at :: "datetime option"
  r_error :: "string option"
  r_result :: "json_dict option"

record job_detail = job_read +
  d_logs :: "job_log_read list"

definition job_read_of :: "job \<Rightarrow> job_read" where
  "job_read_of j =
     \<lparr>r_id = job_id j, r_type = job_type j, r_payload = payload j, r_priority = priority j,
      r_status = status j, r_idempotency_key = idempotency_key j, r_attempts = attempts j,
      r_max_attempts = max_attempts j, r_next_retry_at = next_retry_at j, r_created_at = created_at j,
      r_started_at = started_at j, r_completed_at = completed_at j, r_error = job_error j,
      r_result = job_result j\<rparr>"

definition job_detail_of :: "job \<Rightarrow> job_log list \<Rightarrow> job_detail" where
  "job_detail_of j ls = job_read.extend (job_read_of j) (job_detail.fields (map job_log_read_of ls))"

record job_list_response =
  items :: "job_read list"
  total_count :: nat
  page_no :: int
  page_size :: int

subsection \<open>Results of a query\<close>

fun scalar_one_or_none :: "'a list \<Rightarrow> ('w, 'a option) io" where
  "scalar_one_or_none [] = return_io None"
| "scalar_one_or_none [x] = return_io (Some x)"
| "scalar_one_or_none (x # y # xs) = raise_io MultipleResultsFound"

fun scalar_one :: "'a list \<Rightarrow> ('w, 'a) io" where
  "scalar_one [] = raise_io NoResultFound"
| "scalar_one [x] = return_io x"
| "scalar_one (x # y # xs) = raise_io MultipleResultsFound"

text \<open>Truth of a \<open>str | None\<close>\<close>

definition truthy :: "string option \<Rightarrow> bool" where
  "truthy s \<longleftrightarrow> (case s of None \<Rightarrow> False | Some x \<Rightarrow> x \<noteq> '''')"

subsection \<open>get_or_create_job\<close>

definition lookup_existing :: "'w app \<Rightarrow> job_create \<Rightarrow> ('w, job option) io" where
  "lookup_existing A jc =
     (if truthy (jc_idempotency_key jc) then
        bind_io (db_where A (\<lambda>j. idempotency_key j = jc_idempotency_key jc)) (\<lambda>existing.
        bind_io (scalar_one_or_none existing) (\<lambda>row.
        case row of
          None \<Rightarrow> return_io None
        | Some r \<Rightarrow> seq_io (count_io A ''idempotency_hits'' 1 [(''job_type'', job_type r)]) (return_io (Some r))))
      else return_io None)"

definition payload_with_trace :: "json_dict \<Rightarrow> string option \<Rightarrow> json_dict" where
  "payload_with_trace pl tp =
     pl(''_otel_traceparent'' \<mapsto> (case tp of None \<Rightarrow> JNull | Some s \<Rightarrow> JStr s))"

definition create_new :: "'w app \<Rightarrow> job_create \<Rightarrow> ('w, job \<times> bool) io" where
  "create_new A jc =
     bind_io (read_io (trace_parent A)) (\<lambda>tp.
     bind_io (read_io (rnd_uuid4 A)) (\<lambda>i.
     try_except
       (bind_io (db_flush_new A (new_job i 0 (jc_type jc) (payload_with_trace (jc_payload jc) tp)
                                  (jc_priority jc) (jc_idempotency_key jc) (jc_max_attempts jc))) (\<lambda>job.
        seq_io (enqueue_priority A (str_uuid (job_id job)) (priority job) '''')
        (seq_io (db_commit A [InsertJob job])
        (seq_io (count_io A ''jobs_created'' 1 [(''job_type'', job_type job), (''priority'', priority job)])
        (return_io (job, True))))))
       (\<lambda>e. if is_integrity e then
              seq_io (db_rollback A)
              (bind_io (db_where A (\<lambda>j. idempotency_key j = jc_idempotency_key jc)) (\<lambda>existing.
               bind_io (scalar_one existing) (\<lambda>row.
               seq_io (count_io A ''idempotency_hits'' 1 [(''job_type'', job_type row)])
               (return_io (row, False)))))
            else raise_io e)))"

definition get_or_create_job :: "'w app \<Rightarrow> job_create \<Rightarrow> ('w, job \<times> bool) io" where
  "get_or_create_job A jc =
     bind_io (lookup_existing A jc) (\<lambda>row.
     case row of Some r \<Rightarrow> return_io (r, False) | None \<Rightarrow> create_new A jc)"

definition create_job :: "'w app \<Rightarrow> job_create \<Rightarrow> ('w, job \<times> bool) io" where
  "create_job A jc = get_or_create_job A jc"

subsection \<open>list_jobs, get_job, cancel_job\<close>

definition job_filter :: "string option \<Rightarrow> string option \<Rightarrow> string option \<Rightarrow> job \<Rightarrow> bool" where
  "job_filter st ty pr j \<longleftrightarrow>
     (truthy st \<longrightarrow> Some (status j) = st) \<and>
     (truthy ty \<longrightarrow> Some (job_type j) = ty) \<and>
     (truthy pr \<longrightarrow> Some (priority j) = pr)"

text \<open>PostgreSQL rejects a negative \<open>OFFSET\<close> or \<open>LIMIT\<close>.\<close>

definition list_jobs ::
  "'w app \<Rightarrow> string option \<Rightarrow> string option \<Rightarrow> string option \<Rightarrow> int \<Rightarrow> int \<Rightarrow> ('w, job_list_response) io" where
  "list_jobs A st ty pr pg psize =
     bind_io (db_count A (job_filter st ty pr)) (\<lambda>tot.
     if (pg - 1) * psize < 0 then raise_io (OtherError ''OFFSET must not be negative'')
     else if psize < 0 then raise_io (OtherError ''LIMIT must not be negative'')
     else
       bind_io (db_page A (job_filter st ty pr) (nat ((pg - 1) * psize)) (nat psize)) (\<lambda>jobs.
       return_io \<lparr>items = map job_read_of jobs, total_count = tot, page_no = pg, page_size = psize\<rparr>))"

definition get_job :: "'w app \<Rightarrow> uuid \<Rightarrow> ('w, job_detail option) io" where
  "get_job A i =
     bind_io (db_where A (\<lambda>j. job_id j = i)) (\<lambda>result.
     bind_io (scalar_one_or_none result) (\<lambda>job.
     case job of
       None \<Rightarrow> return_io None
     | Some j \<Rightarrow> bind_io (db_job_logs A i) (\<lambda>ls. return_io (Some (job_detail_of j ls)))))"

definition cancel_job :: "'w app \<Rightarrow> uuid \<Rightarrow> ('w, job option) io" where
  "cancel_job A i =
     bind_io (db_where A (\<lambda>j. job_id j = i)) (\<lambda>result.
     bind_io (scalar_one_or_none result) (\<lambda>job.
     case job of
       None \<Rightarrow> return_io None
     | Some j \<Rightarrow>
         if status j \<noteq> status_value QUEUED \<and> status j \<noteq> status_value PROCESSING then return_io (Some j)
         else
           seq_io (remove_from_queues A (str_uuid i))
           (seq_io (db_commit A [UpdateJob i (\<lambda>r. r\<lparr>status := status_value CANCELLED\<rparr>)])
           (return_io (Some (j\<lparr>status := status_value CANCELLED\<rparr>))))))"

subsection \<open>What the operations do to the store\<close>

lemma committed_insert:
  assumes "committed [InsertJob j] s s'"
  shows "\<not> insert_conflicts j (rows s)" and "s' = s\<lparr>rows := (rows s)(job_id j \<mapsto> j)\<rparr>"
  using assms by (auto simp: committed_def)

lemma committed_update:
  assumes "committed [UpdateJob i f] s s'"
  shows "i \<in> dom (rows s)" and "s' = s\<lparr>rows := (rows s)(i := map_option f (rows s i))\<rparr>"
  using assms by (auto simp: committed_def)

lemma data_rows [simp]: "data (s\<lparr>rows := t\<rparr>) = (data s)\<lparr>rows := t\<rparr>"
  by (simp add: data_def)

lemma put_rows [simp]:
  "(zset_put k m sc s)\<lparr>rows := t\<rparr> = zset_put k m sc (s\<lparr>rows := t\<rparr>)"
  "(zset_del k m s)\<lparr>rows := t\<rparr> = zset_del k m (s\<lparr>rows := t\<rparr>)"
  "(list_put k xs s)\<lparr>rows := t\<rparr> = list_put k xs (s\<lparr>rows := t\<rparr>)"
  by (simp_all add: zset_put_def zset_del_def list_put_def)

lemma matching_key:
  assumes "unique_keys (rows s)" and "rows s i = Some r" and "idempotency_key r = Some k"
  shows "matching (\<lambda>j. idempotency_key j = Some k) s = {r}"
  using assms by (fastforce simp: matching_def unique_keys_def ran_def)

lemma matching_id:
  assumes "keyed_by_id (rows s)"
  shows "matching (\<lambda>j. job_id j = i) s = set_option (rows s i)"
  using assms by (auto simp: matching_def keyed_by_id_def ran_def)

lemma set_singleton: "distinct r \<Longrightarrow> set r = {x} \<Longrightarrow> r = [x]"
  by (cases r rule: scalar_one.cases) auto

lemma set_at_most_one:
  assumes "distinct r" and "set r = set_option x"
  shows "r = (case x of None \<Rightarrow> [] | Some a \<Rightarrow> [a])"
  using assms by (cases x) (auto intro: set_singleton)

text \<open>
  \<open>inserted\<close>: one new row, queued and unattempted, with the request's fields and a fresh
  identifier, and that identifier in the priority queue; nothing else has changed.
\<close>

definition inserted :: "job_create \<Rightarrow> store \<Rightarrow> job \<Rightarrow> store \<Rightarrow> bool" where
  "inserted jc s j s' \<longleftrightarrow>
     (\<exists>u c tp t. j = new_job u c (jc_type jc) (payload_with_trace (jc_payload jc) tp) (jc_priority jc)
                     (jc_idempotency_key jc) (jc_max_attempts jc) \<and>
        \<not> insert_conflicts j (rows s) \<and> 0 \<le> t \<and> t \<le> 10 ^ 13 \<and>
        data s' = zset_put PRIORITY_KEY (str_uuid u) (score_at (jc_priority jc) t)
                    ((data s)\<lparr>rows := (rows s)(u \<mapsto> j)\<rparr>))"

lemma new_job_sel [simp]:
  "job_id (new_job i now typ pl prio key maxa) = i" "job_type (new_job i now typ pl prio key maxa) = typ"
  "payload (new_job i now typ pl prio key maxa) = pl" "priority (new_job i now typ pl prio key maxa) = prio"
  "status (new_job i now typ pl prio key maxa) = ''queued''"
  "idempotency_key (new_job i now typ pl prio key maxa) = key"
  "attempts (new_job i now typ pl prio key maxa) = 0" "max_attempts (new_job i now typ pl prio key maxa) = maxa"
  "(new_job i now typ pl prio key maxa)\<lparr>created_at := now'\<rparr> = new_job i now' typ pl prio key maxa"
  by (simp_all add: new_job_def)

lemma insert_conflicts_new [simp]:
  "insert_conflicts (new_job u c typ pl prio key maxa) t \<longleftrightarrow>
     u \<in> dom t \<or> key \<noteq> None \<and> (\<exists>r \<in> ran t. idempotency_key r = key)"
  by (simp add: insert_conflicts_def)

text \<open>
  All outcomes of \<open>create_new\<close>, failures of the services included: a row exists only with
  its queue entry.
\<close>

definition key_used :: "job_create \<Rightarrow> store \<Rightarrow> bool" where
  "key_used jc s \<longleftrightarrow> jc_idempotency_key jc \<noteq> None \<and> (\<exists>r \<in> ran (rows s). idempotency_key r = jc_idempotency_key jc)"

definition create_failed :: "job_create \<Rightarrow> store \<Rightarrow> store \<Rightarrow> bool" where
  "create_failed jc s s' \<longleftrightarrow>
     data s' = data s \<or>
     (\<exists>u t. \<not> key_used jc s \<and> u \<notin> dom (rows s) \<and>
        data s' = zset_put PRIORITY_KEY (str_uuid u) (score_at (jc_priority jc) t) (data s)) \<or>
     (\<exists>j. inserted jc s j s')"

context services
begin

text \<open>Looking up the key: the row that has it, or nothing, and the store is as before.\<close>

lemma wp_lookup:
  assumes "\<And>r w'. r \<in> ran (rows (view w)) \<Longrightarrow> idempotency_key r = jc_idempotency_key jc \<Longrightarrow>
      truthy (jc_idempotency_key jc) \<Longrightarrow> data (view w') = data (view w) \<Longrightarrow> Q (Some r) w'"
    and "\<And>w'. (\<forall>r \<in> ran (rows (view w)). truthy (jc_idempotency_key jc) \<longrightarrow>
        idempotency_key r \<noteq> jc_idempotency_key jc) \<Longrightarrow> data (view w') = data (view w) \<Longrightarrow> Q None w'"
    and "\<And>e w'. data (view w') = data (view w) \<Longrightarrow> X e w'"
  shows "wp (lookup_existing A jc) Q X w"
proof (cases "truthy (jc_idempotency_key jc)")
  case False
  then show ?thesis by (simp add: lookup_existing_def wp_simps assms(2))
next
  case True
  show ?thesis
    unfolding lookup_existing_def if_P [OF True] wp_bind
  proof (rule wp_call [OF where_law])
    fix r w1
    assume r: "view w1 = view w \<and> distinct r \<and>
        set r = matching (\<lambda>j. idempotency_key j = jc_idempotency_key jc) (view w)"
    show "wp (scalar_one_or_none r) (\<lambda>a. wp (case a of None \<Rightarrow> return_io None
          | Some r \<Rightarrow> seq_io (count_io A ''idempotency_hits'' 1 [(''job_type'', job_type r)]) (return_io (Some r))) Q X) X w1"
    proof (cases r rule: scalar_one_or_none.cases)
      case 1
      with r show ?thesis by (auto simp: wp_simps matching_def intro!: assms(2))
    next
      case (2 x)
      with r have x: "x \<in> ran (rows (view w))" "idempotency_key x = jc_idempotency_key jc"
        by (auto simp: matching_def)
      with 2 r True show ?thesis by (auto simp: wp_simps intro!: wp_count assms(1))
    next
      case (3 x y xs)
      with r show ?thesis by (simp add: wp_simps assms(3))
    qed
  qed (auto intro: assms(3))
qed

end

lemma insertedI:
  assumes "j = new_job u c (jc_type jc) (payload_with_trace (jc_payload jc) tp) (jc_priority jc)
      (jc_idempotency_key jc) (jc_max_attempts jc)"
    and "data s1 = zset_put PRIORITY_KEY (str_uuid u) (score_at (jc_priority jc) t) (data s)"
    and "0 \<le> t" and "t \<le> 10 ^ 13" and "committed [InsertJob j] s1 s2" and "data s' = data s2"
  shows "inserted jc s j s'"
proof -
  have r: "rows s1 = rows s" using arg_cong [OF assms(2), of rows] by simp
  note c = committed_insert [OF assms(5)]
  have "data s' = (data s1)\<lparr>rows := (rows s1)(job_id j \<mapsto> j)\<rparr>" using assms(6) c(2) by simp
  then have "data s' = zset_put PRIORITY_KEY (str_uuid u) (score_at (jc_priority jc) t)
      ((data s)\<lparr>rows := (rows s)(u \<mapsto> j)\<rparr>)" by (simp add: assms(2) r) (simp add: assms(1))
  then show ?thesis using assms(1,3,4) c(1) unfolding inserted_def r by blast
qed

context services
begin

lemma wp_create_new:
  assumes new: "\<And>j w'. inserted jc (view w) j (view w') \<Longrightarrow> Q (j, True) w'"
    and old: "\<And>r w'. matching (\<lambda>j. idempotency_key j = jc_idempotency_key jc) (view w) = {r} \<Longrightarrow>
        data (view w') = data (view w) \<Longrightarrow> Q (r, False) w'"
    and exc: "\<And>e w'. create_failed jc (view w) (view w') \<Longrightarrow> X e w'"
  shows "wp (create_new A jc) Q X w"
  unfolding create_new_def wp_bind wp_try_except
proof (rule wp_trace, rule wp_uuid4)
  fix tp w1 u w2
  assume "view w1 = view w" and "view w2 = view w1"
  then have v2: "view w2 = view w" by simp
  let ?j = "new_job u 0 (jc_type jc) (payload_with_trace (jc_payload jc) tp) (jc_priority jc)
      (jc_idempotency_key jc) (jc_max_attempts jc)"
  let ?h = "\<lambda>e. wp (if is_integrity e
      then seq_io (db_rollback A)
             (bind_io (db_where A (\<lambda>j. idempotency_key j = jc_idempotency_key jc)) (\<lambda>existing.
              bind_io (scalar_one existing) (\<lambda>row.
              seq_io (count_io A ''idempotency_hits'' 1 [(''job_type'', job_type row)]) (return_io (row, False)))))
      else raise_io e) Q X"
  have raised: "?h e w'" if "\<not> is_integrity e" "create_failed jc (view w) (view w')" for e w'
    using that by (simp add: wp_simps exc)
  have same: "?h e w3" if v: "view w3 = view w" for e w3
  proof (cases "is_integrity e")
    case False
    then show ?thesis using v by (intro raised) (auto simp: create_failed_def)
  next
    case True
    have x: "X e' w'" if "view w' = view w" for e' w'
      using that by (intro exc) (simp add: create_failed_def)
    show ?thesis
      unfolding if_P [OF True] wp_bind
    proof (rule wp_call [OF rollback_law], rule wp_call [OF where_law])
      fix w4 r w5
      assume "view w4 = view w3" and r: "view w5 = view w4 \<and> distinct r \<and>
          set r = matching (\<lambda>j. idempotency_key j = jc_idempotency_key jc) (view w4)"
      then have v5: "view w5 = view w"
        and m: "set r = matching (\<lambda>j. idempotency_key j = jc_idempotency_key jc) (view w)"
        by (simp_all add: v)
      show "wp (scalar_one r) (\<lambda>a. wp (count_io A ''idempotency_hits'' 1 [(''job_type'', job_type a)])
          (\<lambda>_. wp (return_io (a, False)) Q X) X) X w5"
        using m by (cases r rule: scalar_one.cases) (auto simp: wp_simps v5 intro!: wp_count x old)
    qed (simp_all add: x v)
  qed
  show "wp (db_flush_new A ?j) (\<lambda>job. wp (enqueue_priority A (str_uuid (job_id job)) (priority job) '''')
      (\<lambda>_. wp (db_commit A [InsertJob job])
      (\<lambda>_. wp (count_io A ''jobs_created'' 1 [(''job_type'', job_type job), (''priority'', priority job)])
      (\<lambda>_. wp (return_io (job, True)) Q ?h) ?h) ?h) ?h) ?h w2"
  proof (rule wp_flush)
    fix t w3
    assume v3: "view w3 = view w2" and nc: "\<not> insert_conflicts ?j (rows (view w2))"
    let ?r = "?j\<lparr>created_at := t\<rparr>"
    have r: "?r = new_job u t (jc_type jc) (payload_with_trace (jc_payload jc) tp) (jc_priority jc)
      (jc_idempotency_key jc) (jc_max_attempts jc)" by simp
    have partial: "create_failed jc (view w) (view w')"
      if "data (view w') = zset_put PRIORITY_KEY (str_uuid u) (score_at (jc_priority jc) ts) (data (view w))" for ts w'
      using that nc unfolding create_failed_def key_used_def by (auto simp: v2)
    have unchanged: "create_failed jc (view w) (view w')" if "data (view w') = data (view w)" for w'
      using that by (simp add: create_failed_def)
    show "wp (enqueue_priority A (str_uuid (job_id ?r)) (priority ?r) '''')
      (\<lambda>_. wp (db_commit A [InsertJob ?r])
      (\<lambda>_. wp (count_io A ''jobs_created'' 1 [(''job_type'', job_type ?r), (''priority'', priority ?r)])
      (\<lambda>_. wp (return_io (?r, True)) Q ?h) ?h) ?h) ?h w3"
    proof (rule wp_enqueue_priority)
      fix ts w4
      assume ts: "0 \<le> ts" "ts \<le> 10 ^ 13"
        and "data (view w4) = zset_put PRIORITY_KEY (str_uuid (job_id ?r)) (score_at (priority ?r) ts) (data (view w3))"
      then have v4: "data (view w4) = zset_put PRIORITY_KEY (str_uuid u) (score_at (jc_priority jc) ts) (data (view w))"
        by (simp add: v3 v2)
      have "rows (data (view w4)) = rows (data (view w))" unfolding v4 by simp
      then have rw: "rows (view w4) = rows (view w)" by simp
      have fine: "inserted jc (view w) ?r (view w')" if "committed [InsertJob ?r] (view w4) s2" "data (view w') = data s2" for s2 w'
        by (rule insertedI [OF r v4 ts that])
      show "wp (db_commit A [InsertJob ?r])
        (\<lambda>_. wp (count_io A ''jobs_created'' 1 [(''job_type'', job_type ?r), (''priority'', priority ?r)])
        (\<lambda>_. wp (return_io (?r, True)) Q ?h) ?h) ?h w4"
      proof (rule wp_commit)
        fix w5 assume c: "committed [InsertJob ?r] (view w4) (view w5)"
        show "wp (count_io A ''jobs_created'' 1 [(''job_type'', job_type ?r), (''priority'', priority ?r)])
          (\<lambda>_. wp (return_io (?r, True)) Q ?h) ?h w5"
          unfolding wp_return by (rule wp_count, rule new, rule fine [OF c]) simp
      next
        fix e w5
        assume v5: "view w5 = view w4" and i: "is_integrity e \<Longrightarrow> \<not> writable [InsertJob ?r] (rows (view w4))"
        have "\<not> is_integrity e" using i nc by (auto simp: rw v2)
        then show "?h e w5" using v4 v5 by (intro raised partial) simp_all
      next
        fix e w5
        assume e: "\<not> is_integrity e" and "committed [InsertJob ?r] (view w4) (view w5)"
        then have "inserted jc (view w) ?r (view w5)" by (intro fine) auto
        then have "create_failed jc (view w) (view w5)" unfolding create_failed_def by blast
        with e show "?h e w5" by (rule raised)
      qed
    next
      fix e w4
      assume e: "\<not> is_integrity e" and "data (view w4) = data (view w3)"
      then have "create_failed jc (view w) (view w4)" by (simp add: unchanged v3 v2)
      with e show "?h e w4" by (rule raised)
    next
      fix e ts w4
      assume e: "\<not> is_integrity e"
        and "data (view w4) = zset_put PRIORITY_KEY (str_uuid (job_id ?r)) (score_at (priority ?r) ts) (data (view w3))"
      then show "?h e w4" by (intro raised partial [of _ ts]) (simp_all add: v3 v2)
    qed
  next
    fix e w3
    assume "view w3 = view w2"
    then show "?h e w3" by (intro same) (simp add: v2)
  qed
qed

end

context services
begin

text \<open>A request that finds its key, in the lookup or in the insert, changes nothing.\<close>

lemma inserted_unused: "inserted jc s j s' \<Longrightarrow> \<not> key_used jc s"
  by (auto simp: inserted_def key_used_def)

lemma create_new_replays:
  assumes "unique_keys (rows (view w))" and "rows (view w) i = Some r"
    and "idempotency_key r = Some k" and "jc_idempotency_key jc = Some k"
  shows "wp (create_new A jc) (\<lambda>a w'. a = (r, False) \<and> data (view w') = data (view w))
      (\<lambda>_ w'. data (view w') = data (view w)) w"
proof -
  have k: "key_used jc (view w)" using assms by (force simp: key_used_def ran_def)
  have m: "matching (\<lambda>j. idempotency_key j = jc_idempotency_key jc) (view w) = {r}"
    using matching_key [OF assms(1-3)] assms(4) by simp
  show ?thesis
    by (rule wp_create_new) (use k m in \<open>auto dest: inserted_unused simp: create_failed_def\<close>)
qed

lemma replays:
  assumes "unique_keys (rows (view w))" and "rows (view w) i = Some r"
    and "idempotency_key r = Some k" and "jc_idempotency_key jc = Some k"
  shows "wp (get_or_create_job A jc) (\<lambda>a w'. a = (r, False) \<and> data (view w') = data (view w))
      (\<lambda>_ w'. data (view w') = data (view w)) w"
  unfolding get_or_create_job_def wp_bind
proof (rule wp_lookup)
  fix r' w'
  assume "r' \<in> ran (rows (view w))" "idempotency_key r' = jc_idempotency_key jc"
    and v: "data (view w') = data (view w)"
  then have "r' \<in> matching (\<lambda>j. idempotency_key j = Some k) (view w)" using assms(4) by (simp add: matching_def)
  then have "r' = r" using matching_key [OF assms(1-3)] by simp
  with v show "wp (case Some r' of None \<Rightarrow> create_new A jc | Some r \<Rightarrow> return_io (r, False))
      (\<lambda>a w'. a = (r, False) \<and> data (view w') = data (view w)) (\<lambda>_ w'. data (view w') = data (view w)) w'"
    by (simp add: wp_simps)
next
  fix w1
  assume v: "data (view w1) = data (view w)"
  then have "rows (data (view w1)) = rows (data (view w))" by (rule arg_cong)
  then have rw: "rows (view w1) = rows (view w)" by simp
  have "wp (create_new A jc) (\<lambda>a w'. a = (r, False) \<and> data (view w') = data (view w1))
      (\<lambda>_ w'. data (view w') = data (view w1)) w1"
    by (rule create_new_replays) (use assms rw in auto)
  then show "wp (case None of None \<Rightarrow> create_new A jc | Some r \<Rightarrow> return_io (r, False))
      (\<lambda>a w'. a = (r, False) \<and> data (view w') = data (view w)) (\<lambda>_ w'. data (view w') = data (view w)) w1"
    by (simp add: v)
qed simp

end

context reliable_services
begin

lemma wp_flush_total:
  assumes "\<not> insert_conflicts j (rows (view w))"
    and "\<And>t w'. view w' = view w \<Longrightarrow> Q (j\<lparr>created_at := t\<rparr>) w'"
  shows "wp (db_flush_new A j) Q X w"
  by (rule wp_flush_cases) (use assms in auto)

text \<open>A request with an unused key: it inserts, whatever the clock says.\<close>

lemma create_new_inserts:
  assumes "\<not> key_used jc (view w)"
    and fresh: "\<And>w1. view w1 = view w \<Longrightarrow> fst (rnd_uuid4 A w1) \<notin> dom (rows (view w1))"
    and Q: "\<And>j w'. inserted jc (view w) j (view w') \<Longrightarrow> Q (j, True) w'"
  shows "wp (create_new A jc) Q X w"
  unfolding create_new_def wp_bind wp_try_except
proof (rule wp_trace)
  fix tp w1
  assume v1: "view w1 = view w"
  let ?u = "fst (rnd_uuid4 A w1)" and ?w2 = "snd (rnd_uuid4 A w1)"
  have v2: "view ?w2 = view w" using uuid4_law by (simp add: reading_def v1)
  have u: "?u \<notin> dom (rows (view w))" using fresh [OF v1] by (simp add: v1)
  let ?job = "\<lambda>t. new_job ?u t (jc_type jc) (payload_with_trace (jc_payload jc) tp) (jc_priority jc)
      (jc_idempotency_key jc) (jc_max_attempts jc)"
  have nc: "\<not> insert_conflicts (?job t) (rows (view w))" for t
    using u assms(1) by (auto simp: key_used_def)
  show "wp (read_io (rnd_uuid4 A)) (\<lambda>a. wp (db_flush_new A (new_job a 0 (jc_type jc)
      (payload_with_trace (jc_payload jc) tp) (jc_priority jc) (jc_idempotency_key jc) (jc_max_attempts jc)))
      (\<lambda>job. wp (enqueue_priority A (str_uuid (job_id job)) (priority job) '''')
      (\<lambda>_. wp (db_commit A [InsertJob job])
      (\<lambda>_. wp (count_io A ''jobs_created'' 1 [(''job_type'', job_type job), (''priority'', priority job)])
      (\<lambda>_. wp (return_io (job, True)) Q (H a)) (H a)) (H a)) (H a)) (H a)) X w1" for H
    unfolding wp_read_io
  proof (rule wp_flush_total)
    show "\<not> insert_conflicts (?job 0) (rows (view ?w2))" using nc by (simp only: v2) simp
  next
    fix t w3
    assume v3: "view w3 = view ?w2"
    have j: "(?job 0)\<lparr>created_at := t\<rparr> = ?job t" by simp
    show "wp (enqueue_priority A (str_uuid (job_id ((?job 0)\<lparr>created_at := t\<rparr>))) (priority ((?job 0)\<lparr>created_at := t\<rparr>)) '''')
      (\<lambda>_. wp (db_commit A [InsertJob ((?job 0)\<lparr>created_at := t\<rparr>)])
      (\<lambda>_. wp (count_io A ''jobs_created'' 1 [(''job_type'', job_type ((?job 0)\<lparr>created_at := t\<rparr>)), (''priority'', priority ((?job 0)\<lparr>created_at := t\<rparr>))])
      (\<lambda>_. wp (return_io ((?job 0)\<lparr>created_at := t\<rparr>, True)) Q (H ?u)) (H ?u)) (H ?u)) (H ?u) w3"
      unfolding j
    proof (rule wp_enqueue_priority_total)
      fix ts w4
      assume ts: "0 \<le> ts" "ts \<le> 10 ^ 13"
        and "data (view w4) = zset_put PRIORITY_KEY (str_uuid (job_id (?job t))) (score_at (priority (?job t)) ts) (data (view w3))"
      then have v4: "data (view w4) = zset_put PRIORITY_KEY (str_uuid ?u) (score_at (jc_priority jc) ts) (data (view w))"
        by (simp add: v3 v2)
      have "rows (data (view w4)) = rows (data (view w))" unfolding v4 by simp
      then have rw: "rows (view w4) = rows (view w)" by simp
      show "wp (db_commit A [InsertJob (?job t)])
        (\<lambda>_. wp (count_io A ''jobs_created'' 1 [(''job_type'', job_type (?job t)), (''priority'', priority (?job t))])
        (\<lambda>_. wp (return_io (?job t, True)) Q (H ?u)) (H ?u)) (H ?u) w4"
      proof (rule wp_commit_total)
        show "writable [InsertJob (?job t)] (rows (view w4))" using nc [of t] by (simp only: rw writable.simps) simp
      next
        fix w5 assume c: "committed [InsertJob (?job t)] (view w4) (view w5)"
        show "wp (count_io A ''jobs_created'' 1 [(''job_type'', job_type (?job t)), (''priority'', priority (?job t))])
          (\<lambda>_. wp (return_io (?job t, True)) Q (H ?u)) (H ?u) w5"
          unfolding wp_return by (rule wp_count, rule Q, rule insertedI [OF refl v4 ts c]) simp
      qed
    qed
  qed
qed

end

subsection \<open>Contracts of cancel and list\<close>

context services
begin

lemma create_outcomes:
  "wp (create_job A jc)
      (\<lambda>(j, is_new) w'. if is_new then inserted jc (view w) j (view w')
                       else j \<in> ran (rows (view w)) \<and> idempotency_key j = jc_idempotency_key jc \<and> data (view w') = data (view w))
      (\<lambda>_ w'. rows (view w') = rows (view w) \<or> (\<exists>j. inserted jc (view w) j (view w'))) w"
  unfolding create_job_def get_or_create_job_def wp_bind
proof (rule wp_lookup)
  fix w1
  assume v: "data (view w1) = data (view w)"
  then have "rows (data (view w1)) = rows (data (view w))" by (rule arg_cong)
  then have rw: "rows (view w1) = rows (view w)" by simp
  have m: "matching P (view w1) = matching P (view w)" for P by (simp add: matching_def rw)
  have ins: "inserted jc (view w1) = inserted jc (view w)" by (simp add: fun_eq_iff inserted_def v rw)
  have same: "rows s = rows (view w)" if "data s = zset_put k x sc (data (view w))" for s k x sc
  proof -
    have "rows (data s) = rows (data (view w))" unfolding that by simp
    then show ?thesis by simp
  qed
  have idle: "rows s = rows (view w)" if "data s = data (view w)" for s
    using arg_cong [OF that, of rows] by simp
  show "wp (case None of None \<Rightarrow> create_new A jc | Some r \<Rightarrow> return_io (r, False))
      (\<lambda>(j, is_new) w'. if is_new then inserted jc (view w) j (view w')
                       else j \<in> ran (rows (view w)) \<and> idempotency_key j = jc_idempotency_key jc \<and> data (view w') = data (view w))
      (\<lambda>_ w'. rows (view w') = rows (view w) \<or> (\<exists>j. inserted jc (view w) j (view w'))) w1"
    unfolding option.case
  proof (rule wp_create_new)
    fix r w'
    assume "matching (\<lambda>j. idempotency_key j = jc_idempotency_key jc) (view w1) = {r}"
      and "data (view w') = data (view w1)"
    then show "(case (r, False) of (j, is_new) \<Rightarrow> \<lambda>w'. if is_new then inserted jc (view w) j (view w')
        else j \<in> ran (rows (view w)) \<and> idempotency_key j = jc_idempotency_key jc \<and> data (view w') = data (view w)) w'"
      unfolding m v by (auto simp: matching_def)
  next
    fix e :: exn and w'
    assume "create_failed jc (view w1) (view w')"
    then show "rows (view w') = rows (view w) \<or> (\<exists>j. inserted jc (view w) j (view w'))"
      unfolding create_failed_def ins v by (auto dest: same idle)
  qed (simp add: ins)
qed (auto simp: wp_simps dest: arg_cong [of _ _ rows])

end

context reliable_services
begin

lemma wp_cancel_total:
  assumes keyed: "keyed_by_id (rows (view w))"
    and none: "\<And>w'. rows (view w) i = None \<Longrightarrow> view w' = view w \<Longrightarrow> Q None w'"
    and over: "\<And>j w'. rows (view w) i = Some j \<Longrightarrow> status j \<noteq> ''queued'' \<Longrightarrow> status j \<noteq> ''processing'' \<Longrightarrow>
        view w' = view w \<Longrightarrow> Q (Some j) w'"
    and cancelled: "\<And>j w'. rows (view w) i = Some j \<Longrightarrow> status j = ''queued'' \<or> status j = ''processing'' \<Longrightarrow>
        data (view w') = zset_del RETRY_KEY (str_uuid i) (zset_del PRIORITY_KEY (str_uuid i)
          (list_put FIFO_KEY (removeAll (str_uuid i) (lists (view w) FIFO_KEY))
            ((data (view w))\<lparr>rows := (rows (view w))(i \<mapsto> j\<lparr>status := ''cancelled''\<rparr>)\<rparr>))) \<Longrightarrow>
        Q (Some (j\<lparr>status := ''cancelled''\<rparr>)) w'"
  shows "wp (cancel_job A i) Q X w"
  unfolding cancel_job_def wp_bind
proof (rule wp_call_total [OF where_law query_total(2)])
  fix r w1
  assume a: "view w1 = view w \<and> distinct r \<and> set r = matching (\<lambda>j. job_id j = i) (view w)"
  then have v1: "view w1 = view w" and r: "r = (case rows (view w) i of None \<Rightarrow> [] | Some a \<Rightarrow> [a])"
    by (auto simp: matching_id [OF keyed] intro!: set_at_most_one)
  let ?f = "\<lambda>j::job. j\<lparr>status := status_value CANCELLED\<rparr>"
  show "wp (scalar_one_or_none r) (\<lambda>a. wp (case a of None \<Rightarrow> return_io None
      | Some j \<Rightarrow> if status j \<noteq> status_value QUEUED \<and> status j \<noteq> status_value PROCESSING then return_io (Some j)
          else seq_io (remove_from_queues A (str_uuid i))
            (seq_io (db_commit A [UpdateJob i ?f]) (return_io (Some (?f j))))) Q X) X w1"
  proof (cases "rows (view w) i")
    case None
    then show ?thesis by (simp add: r wp_simps none v1)
  next
    case (Some j)
    show ?thesis
    proof (cases "status j \<noteq> ''queued'' \<and> status j \<noteq> ''processing''")
      case True
      with Some show ?thesis by (simp add: r wp_simps over v1)
    next
      case False
      have "wp (remove_from_queues A (str_uuid i)) (\<lambda>_. wp (db_commit A [UpdateJob i ?f])
          (\<lambda>_. Q (Some (?f j))) X) X w1"
      proof (rule wp_remove_total)
        fix w2
        assume v2: "data (view w2) = zset_del RETRY_KEY (str_uuid i) (zset_del PRIORITY_KEY (str_uuid i)
            (list_put FIFO_KEY (removeAll (str_uuid i) (lists (view w1) FIFO_KEY)) (data (view w1))))"
        have "rows (data (view w2)) = rows (view w)" unfolding v2 by (simp add: v1)
        then have rw: "rows (view w2) = rows (view w)" by simp
        show "wp (db_commit A [UpdateJob i ?f]) (\<lambda>_. Q (Some (?f j))) X w2"
        proof (rule wp_commit_total)
          show "writable [UpdateJob i ?f] (rows (view w2))" using Some by (simp add: rw domIff)
        next
          fix w3
          assume "committed [UpdateJob i ?f] (view w2) (view w3)"
          then have "data (view w3) = (data (view w2))\<lparr>rows := (rows (view w))(i \<mapsto> ?f j)\<rparr>"
            using Some by (auto dest: committed_update simp: rw)
          then have "data (view w3) = zset_del RETRY_KEY (str_uuid i) (zset_del PRIORITY_KEY (str_uuid i)
              (list_put FIFO_KEY (removeAll (str_uuid i) (lists (view w) FIFO_KEY))
                ((data (view w))\<lparr>rows := (rows (view w))(i \<mapsto> ?f j)\<rparr>)))" by (simp add: v2 v1)
          then have "Q (Some (j\<lparr>status := ''cancelled''\<rparr>)) w3"
            using Some False by (intro cancelled) auto
          then show "Q (Some (?f j)) w3" by simp
        qed
      qed
      with Some False show ?thesis by (auto simp: r wp_simps)
    qed
  qed
qed

lemma wp_list_total:
  assumes "1 \<le> pg" and "0 \<le> n"
    and "\<And>js w'. distinct js \<Longrightarrow> set js = matching (job_filter st ty pr) (view w) \<Longrightarrow> newest_first js \<Longrightarrow>
      view w' = view w \<Longrightarrow>
      Q \<lparr>items = map job_read_of (take (nat n) (drop (nat ((pg - 1) * n)) js)), total_count = length js,
         page_no = pg, page_size = n\<rparr> w'"
  shows "wp (list_jobs A st ty pr pg n) Q X w"
proof -
  have "0 \<le> (pg - 1) * n" using assms(1,2) by simp
  then have ok: "\<not> (pg - 1) * n < 0" "\<not> n < 0" using assms(2) by auto
  have len: "card (matching (job_filter st ty pr) (view w)) = length js"
    if "distinct js" "set js = matching (job_filter st ty pr) (view w)" for js
    using distinct_card [OF that(1)] that(2) by simp
  show ?thesis
    unfolding list_jobs_def wp_bind if_not_P [OF ok(1)] if_not_P [OF ok(2)]
    by (rule wp_call_total [OF count_law query_total(4)], rule wp_call_total [OF page_law query_total(3)])
       (auto simp: paged_def wp_return len intro!: assms(3))
qed

lemma create_inserts_rule:
  assumes "\<forall>r \<in> ran (rows (view w)). idempotency_key r = None \<or> idempotency_key r \<noteq> jc_idempotency_key jc"
    and fresh: "\<And>w1. rows (view w1) = rows (view w) \<Longrightarrow> fst (rnd_uuid4 A w1) \<notin> dom (rows (view w1))"
  shows "wp (get_or_create_job A jc) (\<lambda>(j, is_new) w'. is_new \<and> inserted jc (view w) j (view w')) (\<lambda>_ _. False) w"
proof -
  have unused: "\<not> key_used jc s" if "rows s = rows (view w)" for s
    using assms(1) that by (fastforce simp: key_used_def)
  have new: "wp (create_new A jc) (\<lambda>(j, is_new) w'. is_new \<and> inserted jc (view w) j (view w')) (\<lambda>_ _. False) w1"
    if v: "view w1 = view w" for w1
    by (rule create_new_inserts, rule unused, simp add: v, rule fresh, simp add: v, simp add: v)
  show ?thesis
  proof (cases "truthy (jc_idempotency_key jc)")
    case False
    then show ?thesis using new [of w] by (simp add: get_or_create_job_def lookup_existing_def wp_simps)
  next
    case True
    have none: "matching (\<lambda>j. idempotency_key j = jc_idempotency_key jc) (view w) = {}"
      using assms(1) True by (auto simp: matching_def truthy_def split: option.splits)
    show ?thesis
      unfolding get_or_create_job_def lookup_existing_def if_P [OF True] wp_bind
      by (rule wp_call_total [OF where_law query_total(2)]) (auto simp: none wp_simps intro: new)
  qed
qed

end

subsection \<open>Properties\<close>

text \<open>A store with one job that has an idempotency key, and a request for that key.\<close>

definition sample_row :: job where
  "sample_row = new_job 7 0 ''email_send'' Map.empty ''high'' (Some ''k'') 3"

definition sample_mem :: mem where
  "sample_mem = mem_init\<lparr>m_rows := [(7, sample_row)]\<rparr>"

definition sample_request :: job_create where
  "sample_request = \<lparr>jc_type = ''report_generate'', jc_payload = Map.empty, jc_priority = ''low'',
     jc_idempotency_key = Some ''k'', jc_max_attempts = 5\<rparr>"

lemma sample_unique: "unique_keys (rows (mem_view sample_mem))" and
  sample_keyed: "keyed_by_id (rows (mem_view sample_mem))" and
  sample_rows: "rows (mem_view sample_mem) 7 = Some sample_row"
  by (auto simp: sample_mem_def sample_row_def unique_keys_def keyed_by_id_def split: if_splits)

text \<open>
  C14: Idempotent replay. When a row has the request's key, \<open>get_or_create_job\<close> returns
  that row and \<open>False\<close>, whatever else the request says (another type, the empty key
  included), and neither a row nor a queue entry is added; even when a service fails, the
  tables and queues are as they were.
\<close>
theorem create_replay:
  assumes "services A view" and "unique_keys (rows (view w))" and "rows (view w) i = Some r"
    and "idempotency_key r = Some k" and "jc_idempotency_key jc = Some k"
  shows "wp (get_or_create_job A jc) (\<lambda>a w'. a = (r, False) \<and> data (view w') = data (view w))
      (\<lambda>_ w'. data (view w') = data (view w)) w"
  by (rule services.replays [OF assms])

theorem create_replay_witness:
  "wp (get_or_create_job (mem_app True) sample_request)
      (\<lambda>a w'. a = (sample_row, False) \<and> data (mem_view w') = data (mem_view sample_mem))
      (\<lambda>_ w'. data (mem_view w') = data (mem_view sample_mem)) sample_mem"
  by (rule create_replay [OF mem_services sample_unique sample_rows, of "''k''"])
     (simp_all add: sample_row_def sample_request_def)

text \<open>
  The creation race. When another request commits the same key after this one looked
  for it, the rest of \<open>get_or_create_job\<close> loses the insert to the unique index and answers
  with the other request's row; its own identifier never reaches a queue.
\<close>
lemma create_race:
  assumes "services A view" and "unique_keys (rows (view w))" and "rows (view w) i = Some r"
    and "idempotency_key r = Some k" and "jc_idempotency_key jc = Some k"
  shows "wp (create_new A jc) (\<lambda>a w'. a = (r, False) \<and> data (view w') = data (view w))
      (\<lambda>_ w'. data (view w') = data (view w)) w"
  by (rule services.create_new_replays [OF assms])

text \<open>
  C1: Creation. When no row has the request's key, services that do not fail and a
  generator that does not repeat a stored identifier make \<open>get_or_create_job\<close> insert
  exactly one row, queued, with no attempt and the request's fields, put its identifier
  into the priority queue with the score of its priority, and return it with \<open>True\<close>.
\<close>
theorem create_inserts:
  assumes "reliable_services A view"
    and "\<forall>r \<in> ran (rows (view w)). idempotency_key r = None \<or> idempotency_key r \<noteq> jc_idempotency_key jc"
    and "\<And>w1. rows (view w1) = rows (view w) \<Longrightarrow> fst (rnd_uuid4 A w1) \<notin> dom (rows (view w1))"
  shows "wp (get_or_create_job A jc)
      (\<lambda>(j, is_new) w'. is_new \<and> inserted jc (view w) j (view w')) (\<lambda>_ _. False) w"
  by (rule reliable_services.create_inserts_rule [OF assms])

theorem create_inserts_witness:
  "wp (get_or_create_job (mem_app False) sample_request)
      (\<lambda>(j, is_new) w'. is_new \<and> inserted sample_request (mem_view mem_init) j (mem_view w')) (\<lambda>_ _. False) mem_init"
  by (rule create_inserts [OF mem_reliable_services]) (simp_all add: mem_init_def)

text \<open>
  C15: No row without its queue entry. However the services fail, \<open>create_job\<close> leaves the
  rows as they were or has inserted one queued row whose identifier is in the priority
  queue: the entry is written before the commit. A failure can leave an entry without a row,
  never a row without an entry.
\<close>
theorem create_never_unqueued:
  assumes "services A view"
  shows "wp (create_job A jc)
      (\<lambda>(j, is_new) w'. if is_new then inserted jc (view w) j (view w')
                       else j \<in> ran (rows (view w)) \<and> data (view w') = data (view w))
      (\<lambda>_ w'. rows (view w') = rows (view w) \<or> (\<exists>j. inserted jc (view w) j (view w'))) w"
  by (rule wp_mono [OF services.create_outcomes [OF assms]]) (auto split: if_splits)

theorem create_never_unqueued_witness:
  "wp (create_job (mem_app True) sample_request)
      (\<lambda>(j, is_new) w'. if is_new then inserted sample_request (mem_view mem_init) j (mem_view w')
                       else j \<in> ran (rows (mem_view mem_init)) \<and> data (mem_view w') = data (mem_view mem_init))
      (\<lambda>_ w'. rows (mem_view w') = rows (mem_view mem_init) \<or>
               (\<exists>j. inserted sample_request (mem_view mem_init) j (mem_view w'))) mem_init"
  by (rule create_never_unqueued [OF mem_services])

text \<open>
  C13: Cancellation. With services that do not fail, a queued or processing job becomes
  cancelled and its identifier leaves all three queues; a job in another status and a
  missing one are left alone; no other row or queue entry changes.
\<close>
theorem cancel_job_spec:
  assumes "reliable_services A view" and "keyed_by_id (rows (view w))"
  shows "wp (cancel_job A i)
      (\<lambda>r w'. case rows (view w) i of
         None \<Rightarrow> r = None \<and> data (view w') = data (view w)
       | Some j \<Rightarrow>
           if status j \<in> {''queued'', ''processing''} then
             r = Some (j\<lparr>status := ''cancelled''\<rparr>) \<and>
             rows (view w') = (rows (view w))(i \<mapsto> j\<lparr>status := ''cancelled''\<rparr>) \<and>
             (\<forall>k. zsets (view w') k = (if k \<in> {PRIORITY_KEY, RETRY_KEY}
                then (zsets (view w) k)(str_uuid i := None) else zsets (view w) k)) \<and>
             lists (view w') = (lists (view w))(FIFO_KEY := removeAll (str_uuid i) (lists (view w) FIFO_KEY)) \<and>
             logs (view w') = logs (view w)
           else r = Some j \<and> data (view w') = data (view w))
      (\<lambda>_ _. False) w"
proof (rule reliable_services.wp_cancel_total [OF assms])
  fix j w'
  assume j: "rows (view w) i = Some j" "status j = ''queued'' \<or> status j = ''processing''"
    and d: "data (view w') = zset_del RETRY_KEY (str_uuid i) (zset_del PRIORITY_KEY (str_uuid i)
          (list_put FIFO_KEY (removeAll (str_uuid i) (lists (view w) FIFO_KEY))
            ((data (view w))\<lparr>rows := (rows (view w))(i \<mapsto> j\<lparr>status := ''cancelled''\<rparr>)\<rparr>)))"
  have sel: "zsets (view w') = zsets (data (view w'))" "lists (view w') = lists (data (view w'))"
    "rows (view w') = rows (data (view w'))" "logs (view w') = logs (data (view w'))" by simp_all
  show "case rows (view w) i of
         None \<Rightarrow> Some (j\<lparr>status := ''cancelled''\<rparr>) = None \<and> data (view w') = data (view w)
       | Some j' \<Rightarrow>
           if status j' \<in> {''queued'', ''processing''} then
             Some (j\<lparr>status := ''cancelled''\<rparr>) = Some (j'\<lparr>status := ''cancelled''\<rparr>) \<and>
             rows (view w') = (rows (view w))(i \<mapsto> j'\<lparr>status := ''cancelled''\<rparr>) \<and>
             (\<forall>k. zsets (view w') k = (if k \<in> {PRIORITY_KEY, RETRY_KEY}
                then (zsets (view w) k)(str_uuid i := None) else zsets (view w) k)) \<and>
             lists (view w') = (lists (view w))(FIFO_KEY := removeAll (str_uuid i) (lists (view w) FIFO_KEY)) \<and>
             logs (view w') = logs (view w)
           else Some (j\<lparr>status := ''cancelled''\<rparr>) = Some j' \<and> data (view w') = data (view w)"
    unfolding sel d using j by (auto simp: PRIORITY_KEY_def RETRY_KEY_def)
qed (auto split: option.splits)

theorem cancel_job_spec_witness:
  "wp (cancel_job (mem_app False) 7)
      (\<lambda>r w'. case rows (mem_view sample_mem) 7 of
         None \<Rightarrow> r = None \<and> data (mem_view w') = data (mem_view sample_mem)
       | Some j \<Rightarrow>
           if status j \<in> {''queued'', ''processing''} then
             r = Some (j\<lparr>status := ''cancelled''\<rparr>) \<and>
             rows (mem_view w') = (rows (mem_view sample_mem))(7 \<mapsto> j\<lparr>status := ''cancelled''\<rparr>) \<and>
             (\<forall>k. zsets (mem_view w') k = (if k \<in> {PRIORITY_KEY, RETRY_KEY}
                then (zsets (mem_view sample_mem) k)(str_uuid 7 := None) else zsets (mem_view sample_mem) k)) \<and>
             lists (mem_view w') = (lists (mem_view sample_mem))
               (FIFO_KEY := removeAll (str_uuid 7) (lists (mem_view sample_mem) FIFO_KEY)) \<and>
             logs (mem_view w') = logs (mem_view sample_mem)
           else r = Some j \<and> data (mem_view w') = data (mem_view sample_mem))
      (\<lambda>_ _. False) sample_mem"
  by (rule cancel_job_spec [OF mem_reliable_services sample_keyed])

text \<open>The items of the first \<open>n\<close> pages, one request after the other.\<close>

primrec all_pages ::
  "'w app \<Rightarrow> string option \<Rightarrow> string option \<Rightarrow> string option \<Rightarrow> int \<Rightarrow> nat \<Rightarrow> ('w, job_read list) io" where
  "all_pages A st ty pr psize 0 = return_io []"
| "all_pages A st ty pr psize (Suc n) =
     bind_io (all_pages A st ty pr psize n) (\<lambda>xs.
     bind_io (list_jobs A st ty pr (int n + 1) psize) (\<lambda>r. return_io (xs @ items r)))"

lemma newest_first_unique:
  assumes "newest_first xs" and "newest_first ys" and "distinct xs" and "distinct ys"
    and "set xs = set ys" and "inj_on created_at (set xs)"
  shows "xs = ys"
proof -
  let ?f = "\<lambda>j. - created_at j"
  have i: "inj_on ?f (set xs)" using assms(6) by (auto simp: inj_on_def)
  have "sorted (map ?f xs)" "sorted (map ?f ys)"
    using assms(1,2) by (simp_all add: newest_first_def sorted_map)
  moreover have "distinct (map ?f xs)" "distinct (map ?f ys)"
    using i assms(3-5) by (simp_all add: distinct_map)
  ultimately have "map ?f xs = map ?f ys"
    by (intro sorted_distinct_set_unique) (simp_all add: assms(5))
  then show ?thesis using i by (intro map_inj_on [of ?f]) (simp_all add: assms(5))
qed

context reliable_services
begin

lemma all_pages_prefix:
  assumes "0 \<le> psize" and "distinct js" and "set js = matching (job_filter st ty pr) (view w)"
    and "newest_first js" and "inj_on created_at (set js)"
  shows "wp (all_pages A st ty pr psize n)
      (\<lambda>xs w'. xs = map job_read_of (take (n * nat psize) js) \<and> view w' = view w) (\<lambda>_ _. False) w"
proof (induction n)
  case 0
  then show ?case by (simp add: wp_simps)
next
  case (Suc n)
  show ?case
    unfolding all_pages.simps wp_bind
  proof (rule wp_mono [OF Suc.IH])
    fix xs w1
    assume xs: "xs = map job_read_of (take (n * nat psize) js) \<and> view w1 = view w"
    show "wp (list_jobs A st ty pr (int n + 1) psize) (\<lambda>r. wp (return_io (xs @ items r))
        (\<lambda>xs w'. xs = map job_read_of (take (Suc n * nat psize) js) \<and> view w' = view w) (\<lambda>_ _. False))
        (\<lambda>_ _. False) w1"
    proof (rule wp_list_total)
      fix js' w'
      assume js': "distinct js'" "set js' = matching (job_filter st ty pr) (view w1)" "newest_first js'"
        and v: "view w' = view w1"
      have eq: "js' = js"
        by (rule newest_first_unique) (use js' assms xs in auto)
      have n: "nat (int n * psize) = n * nat psize" by (simp add: nat_mult_distrib)
      have "take (n * nat psize) js @ take (nat psize) (drop (n * nat psize) js) = take (Suc n * nat psize) js"
        by (simp add: take_add [symmetric] add.commute)
      then show "wp (return_io (xs @ items \<lparr>items = map job_read_of (take (nat psize)
          (drop (nat ((int n + 1 - 1) * psize)) js')), total_count = length js', page_no = int n + 1, page_size = psize\<rparr>))
        (\<lambda>xs w'. xs = map job_read_of (take (Suc n * nat psize) js) \<and> view w' = view w) (\<lambda>_ _. False) w'"
        using xs v by (simp add: wp_simps eq n flip: map_append)
    qed (use assms in auto)
  qed simp
qed

lemma all_pages_complete:
  assumes "0 < psize" and "finite (matching (job_filter st ty pr) (view w))"
    and "inj_on created_at (matching (job_filter st ty pr) (view w))"
    and "card (matching (job_filter st ty pr) (view w)) \<le> n * nat psize"
  shows "wp (all_pages A st ty pr psize n)
      (\<lambda>xs w'. \<exists>js. xs = map job_read_of js \<and> distinct js \<and> newest_first js \<and>
              set js = matching (job_filter st ty pr) (view w) \<and> view w' = view w) (\<lambda>_ _. False) w"
proof -
  let ?M = "matching (job_filter st ty pr) (view w)"
  let ?js = "sorted_key_list_of_set (\<lambda>j. - created_at j) ?M"
  obtain l where l: "set l = ?M" "distinct l" using finite_distinct_list [OF assms(2)] by blast
  let ?js = "sort_key (\<lambda>j. - created_at j) l"
  have "sorted (map (\<lambda>j. - created_at j) ?js)" by simp
  then have js: "newest_first ?js" "distinct ?js" "set ?js = ?M"
    using l by (simp_all add: newest_first_def sorted_map)
  have len: "length ?js \<le> n * nat psize" using assms(4) l by (simp flip: distinct_card)
  show ?thesis
    by (rule wp_mono [OF all_pages_prefix [where js = ?js]]) (use assms js len in auto)
qed

end

text \<open>
  The order of the pages is by \<open>created_at\<close> alone (PostgreSQL leaves rows that tie in any order,
  which can differ from query to query): of two jobs created in the same microsecond, the
  first of the two pages of one job each and the second may both be the same job.
\<close>

lemma tied_pages:
  assumes "matching P s = {a, b}" and "a \<noteq> b" and "created_at a = created_at b"
  shows "paged P 0 1 s [a] s" and "paged P 1 1 s [a] s"
proof -
  have "distinct [a, b] \<and> set [a, b] = matching P s \<and> newest_first [a, b]"
    "distinct [b, a] \<and> set [b, a] = matching P s \<and> newest_first [b, a]"
    using assms by (auto simp: newest_first_def)
  then show "paged P 0 1 s [a] s" "paged P 1 1 s [a] s"
    unfolding paged_def by (auto intro: exI [of _ "[a, b]"] exI [of _ "[b, a]"])
qed

text \<open>
  C19: Pagination. When no two of the jobs that pass the filters were created at the same
  time (\<open>tied_pages\<close> says what can happen otherwise), and no job is created between the
  requests, the pages 1 to \<open>n\<close>, enough to hold them, list each of them exactly once and newest
  first.
\<close>
theorem list_jobs_pages:
  assumes "reliable_services A view" and "0 < psize"
    and "finite (matching (job_filter st ty pr) (view w))"
    and "inj_on created_at (matching (job_filter st ty pr) (view w))"
    and "card (matching (job_filter st ty pr) (view w)) \<le> n * nat psize"
  shows "wp (all_pages A st ty pr psize n)
      (\<lambda>xs w'. \<exists>js. xs = map job_read_of js \<and> distinct js \<and> newest_first js \<and>
              set js = matching (job_filter st ty pr) (view w) \<and> view w' = view w) (\<lambda>_ _. False) w"
  by (rule reliable_services.all_pages_complete [OF assms])

theorem list_jobs_pages_witness:
  "wp (all_pages (mem_app False) (Some ''queued'') None None 20 1)
      (\<lambda>xs w'. \<exists>js. xs = map job_read_of js \<and> distinct js \<and> newest_first js \<and>
              set js = matching (job_filter (Some ''queued'') None None) (mem_view sample_mem) \<and>
              mem_view w' = mem_view sample_mem) (\<lambda>_ _. False) sample_mem"
proof -
  have "matching (job_filter (Some ''queued'') None None) (mem_view sample_mem) = {sample_row}"
    by (auto simp: matching_def sample_mem_def job_filter_def truthy_def sample_row_def)
  then show ?thesis by (intro list_jobs_pages [OF mem_reliable_services]) simp_all
qed

end
