(* ===== verification/Lifecycle.thy ===== *)
theory Lifecycle
  imports Job_Service
begin

section \<open>The life of a job: the abstract state machine\<close>

text \<open>
  What any operation of the program may do to one row of \<open>jobs\<close>, as a step relation: the
  worker starts, completes, retries or gives up a job, recovery re-queues or fails it, the
  API cancels it. \<open>table_step\<close> lifts a step to the table and adds the insertion of a new
  row. The guards are the ones the code checks on the row it loaded, no more: that is why a
  failure may be recorded on a row in any status. \<open>good_row\<close> and \<open>good_table\<close> are the
  invariants of every reachable row and table; the theories of the operations show that each
  operation, services failing or not, is a sequence of these steps.
\<close>

subsection \<open>Steps of a row\<close>

inductive row_step :: "job \<Rightarrow> job \<Rightarrow> bool" where
  start: "status j = status_value QUEUED \<Longrightarrow>
    row_step j (j\<lparr>status := status_value PROCESSING, started_at := Some t, attempts := attempts j + 1\<rparr>)"
| complete: "status j \<noteq> status_value CANCELLED \<Longrightarrow>
    row_step j (j\<lparr>status := status_value COMPLETED, completed_at := Some t, job_result := Some r, job_error := None\<rparr>)"
| give_up: "max_attempts j \<le> attempts j \<Longrightarrow>
    row_step j (j\<lparr>job_error := Some m, status := status_value FAILED, completed_at := Some t\<rparr>)"
| retry: "attempts j < max_attempts j \<Longrightarrow>
    row_step j (j\<lparr>job_error := Some m, status := status_value QUEUED, next_retry_at := Some t\<rparr>)"
| recover_fail: "status j = status_value PROCESSING \<Longrightarrow> max_attempts j \<le> attempts j + 1 \<Longrightarrow>
    row_step j (j\<lparr>attempts := attempts j + 1, status := status_value FAILED, completed_at := Some t,
                  job_error := Some m\<rparr>)"
| recover_retry: "status j = status_value PROCESSING \<Longrightarrow> attempts j + 1 < max_attempts j \<Longrightarrow>
    row_step j (j\<lparr>attempts := attempts j + 1, status := status_value QUEUED, next_retry_at := Some t\<rparr>)"
| cancel: "status j = status_value QUEUED \<or> status j = status_value PROCESSING \<Longrightarrow>
    row_step j (j\<lparr>status := status_value CANCELLED\<rparr>)"

text \<open>The columns that no step writes; the number of attempts never falls.\<close>

definition same_request :: "job \<Rightarrow> job \<Rightarrow> bool" where
  "same_request j j' \<longleftrightarrow>
     job_id j' = job_id j \<and> job_type j' = job_type j \<and> payload j' = payload j \<and> priority j' = priority j \<and>
     idempotency_key j' = idempotency_key j \<and> max_attempts j' = max_attempts j \<and> created_at j' = created_at j"

lemma row_step_same_request: "row_step j j' \<Longrightarrow> same_request j j' \<and> attempts j \<le> attempts j'"
  by (induction rule: row_step.induct) (simp_all add: same_request_def)

lemma row_steps_same_request: "row_step\<^sup>*\<^sup>* j j' \<Longrightarrow> same_request j j' \<and> attempts j \<le> attempts j'"
  by (induction rule: rtranclp_induct) (auto simp: same_request_def dest: row_step_same_request)

text \<open>Only a queued row can be started, and the start is one attempt.\<close>

inductive_cases row_step_cases: "row_step j j'"

lemma row_step_processing:
  assumes "row_step j j'" and "status j' = status_value PROCESSING"
  shows "status j = status_value QUEUED" and "attempts j' = attempts j + 1"
  using assms by (auto elim: row_step_cases)

subsection \<open>The invariant of a row\<close>

definition good_row :: "job \<Rightarrow> bool" where
  "good_row j \<longleftrightarrow>
     status j \<in> range status_value \<and> 0 \<le> attempts j \<and> attempts j \<le> max_attempts j + 1 \<and>
     1 \<le> max_attempts j \<and> max_attempts j \<le> 10 \<and>
     (status j = ''queued'' \<longrightarrow> attempts j < max_attempts j) \<and>
     (status j = ''processing'' \<longrightarrow> 1 \<le> attempts j \<and> attempts j \<le> max_attempts j \<and> started_at j \<noteq> None) \<and>
     (status j = ''completed'' \<longrightarrow> completed_at j \<noteq> None \<and> job_result j \<noteq> None \<and> job_error j = None) \<and>
     (status j = ''failed'' \<longrightarrow> max_attempts j \<le> attempts j \<and> completed_at j \<noteq> None \<and> job_error j \<noteq> None)"

lemma status_in_range: "s \<in> range status_value \<longleftrightarrow>
    s \<in> {''queued'', ''processing'', ''completed'', ''failed'', ''cancelled''}"
proof -
  have "range status_value = status_value ` set all_statuses" by simp
  then show ?thesis by (simp only: all_statuses_def) auto
qed

lemma good_row_step: "row_step j j' \<Longrightarrow> good_row j \<Longrightarrow> good_row j'"
  by (induction rule: row_step.induct) (auto simp: good_row_def status_in_range)

lemma good_new_job: "1 \<le> maxa \<Longrightarrow> maxa \<le> 10 \<Longrightarrow> good_row (new_job i c typ pl prio key maxa)"
  by (simp add: good_row_def status_in_range)

subsection \<open>Steps of the table\<close>

inductive table_step :: "table \<Rightarrow> table \<Rightarrow> bool" where
  row: "t i = Some j \<Longrightarrow> row_step j j' \<Longrightarrow> table_step t (t(i \<mapsto> j'))"
| insert: "j = new_job i c typ pl prio key maxa \<Longrightarrow> 1 \<le> maxa \<Longrightarrow> maxa \<le> 10 \<Longrightarrow>
    \<not> insert_conflicts j t \<Longrightarrow> table_step t (t(i \<mapsto> j))"

definition good_table :: "table \<Rightarrow> bool" where
  "good_table t \<longleftrightarrow> keyed_by_id t \<and> unique_keys t \<and> (\<forall>j \<in> ran t. good_row j)"

lemma good_tableD:
  assumes "good_table t"
  shows "keyed_by_id t" and "unique_keys t" and "\<And>i j. t i = Some j \<Longrightarrow> good_row j"
    and "\<And>i j. t i = Some j \<Longrightarrow> job_id j = i"
  using assms by (auto simp: good_table_def keyed_by_id_def ran_def)

lemma good_table_empty: "good_table Map.empty"
  by (simp add: good_table_def keyed_by_id_def unique_keys_def)

lemma good_table_step:
  assumes "table_step t t'" and "good_table t"
  shows "good_table t'"
  using assms
proof (induction rule: table_step.induct)
  case (row t i j j')
  note s = row_step_same_request [OF row.hyps(2)]
  have "keyed_by_id (t(i \<mapsto> j'))"
    using row s by (intro keyed_by_id_insert) (auto simp: good_table_def same_request_def dest: keyed_by_idD)
  moreover have "unique_keys (t(i \<mapsto> j'))"
    using row s by (intro unique_keys_update) (auto simp: good_table_def same_request_def)
  moreover have "\<forall>r \<in> ran (t(i \<mapsto> j')). good_row r"
    using row by (auto simp: good_table_def ran_def dest: good_row_step)
  ultimately show ?case unfolding good_table_def by blast
next
  case (insert j i c ty pl prio key maxa t)
  have "unique_keys (t(job_id j \<mapsto> j))"
    using insert by (intro unique_keys_insert) (auto simp: good_table_def)
  moreover have "\<forall>r \<in> ran (t(i \<mapsto> j)). good_row r"
    using insert by (auto simp: good_table_def ran_def intro: good_new_job)
  moreover have "keyed_by_id (t(i \<mapsto> j))"
    using insert by (intro keyed_by_id_insert) (auto simp: good_table_def)
  moreover have "job_id j = i" using insert by simp
  ultimately show ?case unfolding good_table_def by blast
qed

lemma good_table_steps: "table_step\<^sup>*\<^sup>* t t' \<Longrightarrow> good_table t \<Longrightarrow> good_table t'"
  by (induction rule: rtranclp_induct) (auto dest: good_table_step)

text \<open>A row, once inserted, stays, with its request unchanged.\<close>

lemma table_steps_keep:
  assumes "table_step\<^sup>*\<^sup>* t t'" and "t i = Some j"
  shows "\<exists>j'. t' i = Some j' \<and> row_step\<^sup>*\<^sup>* j j'"
  using assms
proof (induction rule: rtranclp_induct)
  case (step u v)
  then obtain k where k: "u i = Some k" "row_step\<^sup>*\<^sup>* j k" by blast
  from step.hyps(2) k show ?case
  proof cases
    case (row m a b)
    then show ?thesis using k by (cases "m = i") (auto intro: rtranclp.rtrancl_into_rtrancl)
  next
    case (insert a m)
    then have "m \<noteq> i" using k by (auto simp: domIff)
    then show ?thesis using insert k by auto
  qed
qed auto

end
