(* ===== verification/Retry_Service.thy ===== *)
theory Retry_Service
  imports Job_Queue
begin

section \<open>app/services/retry_service.py: exponential backoff with jitter\<close>

text \<open>
  \<open>backoff\<close> is \<open>base * (0.5 + random.random())\<close> with its two float roundings, for a given
  value of \<open>random.random()\<close> (a multiple of \<open>2 ^ -53\<close> in \<open>[0, 1)\<close>);
  \<open>calculate_backoff_with_jitter\<close> draws that value. The cap applies to the base, before the
  jitter. The lemmas give the exact range of a delay, show that the cap is never reached
  for a job with at most ten attempts, and that a delay at the cap can exceed it.
  \<open>timedelta_us\<close> is \<open>timedelta(seconds=d)\<close> for \<open>d \<ge> 0\<close>, in microseconds, and \<open>fixed1\<close> is the
  format \<open>{d:.1f}\<close>.
\<close>

definition backoff_base :: "int \<Rightarrow> int \<Rightarrow> rat" where
  "backoff_base attempt max_delay = min (2 powi attempt) (of_int max_delay)"

definition backoff :: "int \<Rightarrow> int \<Rightarrow> rat \<Rightarrow> rat" where
  "backoff attempt max_delay r = fl (fl (backoff_base attempt max_delay) * fl (1/2 + r))"

definition MAX_DELAY :: int where
  "MAX_DELAY = 3600"

definition calculate_backoff_with_jitter :: "'w app \<Rightarrow> int \<Rightarrow> int \<Rightarrow> ('w, rat) io" where
  "calculate_backoff_with_jitter A attempt max_delay =
     bind_io (read_io (rnd_random A)) (\<lambda>r. return_io (backoff attempt max_delay r))"

definition timedelta_us :: "rat \<Rightarrow> int" where
  "timedelta_us d = \<lfloor>d\<rfloor> * 10 ^ 6 + round_half_even (fl (frac d * 10 ^ 6))"

definition fixed1 :: "rat \<Rightarrow> string" where
  "fixed1 d = (let n = round_half_even (d * 10) in str_int (n div 10) @ ''.'' @ str_int (n mod 10))"

subsection \<open>The range of a delay\<close>

lemma fl_half: "fl (1/2) = 1/2"
  using fl_powi [of "-1"] by simp

lemma fl_three_halves: "fl (of_int n * 3 / 2) = of_int n * 3 / 2" if "0 < n" "n \<le> 2 ^ 50"
  using fl_exact_pos [of "n * 3" "-1"] that by (simp add: power_int_minus field_simps)

lemma fl_halves: "fl (of_int n / 2) = of_int n / 2" if "0 < n" "n \<le> 2 ^ 50"
  using fl_exact_pos [of n "-1"] that by (simp add: power_int_minus field_simps)

lemma jitter_range:
  assumes "0 \<le> r" and "r \<le> 1 - 1 / 2 ^ 53"
  shows "1/2 \<le> fl (1/2 + r)" and "fl (1/2 + r) \<le> 3/2"
proof -
  show "1/2 \<le> fl (1/2 + r)" using fl_mono [of "1/2" "1/2 + r"] assms(1) by (simp add: fl_half)
  have "r \<le> 1" using assms(2) by (rule order_trans) simp
  then show "fl (1/2 + r) \<le> 3/2"
    using fl_mono [of "1/2 + r" "3/2"] fl_three_halves [of 1] assms(1) by simp
qed

lemma backoff_base_int:
  assumes "0 \<le> a" and "1 \<le> cap" and "cap \<le> 2 ^ 50"
  obtains n where "backoff_base a cap = of_int n" "1 \<le> n" "n \<le> cap" "n = min (2 ^ nat a) cap"
proof
  have "(2::rat) powi a = of_int (2 ^ nat a)" using assms(1) by (simp add: power_int_def)
  then show "backoff_base a cap = of_int (min (2 ^ nat a) cap)"
    by (simp add: backoff_base_def min_def flip: of_int_le_iff)
qed (use assms in auto)

lemma backoff_bounds:
  assumes a: "0 \<le> a" and cap: "1 \<le> cap" "cap \<le> 2 ^ 50" and r: "0 \<le> r" "r \<le> 1 - 1 / 2 ^ 53"
  shows "backoff_base a cap / 2 \<le> backoff a cap r" and "backoff a cap r \<le> backoff_base a cap * 3 / 2"
proof -
  obtain n where n: "backoff_base a cap = of_int n" "1 \<le> n" "n \<le> cap"
    using backoff_base_int [OF a cap] by metis
  have e: "fl (of_int n) = of_int n" using n cap by (intro fl_of_int) auto
  have p: "0 < n" "n \<le> 2 ^ 50" using n cap by auto
  have "fl (of_int n / 2) \<le> fl (of_int n * fl (1/2 + r))"
    using jitter_range [OF r] n(2) by (intro fl_mono) auto
  then show "backoff_base a cap / 2 \<le> backoff a cap r"
    by (simp add: backoff_def n e fl_halves [OF p])
  have "of_int n * fl (1/2 + r) \<le> (of_int n :: rat) * (3 / 2)"
    using jitter_range [OF r] n(2) by (intro mult_left_mono) auto
  then have "fl (of_int n * fl (1/2 + r)) \<le> fl (of_int n * 3 / 2)"
    using jitter_range [OF r] n(2) by (intro fl_mono) auto
  then show "backoff a cap r \<le> backoff_base a cap * 3 / 2"
    by (simp add: backoff_def n e fl_three_halves [OF p])
qed

lemma backoff_pos: "0 \<le> a \<Longrightarrow> 1 \<le> cap \<Longrightarrow> cap \<le> 2 ^ 50 \<Longrightarrow> 0 \<le> r \<Longrightarrow> r \<le> 1 - 1 / 2 ^ 53 \<Longrightarrow> 1/2 \<le> backoff a cap r"
  using backoff_bounds(1) [of a cap r] backoff_base_int [of a cap] 
  by (metis (no_types, lifting) divide_right_mono of_int_1_le_iff order_trans zero_le_numeral)

lemma backoff_base_uncapped: "0 \<le> a \<Longrightarrow> 2 ^ nat a \<le> cap \<Longrightarrow> backoff_base a cap = 2 ^ nat a"
  by (simp add: backoff_base_def power_int_def min_def flip: of_int_le_iff)

lemma timedelta_us_pos: assumes "1/2 \<le> d" shows "0 < timedelta_us d"
proof (cases "1 \<le> d")
  case True
  then have "1 \<le> \<lfloor>d\<rfloor>" by simp
  moreover have "0 \<le> fl (frac d * 10 ^ 6)" by (intro fl_nonneg) simp
  then have "0 \<le> round_half_even (fl (frac d * 10 ^ 6))"
    using round_half_even_mono [of 0] round_half_even_of_int [of 0] by fastforce
  ultimately have "0 < \<lfloor>d\<rfloor> * 1000000 + round_half_even (fl (frac d * 10 ^ 6))" by linarith
  then show ?thesis by (simp add: timedelta_us_def)
next
  case False
  with assms have f: "\<lfloor>d\<rfloor> = 0" by (simp add: floor_eq_iff)
  then have "frac d = d" by (simp add: frac_def)
  moreover have "fl (of_int 500000) \<le> fl (d * 10 ^ 6)" using assms by (intro fl_mono) auto
  then have "round_half_even (of_int 500000) \<le> round_half_even (fl (d * 10 ^ 6))"
    by (intro round_half_even_mono) (simp add: fl_of_int [of 500000, simplified])
  then have "500000 \<le> round_half_even (fl (d * 10 ^ 6))" by (simp only: round_half_even_of_int)
  ultimately show ?thesis by (simp add: timedelta_us_def f)
qed

context services
begin

lemma wp_backoff [wp_rules]:
  assumes "\<And>r w'. 0 \<le> r \<Longrightarrow> r \<le> 1 - 1 / 2 ^ 53 \<Longrightarrow> view w' = view w \<Longrightarrow> Q (backoff a cap r) w'"
  shows "wp (calculate_backoff_with_jitter A a cap) Q X w"
  unfolding calculate_backoff_with_jitter_def wp_bind wp_return
  by (rule wp_random) (auto intro: assms)

end

subsection \<open>Properties\<close>

text \<open>
  C21: Range of the backoff delay. For every attempt number, every cap from 1 up to
  \<open>2 ^ 50\<close> and every value the generator can return, the delay lies between half and one
  and a half times \<open>min(2 ^ attempt, max_delay)\<close>, both ends included, in exact float
  arithmetic.
\<close>
theorem backoff_range:
  assumes "services A view" and "0 \<le> attempt" and "1 \<le> max_delay" and "max_delay \<le> 2 ^ 50"
  shows "wp (calculate_backoff_with_jitter A attempt max_delay)
      (\<lambda>d w'. of_int (min (2 ^ nat attempt) max_delay) / 2 \<le> d \<and>
              d \<le> of_int (min (2 ^ nat attempt) max_delay) * 3 / 2 \<and> view w' = view w)
      (\<lambda>_ _. False) w"
proof (rule services.wp_backoff [OF assms(1)])
  fix r :: rat and w'
  assume r: "0 \<le> r" "r \<le> 1 - 1 / 2 ^ 53" and v: "view w' = view w"
  obtain n where "backoff_base attempt max_delay = of_int n" "n = min (2 ^ nat attempt) max_delay"
    using backoff_base_int [OF assms(2-4)] by metis
  with backoff_bounds [OF assms(2-4) r] v
  show "of_int (min (2 ^ nat attempt) max_delay) / 2 \<le> backoff attempt max_delay r \<and>
      backoff attempt max_delay r \<le> of_int (min (2 ^ nat attempt) max_delay) * 3 / 2 \<and> view w' = view w"
    by simp
qed

theorem backoff_range_witness:
  "wp (calculate_backoff_with_jitter (mem_app True) 3 3600)
      (\<lambda>d w'. of_int (min (2 ^ nat 3) 3600) / 2 \<le> d \<and>
              d \<le> of_int (min (2 ^ nat 3) 3600) * 3 / 2 \<and> mem_view w' = mem_view mem_init)
      (\<lambda>_ _. False) mem_init"
  by (rule backoff_range [OF mem_services]) auto

text \<open>
  The cap bounds the base, not the delay. With the default cap of 3600 seconds a job
  that retries after its twelfth attempt can be delayed for 4500 seconds, and the largest
  value of the generator gives exactly one and a half times the base.
\<close>
lemma backoff_exceeds_cap:
  "backoff 12 MAX_DELAY (3/4) = 4500 \<and> backoff 12 MAX_DELAY (1 - 1 / 2 ^ 53) = 5400"
  by code_simp

text \<open>
  A job created through the API never reaches the cap. With at most ten attempts a
  retry is scheduled after an attempt from 1 to 9, so the base is \<open>2 ^ attempt\<close> itself and
  the delay is at most 768 seconds.
\<close>
lemma backoff_of_api_job:
  assumes "1 \<le> a" and "a < m" and "m \<le> 10" and "0 \<le> r" and "r \<le> 1 - 1 / 2 ^ 53"
  shows "2 ^ nat a / 2 \<le> backoff a MAX_DELAY r \<and> backoff a MAX_DELAY r \<le> 2 ^ nat a * 3 / 2 \<and>
    backoff a MAX_DELAY r \<le> 768"
proof -
  have "(2::int) ^ nat a \<le> 2 ^ 9" using assms by (intro power_increasing) auto
  then have p: "(2::int) ^ nat a \<le> MAX_DELAY" by (simp add: MAX_DELAY_def)
  have "(2::rat) ^ nat a \<le> 2 ^ 9" using assms by (intro power_increasing) auto
  moreover have "backoff_base a MAX_DELAY = 2 ^ nat a" using assms p by (intro backoff_base_uncapped) auto
  ultimately show ?thesis
    using backoff_bounds [of a MAX_DELAY r] assms by (simp add: MAX_DELAY_def)
qed

end
