(* ===== verification/Executors.thy ===== *)
theory Executors
  imports Float64 Mem_Services
begin

section \<open>app/worker/executors: the job executors\<close>

text \<open>
  The registry maps a job type to an executor class. A class is a constructor of
  \<open>executor_class\<close>; \<open>max_execution_seconds\<close> is its class attribute and \<open>execute\<close> its method.
  An executor sleeps for a random time, may raise, and returns a result object; what it
  never does is touch the queues or the tables, which is the contract
  \<open>executor_contract\<close> the worker relies on. \<open>wait_for\<close> is \<open>asyncio.wait_for\<close>: either the
  coroutine's own outcome or \<open>TimeoutError\<close>, as the event loop's clock decides.
\<close>

datatype executor_class = EmailExecutor | PaymentExecutor | ReportExecutor

definition BASE_MAX_EXECUTION_SECONDS :: int where
  "BASE_MAX_EXECUTION_SECONDS = 300"

fun max_execution_seconds :: "executor_class \<Rightarrow> int" where
  "max_execution_seconds EmailExecutor = 30"
| "max_execution_seconds PaymentExecutor = 60"
| "max_execution_seconds ReportExecutor = 120"

text \<open>\<open>payload.get(key, default)\<close>\<close>

definition dict_get :: "json_dict \<Rightarrow> string \<Rightarrow> json \<Rightarrow> json" where
  "dict_get d k dflt = (case d k of None \<Rightarrow> dflt | Some v \<Rightarrow> v)"

definition uuid_hex :: "uuid \<Rightarrow> string" where
  "uuid_hex u = hex_pad 32 (unat u)"

definition email_execute :: "'w app \<Rightarrow> string \<Rightarrow> json_dict \<Rightarrow> ('w, json_dict) io" where
  "email_execute A jid pl =
     bind_io (read_io (rnd_uniform A (1/2) 3)) (\<lambda>d.
     seq_io (do_io (nap A d))
     (bind_io (read_io (rnd_random A)) (\<lambda>r.
     if r < fl (1/10) then
       raise_io (RuntimeError ''SMTP connection refused: upstream mail server unavailable'')
     else
       bind_io (read_io (rnd_uuid4 A)) (\<lambda>u.
       return_io [''message_id'' \<mapsto> JStr (''msg_'' @ take 8 (uuid_hex u)),
                  ''delivered'' \<mapsto> JBool True,
                  ''recipient'' \<mapsto> dict_get pl ''to'' (JStr ''unknown'')]))))"

definition payment_execute :: "'w app \<Rightarrow> string \<Rightarrow> json_dict \<Rightarrow> ('w, json_dict) io" where
  "payment_execute A jid pl =
     bind_io (read_io (rnd_uniform A 1 5)) (\<lambda>d.
     seq_io (do_io (nap A d))
     (bind_io (read_io (rnd_random A)) (\<lambda>r.
     if r < fl (3/10) then
       raise_io (RuntimeError ''Payment gateway timeout: upstream returned 504'')
     else
       bind_io (read_io (rnd_uuid4 A)) (\<lambda>u.
       return_io [''transaction_id'' \<mapsto> JStr (''txn_'' @ take 12 (uuid_hex u)),
                  ''status'' \<mapsto> JStr ''approved'',
                  ''amount'' \<mapsto> dict_get pl ''amount'' JNull]))))"

definition generate_report_sync :: "'w app \<Rightarrow> json_dict \<Rightarrow> ('w, json_dict) io" where
  "generate_report_sync A pl =
     bind_io (read_io (rnd_uniform A 1 5)) (\<lambda>d.
     seq_io (do_io (nap A d))
     (bind_io (read_io (rnd_int A 100 10000)) (\<lambda>n.
     bind_io (read_io (rnd_int A 50000 500000)) (\<lambda>size.
     bind_io (read_io (rnd_int A 10000 99999)) (\<lambda>rid.
     return_io [''rows'' \<mapsto> JInt n,
                ''format'' \<mapsto> dict_get pl ''format'' (JStr ''pdf''),
                ''size_bytes'' \<mapsto> JInt size,
                ''report_id'' \<mapsto> JStr (''rpt_'' @ str_int rid)])))))"

definition report_execute :: "'w app \<Rightarrow> string \<Rightarrow> json_dict \<Rightarrow> ('w, json_dict) io" where
  "report_execute A jid pl = generate_report_sync A pl"

fun execute :: "'w app \<Rightarrow> executor_class \<Rightarrow> string \<Rightarrow> json_dict \<Rightarrow> ('w, json_dict) io" where
  "execute A EmailExecutor jid pl = email_execute A jid pl"
| "execute A PaymentExecutor jid pl = payment_execute A jid pl"
| "execute A ReportExecutor jid pl = report_execute A jid pl"

definition wait_for :: "'w app \<Rightarrow> int \<Rightarrow> ('w, 'a) io \<Rightarrow> ('w, 'a) io" where
  "wait_for A secs m =
     bind_io (read_io (deadline_hit A secs)) (\<lambda>late. if late then raise_io TimeoutError else m)"

subsection \<open>The registry\<close>

definition EXECUTOR_REGISTRY :: "(string \<times> executor_class) list" where
  "EXECUTOR_REGISTRY =
     [(''email_send'', EmailExecutor), (''payment_retry'', PaymentExecutor), (''report_generate'', ReportExecutor)]"

text \<open>\<open>repr\<close> of ASCII text, and of a list of texts.\<close>

definition repr_char :: "char \<Rightarrow> char \<Rightarrow> string" where
  "repr_char q c =
     (if c = q \<or> c = CHR 0x5C then [CHR 0x5C, c]
      else if c = CHR 0x0A then [CHR 0x5C, CHR ''n'']
      else if c = CHR 0x0D then [CHR 0x5C, CHR ''r'']
      else if c = CHR 0x09 then [CHR 0x5C, CHR ''t'']
      else if of_char c < (32 :: nat) \<or> of_char c = (127 :: nat) then [CHR 0x5C, CHR ''x''] @ hex_pad 2 (of_char c)
      else [c])"

definition repr_str :: "string \<Rightarrow> string" where
  "repr_str s =
     (let q = (if CHR 0x27 \<in> set s \<and> CHR 0x22 \<notin> set s then CHR 0x22 else CHR 0x27)
      in q # concat (map (repr_char q) s) @ [q])"

fun join :: "string \<Rightarrow> string list \<Rightarrow> string" where
  "join sep [] = []"
| "join sep [x] = x"
| "join sep (x # xs) = x @ sep @ join sep xs"

definition repr_list :: "string list \<Rightarrow> string" where
  "repr_list xs = ''['' @ join '', '' (map repr_str xs) @ '']''"

definition get_executor :: "string \<Rightarrow> exn + executor_class" where
  "get_executor t =
     (case map_of EXECUTOR_REGISTRY t of
        None \<Rightarrow> Inl (ValueError (''Unknown job type: '' @ repr_str t @ ''. Valid types: '' @
                               repr_list (map fst EXECUTOR_REGISTRY)))
      | Some cls \<Rightarrow> Inr cls)"

subsection \<open>The contract of an executor\<close>

locale executor_contract =
  fixes view :: "'w \<Rightarrow> store" and exec :: "('w, json_dict) io"
  assumes exec_law: "wp exec (\<lambda>_ w'. view w' = view w)
      (\<lambda>e w'. view w' = view w \<and> (\<exists>m. e = RuntimeError m)) w"
begin

text \<open>Under a deadline: a result, a \<open>RuntimeError\<close> of the executor, or \<open>TimeoutError\<close>.\<close>

lemma wp_wait_for:
  assumes "reading view (deadline_hit A secs) (\<lambda>_. True)"
    and "\<And>a w'. view w' = view w \<Longrightarrow> Q a w'"
    and "\<And>e w'. view w' = view w \<Longrightarrow> e = TimeoutError \<or> (\<exists>m. e = RuntimeError m) \<Longrightarrow> X e w'"
  shows "wp (wait_for A secs exec) Q X w"
  unfolding wait_for_def wp_bind
proof (rule wp_reading [OF assms(1)])
  fix late w1
  assume w1: "view w1 = view w"
  show "wp (if late then raise_io TimeoutError else exec) Q X w1"
  proof (cases late)
    case True
    then show ?thesis by (simp add: wp_simps assms(3) w1)
  next
    case False
    have "wp exec Q X w1" by (rule wp_mono [OF exec_law]) (auto simp: w1 intro: assms(2,3))
    with False show ?thesis by simp
  qed
qed

end

context services
begin

lemma wp_uniform:
  assumes "a \<le> b" and "\<And>r w'. a \<le> r \<Longrightarrow> r \<le> b \<Longrightarrow> view w' = view w \<Longrightarrow> Q r w'"
  shows "wp (read_io (rnd_uniform A a b)) Q X w"
  using wp_reading [OF uniform_law [OF assms(1)], of w Q X] assms(2) by blast

lemma wp_randint:
  assumes "m \<le> n" and "\<And>r w'. m \<le> r \<Longrightarrow> r \<le> n \<Longrightarrow> view w' = view w \<Longrightarrow> Q r w'"
  shows "wp (read_io (rnd_int A m n)) Q X w"
  using wp_reading [OF randint_law [OF assms(1)], of w Q X] assms(2) by blast

text \<open>What each executor returns, and when it raises.\<close>

lemma wp_email:
  assumes "\<And>u w'. view w' = view w \<Longrightarrow>
      Q [''message_id'' \<mapsto> JStr (''msg_'' @ take 8 (uuid_hex u)), ''delivered'' \<mapsto> JBool True,
         ''recipient'' \<mapsto> dict_get pl ''to'' (JStr ''unknown'')] w'"
    and "\<And>w'. view w' = view w \<Longrightarrow>
      X (RuntimeError ''SMTP connection refused: upstream mail server unavailable'') w'"
  shows "wp (email_execute A jid pl) Q X w"
  unfolding email_execute_def
  by (auto simp: wp_simps nap_law simp del: append_Cons append_Nil intro!: wp_uniform wp_random wp_uuid4 assms)

lemma wp_payment:
  assumes "\<And>u w'. view w' = view w \<Longrightarrow>
      Q [''transaction_id'' \<mapsto> JStr (''txn_'' @ take 12 (uuid_hex u)), ''status'' \<mapsto> JStr ''approved'',
         ''amount'' \<mapsto> dict_get pl ''amount'' JNull] w'"
    and "\<And>w'. view w' = view w \<Longrightarrow>
      X (RuntimeError ''Payment gateway timeout: upstream returned 504'') w'"
  shows "wp (payment_execute A jid pl) Q X w"
  unfolding payment_execute_def
  by (auto simp: wp_simps nap_law simp del: append_Cons append_Nil intro!: wp_uniform wp_random wp_uuid4 assms)

lemma wp_report:
  assumes "\<And>n size rid w'. view w' = view w \<Longrightarrow> 100 \<le> n \<Longrightarrow> n \<le> 10000 \<Longrightarrow> 50000 \<le> size \<Longrightarrow> size \<le> 500000 \<Longrightarrow>
      10000 \<le> rid \<Longrightarrow> rid \<le> 99999 \<Longrightarrow>
      Q [''rows'' \<mapsto> JInt n, ''format'' \<mapsto> dict_get pl ''format'' (JStr ''pdf''), ''size_bytes'' \<mapsto> JInt size,
         ''report_id'' \<mapsto> JStr (''rpt_'' @ str_int rid)] w'"
  shows "wp (report_execute A jid pl) Q X w"
  unfolding report_execute_def generate_report_sync_def
  by (auto simp: wp_simps nap_law simp del: append_Cons append_Nil intro!: wp_uniform wp_randint assms)

end

sublocale services \<subseteq> executor: executor_contract view "execute A cls jid pl" for cls jid pl
  by unfold_locales (cases cls; auto intro!: wp_email wp_payment wp_report)

interpretation mem_exec: executor_contract mem_view "execute (mem_app True) cls jid pl" for cls jid pl
  by (rule mem.executor.executor_contract_axioms)

subsection \<open>Properties\<close>

text \<open>What a result of each executor holds.\<close>

fun result_of :: "executor_class \<Rightarrow> json_dict \<Rightarrow> json_dict \<Rightarrow> bool" where
  "result_of EmailExecutor pl r \<longleftrightarrow>
     dom r = {''message_id'', ''delivered'', ''recipient''} \<and> r ''delivered'' = Some (JBool True) \<and>
     r ''recipient'' = Some (dict_get pl ''to'' (JStr ''unknown''))"
| "result_of PaymentExecutor pl r \<longleftrightarrow>
     dom r = {''transaction_id'', ''status'', ''amount''} \<and> r ''status'' = Some (JStr ''approved'') \<and>
     r ''amount'' = Some (dict_get pl ''amount'' JNull)"
| "result_of ReportExecutor pl r \<longleftrightarrow>
     dom r = {''rows'', ''format'', ''size_bytes'', ''report_id''} \<and>
     r ''format'' = Some (dict_get pl ''format'' (JStr ''pdf'')) \<and>
     (\<exists>n. r ''rows'' = Some (JInt n) \<and> 100 \<le> n \<and> n \<le> 10000)"

context services
begin

lemma execute_result:
  "wp (execute A cls jid pl) (\<lambda>r w'. result_of cls pl r \<and> view w' = view w)
     (\<lambda>e w'. view w' = view w \<and> cls \<noteq> ReportExecutor \<and> (\<exists>m. e = RuntimeError m)) w"
proof (cases cls)
  case EmailExecutor
  then show ?thesis by (simp, intro wp_email) (simp_all, auto)
next
  case PaymentExecutor
  then show ?thesis by (simp, intro wp_payment) (simp_all, auto)
next
  case ReportExecutor
  then show ?thesis by (simp, intro wp_report) (simp_all, auto)
qed

end

text \<open>
  Outcome of an execution. Under its deadline every executor either returns a result
  with exactly the fields of its class, built from the payload, or raises \<open>TimeoutError\<close> or
  a \<open>RuntimeError\<close>; the report executor can only time out; and in every case neither a
  queue nor a table has changed.
\<close>
lemma executor_outcome:
  assumes "services A view"
  shows "wp (wait_for A (max_execution_seconds cls) (execute A cls jid pl))
      (\<lambda>r w'. result_of cls pl r \<and> view w' = view w)
      (\<lambda>e w'. view w' = view w \<and> (e = TimeoutError \<or> cls \<noteq> ReportExecutor \<and> (\<exists>m. e = RuntimeError m))) w"
  unfolding wait_for_def wp_bind
proof (rule services.wp_deadline [OF assms])
  fix late w1
  assume v: "view w1 = view w"
  have "wp (execute A cls jid pl) (\<lambda>r w'. result_of cls pl r \<and> view w' = view w)
      (\<lambda>e w'. view w' = view w \<and> (e = TimeoutError \<or> cls \<noteq> ReportExecutor \<and> (\<exists>m. e = RuntimeError m))) w1"
    by (rule wp_mono [OF services.execute_result [OF assms]]) (auto simp: v)
  then show "wp (if late then raise_io TimeoutError else execute A cls jid pl)
      (\<lambda>r w'. result_of cls pl r \<and> view w' = view w)
      (\<lambda>e w'. view w' = view w \<and> (e = TimeoutError \<or> cls \<noteq> ReportExecutor \<and> (\<exists>m. e = RuntimeError m))) w1"
    by (simp add: wp_simps v)
qed

text \<open>
  Registry lookup. A job type has an executor exactly when it is one of the three
  registered types, different types have different executors, and any other type raises a
  \<open>ValueError\<close>.
\<close>
lemma get_executor_total:
  "(case get_executor t of
      Inr cls \<Rightarrow> t = (case cls of EmailExecutor \<Rightarrow> ''email_send'' | PaymentExecutor \<Rightarrow> ''payment_retry''
                             | ReportExecutor \<Rightarrow> ''report_generate'')
    | Inl e \<Rightarrow> t \<notin> {''email_send'', ''payment_retry'', ''report_generate''} \<and>
        e = ValueError (''Unknown job type: '' @ repr_str t @
              ''. Valid types: ['' @ [CHR 0x27] @ ''email_send'' @ [CHR 0x27] @ '', '' @ [CHR 0x27] @ ''payment_retry'' @
              [CHR 0x27] @ '', '' @ [CHR 0x27] @ ''report_generate'' @ [CHR 0x27] @ '']''))"
proof -
  have "repr_list (map fst EXECUTOR_REGISTRY) = ''['' @ [CHR 0x27] @ ''email_send'' @ [CHR 0x27] @ '', '' @
      [CHR 0x27] @ ''payment_retry'' @ [CHR 0x27] @ '', '' @ [CHR 0x27] @ ''report_generate'' @ [CHR 0x27] @ '']''"
    by code_simp
  then show ?thesis by (simp add: get_executor_def EXECUTOR_REGISTRY_def split: if_splits)
qed

end
