(* ===== verification/Worker.thy ===== *)
theory Worker
  imports Lifecycle Retry_Service Executors
begin

section \<open>app/worker/loop.py: the worker\<close>

text \<open>
  One pass of \<open>worker_loop\<close> is \<open>worker_iteration\<close>: it moves the due retries to the priority
  queue (\<open>requeue_due\<close>), takes an identifier from the priority or the FIFO queue, and
  \<open>process_job\<close> runs the phases of the code: \<open>start_job\<close> (fetch and mark processing),
  \<open>run_job\<close> (execute under the deadline, then \<open>complete_job\<close>, or \<open>handle_failure\<close>). Each
  session of the code is one unit of work here. Every metric update is in, where the code
  has it; spans and log lines are left out (their context variables are in Worker_Log).
\<close>

definition uuid_io :: "string \<Rightarrow> ('w, uuid) io" where
  "uuid_io s = (case parse_uuid s of Inl e \<Rightarrow> raise_io e | Inr u \<Rightarrow> return_io u)"

subsection \<open>handle_failure\<close>

definition fail_writes :: "job \<Rightarrow> string \<Rightarrow> datetime \<Rightarrow> db_write list" where
  "fail_writes j msg t =
     [UpdateJob (job_id j) (\<lambda>r. r\<lparr>job_error := Some msg, status := status_value FAILED, completed_at := Some t\<rparr>),
      AddLog (job_id j) ''error'' (''Attempt '' @ str_int (attempts j) @ '' failed: '' @ msg),
      AddLog (job_id j) ''error'' (''Max attempts ('' @ str_int (max_attempts j) @ '') reached. Job permanently failed.'')]"

definition retry_writes :: "job \<Rightarrow> string \<Rightarrow> datetime \<Rightarrow> rat \<Rightarrow> db_write list" where
  "retry_writes j msg t delay =
     [UpdateJob (job_id j) (\<lambda>r. r\<lparr>job_error := Some msg, status := status_value QUEUED,
                                  next_retry_at := Some (t + timedelta_us delay)\<rparr>),
      AddLog (job_id j) ''error'' (''Attempt '' @ str_int (attempts j) @ '' failed: '' @ msg),
      AddLog (job_id j) ''warning'' (''Scheduled retry in '' @ fixed1 delay @ ''s (attempt '' @ str_int (attempts j) @
        ''/'' @ str_int (max_attempts j) @ '')'')]"

definition handle_failure :: "'w app \<Rightarrow> string \<Rightarrow> string \<Rightarrow> ('w, unit) io" where
  "handle_failure A jid msg =
     bind_io (uuid_io jid) (\<lambda>i.
     bind_io (db_get A i) (\<lambda>job.
     case job of
       None \<Rightarrow> return_io ()
     | Some j \<Rightarrow>
         if max_attempts j \<le> attempts j then
           bind_io (now_utc A) (\<lambda>t.
           seq_io (count_io A ''jobs_failed'' 1 [(''job_type'', job_type j), (''priority'', priority j),
                                                  (''failure_reason'', ''max_attempts_exhausted'')])
           (seq_io (updown_io A ''jobs_active'' (- 1) [(''job_type'', job_type j)])
           (db_commit A (fail_writes j msg t))))
         else
           bind_io (calculate_backoff_with_jitter A (attempts j) MAX_DELAY) (\<lambda>delay.
           bind_io (now_utc A) (\<lambda>t.
           bind_io (epoch_now A) (\<lambda>now.
           seq_io (enqueue_retry A jid (fl (now + delay)))
           (seq_io (count_io A ''jobs_retried'' 1 [(''job_type'', job_type j), (''priority'', priority j),
                                                    (''attempt_number'', str_int (attempts j))])
           (seq_io (record_io A ''retry_backoff'' delay [(''job_type'', job_type j), (''attempt_number'', str_int (attempts j))])
           (seq_io (updown_io A ''jobs_active'' (- 1) [(''job_type'', job_type j)])
           (db_commit A (retry_writes j msg t delay))))))))))"

subsection \<open>Phase 1: fetch the job and mark it processing\<close>

record claimed_job =
  cj_type :: string
  cj_payload :: json_dict
  cj_priority :: string
  cj_created_at :: datetime
  cj_started_at :: datetime

definition start_writes :: "job \<Rightarrow> string \<Rightarrow> datetime \<Rightarrow> db_write list" where
  "start_writes j source t =
     [UpdateJob (job_id j) (\<lambda>r. r\<lparr>status := status_value PROCESSING, started_at := Some t,
                                  attempts := attempts j + 1\<rparr>),
      AddLog (job_id j) ''info''
        (''Starting executor '' @ [CHR 0x27] @ job_type j @ [CHR 0x27] @ '' (attempt '' @ str_int (attempts j + 1) @ ''/'' @
         str_int (max_attempts j) @ '') from '' @ source @ '' queue'')]"

definition start_job :: "'w app \<Rightarrow> string \<Rightarrow> string \<Rightarrow> ('w, claimed_job option) io" where
  "start_job A jid source =
     bind_io (uuid_io jid) (\<lambda>i.
     bind_io (db_get A i) (\<lambda>job.
     case job of
       None \<Rightarrow> return_io None
     | Some j \<Rightarrow>
         if status j \<noteq> status_value QUEUED then return_io None
         else
           bind_io (now_utc A) (\<lambda>t.
           seq_io (db_commit A (start_writes j source t))
           (return_io (Some \<lparr>cj_type = job_type j, cj_payload = payload j, cj_priority = priority j,
                              cj_created_at = created_at j, cj_started_at = t\<rparr>)))))"

subsection \<open>Phase 2: execute, then record the outcome\<close>

definition complete_writes :: "'w app \<Rightarrow> job \<Rightarrow> json_dict \<Rightarrow> datetime \<Rightarrow> db_write list" where
  "complete_writes A j result t =
     [UpdateJob (job_id j) (\<lambda>r. r\<lparr>status := status_value COMPLETED, completed_at := Some t,
                                  job_result := Some result, job_error := None\<rparr>),
      AddLog (job_id j) ''info'' (''Completed successfully. Result: '' @ dict_text A result)]"

definition complete_job :: "'w app \<Rightarrow> string \<Rightarrow> claimed_job \<Rightarrow> json_dict \<Rightarrow> ('w, unit) io" where
  "complete_job A jid c result =
     bind_io (uuid_io jid) (\<lambda>i.
     bind_io (db_get A i) (\<lambda>job.
     case job of
       None \<Rightarrow> return_io ()
     | Some j \<Rightarrow>
         if status j = status_value CANCELLED then updown_io A ''jobs_active'' (- 1) [(''job_type'', cj_type c)]
         else
           bind_io (now_utc A) (\<lambda>t.
           seq_io (db_commit A (complete_writes A j result t))
           (seq_io (count_io A ''jobs_completed'' 1 [(''job_type'', cj_type c), (''priority'', cj_priority c)])
           (seq_io (updown_io A ''jobs_active'' (- 1) [(''job_type'', cj_type c)])
           (count_io A ''worker_loop_iterations'' 1 [(''worker_id'', hostname A), (''outcome'', ''job_processed'')]))))))"

text \<open>\<open>(until - since).total_seconds()\<close>: a count of microseconds divided as a float.\<close>

definition total_seconds :: "datetime \<Rightarrow> datetime \<Rightarrow> rat" where
  "total_seconds since until = fl (of_int (until - since) / 10 ^ 6)"

definition on_failure ::
  "'w app \<Rightarrow> executor_class \<Rightarrow> string \<Rightarrow> claimed_job \<Rightarrow> datetime \<Rightarrow> exn \<Rightarrow> ('w, unit) io" where
  "on_failure A cls jid c t_start e =
     bind_io (now_utc A) (\<lambda>t.
     seq_io (record_io A ''job_processing_duration'' (total_seconds t_start t)
               [(''job_type'', cj_type c), (''priority'', cj_priority c)])
     (if e = TimeoutError then
        seq_io (count_io A ''jobs_failed'' 1 [(''job_type'', cj_type c), (''priority'', cj_priority c),
                                               (''failure_reason'', ''timeout'')])
        (handle_failure A jid (''Execution timed out after '' @ str_int (max_execution_seconds cls) @ ''s''))
      else
        seq_io (count_io A ''jobs_failed'' 1 [(''job_type'', cj_type c), (''priority'', cj_priority c),
                                               (''failure_reason'', ''executor_error'')])
        (handle_failure A jid (exn_str e))))"

definition executor_io :: "string \<Rightarrow> ('w, executor_class) io" where
  "executor_io typ = (case get_executor typ of Inl e \<Rightarrow> raise_io e | Inr cls \<Rightarrow> return_io cls)"

definition run_job :: "'w app \<Rightarrow> string \<Rightarrow> claimed_job \<Rightarrow> ('w, unit) io" where
  "run_job A jid c =
     seq_io (record_io A ''job_wait_duration'' (total_seconds (cj_created_at c) (cj_started_at c))
               [(''job_type'', cj_type c), (''priority'', cj_priority c)])
     (seq_io (updown_io A ''jobs_active'' 1 [(''job_type'', cj_type c)])
     (bind_io (executor_io (cj_type c)) (\<lambda>cls.
      bind_io (now_utc A) (\<lambda>t_start.
      try_except
        (bind_io (wait_for A (max_execution_seconds cls) (execute A cls jid (cj_payload c))) (\<lambda>result.
         bind_io (now_utc A) (\<lambda>t.
         seq_io (record_io A ''job_processing_duration'' (total_seconds t_start t)
                   [(''job_type'', cj_type c), (''priority'', cj_priority c)])
         (seq_io (record_io A ''worker_executor_duration'' (total_seconds t_start t)
                   [(''job_type'', cj_type c), (''worker_id'', hostname A)])
         (complete_job A jid c result)))))
        (on_failure A cls jid c t_start)))))"

definition process_job :: "'w app \<Rightarrow> string \<Rightarrow> string \<Rightarrow> ('w, unit) io" where
  "process_job A jid source =
     bind_io (start_job A jid source) (\<lambda>claim.
     case claim of None \<Rightarrow> return_io () | Some c \<Rightarrow> run_job A jid c)"

subsection \<open>One pass of the loop\<close>

definition requeue_due :: "'w app \<Rightarrow> string \<Rightarrow> ('w, unit) io" where
  "requeue_due A jid =
     bind_io (uuid_io jid) (\<lambda>i.
     bind_io (db_get A i) (\<lambda>job.
     case job of
       None \<Rightarrow> return_io ()
     | Some j \<Rightarrow> if status j = status_value QUEUED then enqueue_priority A jid (priority j) '''' else return_io ()))"

definition next_job :: "'w app \<Rightarrow> ('w, (string \<times> string) option) io" where
  "next_job A =
     bind_io (dequeue_priority A) (\<lambda>r.
     if truthy r then return_io (Some (the r, ''priority''))
     else
       bind_io (dequeue_fifo A 1) (\<lambda>r'.
       if truthy r' then return_io (Some (the r', ''fifo'')) else return_io None))"

definition poll_once :: "'w app \<Rightarrow> ('w, unit) io" where
  "poll_once A =
     bind_io (drain_retry_queue A 10) (\<lambda>due.
     seq_io (for_each (requeue_due A) due)
     (bind_io (next_job A) (\<lambda>nxt.
      case nxt of
        None \<Rightarrow> count_io A ''worker_loop_iterations'' 1 [(''worker_id'', hostname A), (''outcome'', ''no_job'')]
      | Some (jid, source) \<Rightarrow> process_job A jid source)))"

subsection \<open>The two phases of a pass\<close>

definition claim_phase :: "'w app \<Rightarrow> ('w, (string \<times> claimed_job) option) io" where
  "claim_phase A =
     bind_io (drain_retry_queue A 10) (\<lambda>due.
     seq_io (for_each (requeue_due A) due)
     (bind_io (next_job A) (\<lambda>nxt.
      case nxt of
        None \<Rightarrow> seq_io (count_io A ''worker_loop_iterations'' 1 [(''worker_id'', hostname A), (''outcome'', ''no_job'')])
                 (return_io None)
      | Some (jid, source) \<Rightarrow>
          bind_io (start_job A jid source) (\<lambda>claim.
          return_io (map_option (\<lambda>c. (jid, c)) claim)))))"

text \<open>A pass is its two phases, one after the other.\<close>

lemma poll_once_phases:
  "poll_once A = bind_io (claim_phase A) (\<lambda>r. case r of None \<Rightarrow> return_io () | Some (jid, c) \<Rightarrow> run_job A jid c)"
proof -
  have "process_job A jid source = bind_io (bind_io (start_job A jid source)
      (\<lambda>claim. return_io (map_option (\<lambda>c. (jid, c)) claim)))
      (\<lambda>r. case r of None \<Rightarrow> return_io () | Some (jid, c) \<Rightarrow> run_job A jid c)" for jid source
    unfolding process_job_def bind_io_assoc bind_io_return by (rule bind_io_cong) (simp split: option.split)
  then show ?thesis
    unfolding poll_once_def claim_phase_def bind_io_assoc
    by (intro bind_io_cong) (auto simp: bind_io_assoc bind_io_return bind_io_unit split: option.split)
qed

subsection \<open>The loop\<close>

definition worker_iteration :: "'w app \<Rightarrow> ('w, unit) io" where
  "worker_iteration A =
     try_except (poll_once A)
       (\<lambda>e. seq_io (count_io A ''worker_loop_iterations'' 1 [(''worker_id'', hostname A), (''outcome'', ''error'')])
             (do_io (nap A 1)))"

text \<open>\<open>while True\<close>, for \<open>n\<close> passes.\<close>

primrec worker_loop :: "'w app \<Rightarrow> nat \<Rightarrow> ('w, unit) io" where
  "worker_loop A 0 = return_io ()"
| "worker_loop A (Suc n) = seq_io (worker_iteration A) (worker_loop A n)"

end
