(* ===== verification/Recovery.thy ===== *)
theory Recovery
  imports Worker
begin

section \<open>app/worker/recovery.py: recovery at worker start\<close>

text \<open>
  \<open>run_startup_recovery\<close> selects the rows that have been processing for longer than the
  threshold, decides for each (\<open>recover_one\<close>) between failing and re-queueing it, and
  commits all the updates together at the end. A row whose \<open>started_at\<close> is null is not
  selected: in SQL \<open>NULL < threshold\<close> is not true.
\<close>

definition stuck :: "datetime \<Rightarrow> job \<Rightarrow> bool" where
  "stuck threshold j \<longleftrightarrow>
     status j = status_value PROCESSING \<and> (case started_at j of None \<Rightarrow> False | Some t \<Rightarrow> t < threshold)"

definition recover_fail_writes :: "job \<Rightarrow> datetime \<Rightarrow> db_write list" where
  "recover_fail_writes j t =
     [UpdateJob (job_id j) (\<lambda>r. r\<lparr>attempts := attempts j + 1, status := status_value FAILED,
        completed_at := Some t, job_error := Some ''Worker crashed; max attempts exhausted during recovery''\<rparr>),
      AddLog (job_id j) ''error''
        (''Permanently failed during startup recovery after '' @ str_int (attempts j + 1) @ '' attempts'')]"

definition recover_retry_writes :: "job \<Rightarrow> datetime \<Rightarrow> rat \<Rightarrow> db_write list" where
  "recover_retry_writes j t delay =
     [UpdateJob (job_id j) (\<lambda>r. r\<lparr>attempts := attempts j + 1, status := status_value QUEUED,
        next_retry_at := Some (t + timedelta_us delay)\<rparr>),
      AddLog (job_id j) ''warning''
        (''Re-queued by startup recovery (was stuck in processing). Retry in '' @ fixed1 delay @ ''s'')]"

definition recover_one :: "'w app \<Rightarrow> job \<Rightarrow> ('w, db_write list) io" where
  "recover_one A j =
     (if max_attempts j \<le> attempts j + 1 then
        bind_io (now_utc A) (\<lambda>t.
        seq_io (count_io A ''worker_recovery_actions'' 1 [(''action'', ''failed_terminal'')])
        (return_io (recover_fail_writes j t)))
      else
        bind_io (calculate_backoff_with_jitter A (attempts j + 1) MAX_DELAY) (\<lambda>delay.
        bind_io (now_utc A) (\<lambda>t.
        bind_io (epoch_now A) (\<lambda>now.
        seq_io (enqueue_retry A (str_uuid (job_id j)) (fl (now + delay)))
        (seq_io (count_io A ''worker_recovery_actions'' 1 [(''action'', ''requeued'')])
        (return_io (recover_retry_writes j t delay)))))))"

primrec recover_each :: "'w app \<Rightarrow> job list \<Rightarrow> ('w, db_write list) io" where
  "recover_each A [] = return_io []"
| "recover_each A (j # js) =
     bind_io (recover_one A j) (\<lambda>ws. bind_io (recover_each A js) (\<lambda>ws'. return_io (ws @ ws')))"

definition run_startup_recovery :: "'w app \<Rightarrow> int \<Rightarrow> ('w, unit) io" where
  "run_startup_recovery A threshold_minutes =
     bind_io (now_utc A) (\<lambda>t.
     bind_io (db_where A (stuck (t - threshold_minutes * 60 * 10 ^ 6))) (\<lambda>stuck_jobs.
     if stuck_jobs = [] then return_io ()
     else bind_io (recover_each A stuck_jobs) (\<lambda>ws. db_commit A ws)))"

end
