(* ===== verification/Api.thy ===== *)
theory Api
  imports Job_Service Executors
begin

section \<open>app/api/v1: the HTTP endpoints\<close>

text \<open>
  An endpoint is a coroutine that returns a status code, response headers and a body, or
  raises: \<open>HTTPException\<close> is how it answers with an error. The rate limiter of \<open>slowapi\<close>
  and the request validation of FastAPI are outside the repository: the limiter's verdict is
  the argument \<open>limited\<close> (the exception it raises, if it does), and the declared bounds of
  the query parameters are \<open>query_ok\<close>.
\<close>

record 'a response =
  status_code :: nat
  headers :: "(string \<times> string) list"
  body :: 'a

definition VALID_TYPES :: "string set" where
  "VALID_TYPES = set (map fst EXECUTOR_REGISTRY)"

definition VALID_STATUSES :: "string set" where
  "VALID_STATUSES = set (map status_value all_statuses)"

definition VALID_PRIORITIES :: "string set" where
  "VALID_PRIORITIES = {''high'', ''medium'', ''low''}"

definition create_job_endpoint :: "'w app \<Rightarrow> exn option \<Rightarrow> job_create \<Rightarrow> ('w, job_read response) io" where
  "create_job_endpoint A limited jc =
     (case limited of
        Some e \<Rightarrow> raise_io e
      | None \<Rightarrow>
          if jc_type jc \<notin> VALID_TYPES then
            raise_io (HTTPException 422 (''Unknown job type '' @ [CHR 0x27] @ jc_type jc @ [CHR 0x27] @ ''. Valid types: '' @
              repr_list (sort (map fst EXECUTOR_REGISTRY))))
          else if jc_priority jc \<notin> VALID_PRIORITIES then
            raise_io (HTTPException 422 (''Invalid priority '' @ [CHR 0x27] @ jc_priority jc @ [CHR 0x27] @
              ''. Must be one of: high, medium, low''))
          else
            bind_io (create_job A jc) (\<lambda>(job, is_new).
            return_io \<lparr>status_code = (if is_new then 201 else 200),
                       headers = (if is_new then [] else [(''X-Idempotency-Replay'', ''true'')]),
                       body = job_read_of job\<rparr>))"

definition query_ok :: "int \<Rightarrow> int \<Rightarrow> bool" where
  "query_ok pg psize \<longleftrightarrow> 1 \<le> pg \<and> 1 \<le> psize \<and> psize \<le> 100"

definition list_jobs_endpoint ::
  "'w app \<Rightarrow> string option \<Rightarrow> string option \<Rightarrow> string option \<Rightarrow> int \<Rightarrow> int \<Rightarrow> ('w, job_list_response response) io" where
  "list_jobs_endpoint A st ty pr pg psize =
     (if truthy st \<and> the st \<notin> VALID_STATUSES then
        raise_io (HTTPException 422 (''Invalid status '' @ [CHR 0x27] @ the st @ [CHR 0x27]))
      else if truthy pr \<and> the pr \<notin> VALID_PRIORITIES then
        raise_io (HTTPException 422 (''Invalid priority '' @ [CHR 0x27] @ the pr @ [CHR 0x27]))
      else
        bind_io (list_jobs A st ty pr pg psize) (\<lambda>r.
        return_io \<lparr>status_code = 200, headers = [], body = r\<rparr>))"

definition get_job_endpoint :: "'w app \<Rightarrow> uuid \<Rightarrow> ('w, job_detail response) io" where
  "get_job_endpoint A i =
     bind_io (get_job A i) (\<lambda>job.
     case job of
       None \<Rightarrow> raise_io (HTTPException 404 ''Job not found'')
     | Some d \<Rightarrow> return_io \<lparr>status_code = 200, headers = [], body = d\<rparr>)"

definition cancel_job_endpoint :: "'w app \<Rightarrow> uuid \<Rightarrow> ('w, job_read response) io" where
  "cancel_job_endpoint A i =
     bind_io (cancel_job A i) (\<lambda>job.
     case job of
       None \<Rightarrow> raise_io (HTTPException 404 ''Job not found'')
     | Some j \<Rightarrow>
         if status j \<notin> {status_value QUEUED, status_value PROCESSING, status_value CANCELLED} then
           raise_io (HTTPException 409 (''Cannot cancel job in status '' @ [CHR 0x27] @ status j @ [CHR 0x27]))
         else return_io \<lparr>status_code = 200, headers = [], body = job_read_of j\<rparr>)"

subsection \<open>metrics.py\<close>

record queue_depths =
  fifo_depth :: nat
  priority_depth :: nat
  retry_depth :: nat

record metrics_read =
  counts_by_status :: "(string \<times> nat) list"
  avg_processing_time_seconds :: "rat option"
  queue_depth_counts :: queue_depths

fun add_counts :: "(string \<times> nat) list \<Rightarrow> (string \<times> nat) list \<Rightarrow> (string \<times> nat) list" where
  "add_counts [] counts = counts"
| "add_counts ((st, n) # rs) counts = add_counts rs (AList.update st n counts)"

definition get_metrics :: "'w app \<Rightarrow> ('w, metrics_read response) io" where
  "get_metrics A =
     bind_io (db_status_counts A) (\<lambda>rs.
     bind_io (db_avg_seconds A) (\<lambda>avg.
     bind_io (llen A FIFO_KEY) (\<lambda>f.
     bind_io (zcard A PRIORITY_KEY) (\<lambda>p.
     bind_io (zcard A RETRY_KEY) (\<lambda>r.
     return_io \<lparr>status_code = 200, headers = [],
       body = \<lparr>counts_by_status = add_counts rs (map (\<lambda>s. (status_value s, 0)) all_statuses),
               avg_processing_time_seconds = map_option fl avg,
               queue_depth_counts = \<lparr>fifo_depth = f, priority_depth = p, retry_depth = r\<rparr>\<rparr>\<rparr>)))))"

subsection \<open>Contracts of the endpoints\<close>

definition acceptable :: "job_create \<Rightarrow> bool" where
  "acceptable jc \<longleftrightarrow>
     jc_type jc \<in> {''email_send'', ''payment_retry'', ''report_generate''} \<and> jc_priority jc \<in> {''high'', ''medium'', ''low''}"

lemma acceptable_iff: "acceptable jc \<longleftrightarrow> jc_type jc \<in> VALID_TYPES \<and> jc_priority jc \<in> VALID_PRIORITIES"
  by (auto simp: acceptable_def VALID_TYPES_def VALID_PRIORITIES_def EXECUTOR_REGISTRY_def)

lemma valid_statuses: "VALID_STATUSES = {''queued'', ''processing'', ''completed'', ''failed'', ''cancelled''}"
  by (auto simp: VALID_STATUSES_def all_statuses_def)

lemma map_of_add_counts:
  "distinct (map fst rs) \<Longrightarrow>
   map_of (add_counts rs base) k = (case map_of rs k of Some n \<Rightarrow> Some n | None \<Rightarrow> map_of base k)"
proof (induction rs arbitrary: base)
  case Nil
  then show ?case by simp
next
  case (Cons p rs)
  obtain st n where p: "p = (st, n)" by (cases p)
  have "map_of rs st = None" using Cons.prems by (simp add: p map_of_eq_None_iff)
  then show ?case using Cons by (auto simp: p update_conv' split: option.split)
qed

lemma initial_counts:
  "map_of (map (\<lambda>s. (status_value s, 0 :: nat)) all_statuses) k = (if k \<in> range status_value then Some 0 else None)"
proof -
  have "range status_value = status_value ` set all_statuses" by simp
  then show ?thesis by (simp only: all_statuses_def) auto
qed

lemma status_counts_map:
  assumes "status_counted s rs s'"
  shows "map_of rs st = (let n = card (matching (\<lambda>j. status j = st) s) in if 0 < n then Some n else None)"
  using assms by (auto simp: status_counted_def Let_def map_of_eq_None_iff intro!: map_of_is_SomeI)

context services
begin

lemma create_endpoint_answers:
  "wp (create_job_endpoint A None jc)
     (\<lambda>r w'. acceptable jc \<and>
        (status_code r = 201 \<and> headers r = [] \<and> (\<exists>j. inserted jc (view w) j (view w') \<and> body r = job_read_of j) \<or>
         status_code r = 200 \<and> headers r = [(''X-Idempotency-Replay'', ''true'')] \<and>
         (\<exists>j \<in> ran (rows (view w)). idempotency_key j = jc_idempotency_key jc \<and> body r = job_read_of j) \<and>
         data (view w') = data (view w)))
     (\<lambda>e w'. if acceptable jc then rows (view w') = rows (view w) \<or> (\<exists>j. inserted jc (view w) j (view w'))
             else (\<exists>m. e = HTTPException 422 m) \<and> view w' = view w) w"
proof (cases "acceptable jc")
  case True
  then have v: "\<not> jc_type jc \<notin> VALID_TYPES" "\<not> jc_priority jc \<notin> VALID_PRIORITIES" by (auto simp: acceptable_iff)
  show ?thesis
    unfolding create_job_endpoint_def option.case if_not_P [OF v(1)] if_not_P [OF v(2)] wp_bind
    by (rule wp_mono [OF create_outcomes]) (use True in \<open>auto simp: wp_simps split: if_splits\<close>)
next
  case False
  then show ?thesis
    by (auto simp: create_job_endpoint_def wp_simps acceptable_iff)
qed

end

context reliable_services
begin

lemma cancel_endpoint_answers:
  assumes "keyed_by_id (rows (view w))"
  shows "wp (cancel_job_endpoint A i)
     (\<lambda>r w'. status_code r = 200 \<and>
        (\<exists>j. rows (view w) i = Some j \<and> status j \<in> {''queued'', ''processing'', ''cancelled''} \<and>
           body r = job_read_of (j\<lparr>status := ''cancelled''\<rparr>) \<and>
           rows (view w') = (rows (view w))(i \<mapsto> j\<lparr>status := ''cancelled''\<rparr>)))
     (\<lambda>e w'. view w' = view w \<and>
        (case rows (view w) i of
           None \<Rightarrow> e = HTTPException 404 ''Job not found''
         | Some j \<Rightarrow> status j \<notin> {''queued'', ''processing'', ''cancelled''} \<and>
             e = HTTPException 409 (''Cannot cancel job in status '' @ [CHR 0x27] @ status j @ [CHR 0x27]))) w"
  unfolding cancel_job_endpoint_def wp_bind
proof (rule wp_cancel_total [OF assms])
  fix j w'
  assume j: "rows (view w) i = Some j" "status j = ''queued'' \<or> status j = ''processing''"
    and d: "data (view w') = zset_del RETRY_KEY (str_uuid i) (zset_del PRIORITY_KEY (str_uuid i)
          (list_put FIFO_KEY (removeAll (str_uuid i) (lists (view w) FIFO_KEY))
            ((data (view w))\<lparr>rows := (rows (view w))(i \<mapsto> j\<lparr>status := ''cancelled''\<rparr>)\<rparr>)))"
  have "rows (data (view w')) = (rows (view w))(i \<mapsto> j\<lparr>status := ''cancelled''\<rparr>)" unfolding d by simp
  then show "wp (case Some (j\<lparr>status := ''cancelled''\<rparr>) of None \<Rightarrow> raise_io (HTTPException 404 ''Job not found'')
     | Some j \<Rightarrow>
         if status j \<notin> {status_value QUEUED, status_value PROCESSING, status_value CANCELLED} then
           raise_io (HTTPException 409 (''Cannot cancel job in status '' @ [CHR 0x27] @ status j @ [CHR 0x27]))
         else return_io \<lparr>status_code = 200, headers = [], body = job_read_of j\<rparr>)
     (\<lambda>r w'. status_code r = 200 \<and>
        (\<exists>j. rows (view w) i = Some j \<and> status j \<in> {''queued'', ''processing'', ''cancelled''} \<and>
           body r = job_read_of (j\<lparr>status := ''cancelled''\<rparr>) \<and>
           rows (view w') = (rows (view w))(i \<mapsto> j\<lparr>status := ''cancelled''\<rparr>)))
     (\<lambda>e w'. view w' = view w \<and>
        (case rows (view w) i of
           None \<Rightarrow> e = HTTPException 404 ''Job not found''
         | Some j \<Rightarrow> status j \<notin> {''queued'', ''processing'', ''cancelled''} \<and>
             e = HTTPException 409 (''Cannot cancel job in status '' @ [CHR 0x27] @ status j @ [CHR 0x27]))) w'"
    using j by (auto simp: wp_return)
next
  fix j w'
  assume j: "rows (view w) i = Some j" "status j \<noteq> ''queued''" "status j \<noteq> ''processing''" "view w' = view w"
  have c: "j\<lparr>status := ''cancelled''\<rparr> = j" if "status j = ''cancelled''" using that by simp
  show "wp (case Some j of None \<Rightarrow> raise_io (HTTPException 404 ''Job not found'')
     | Some j \<Rightarrow>
         if status j \<notin> {status_value QUEUED, status_value PROCESSING, status_value CANCELLED} then
           raise_io (HTTPException 409 (''Cannot cancel job in status '' @ [CHR 0x27] @ status j @ [CHR 0x27]))
         else return_io \<lparr>status_code = 200, headers = [], body = job_read_of j\<rparr>)
     (\<lambda>r w'. status_code r = 200 \<and>
        (\<exists>j. rows (view w) i = Some j \<and> status j \<in> {''queued'', ''processing'', ''cancelled''} \<and>
           body r = job_read_of (j\<lparr>status := ''cancelled''\<rparr>) \<and>
           rows (view w') = (rows (view w))(i \<mapsto> j\<lparr>status := ''cancelled''\<rparr>)))
     (\<lambda>e w'. view w' = view w \<and>
        (case rows (view w) i of
           None \<Rightarrow> e = HTTPException 404 ''Job not found''
         | Some j \<Rightarrow> status j \<notin> {''queued'', ''processing'', ''cancelled''} \<and>
             e = HTTPException 409 (''Cannot cancel job in status '' @ [CHR 0x27] @ status j @ [CHR 0x27]))) w'"
  proof (cases "status j = ''cancelled''")
    case True
    then show ?thesis using j by (simp add: wp_return fun_upd_idem c [OF True])
  next
    case False
    then show ?thesis using j by (simp add: wp_raise)
  qed
qed (simp add: wp_raise)

end

context reliable_services
begin

lemma metrics_answer:
  assumes "\<forall>j \<in> ran (rows (view w)). status j \<in> range status_value"
  shows "wp (get_metrics A)
     (\<lambda>r w'. view w' = view w \<and>
        (\<forall>s. map_of (counts_by_status (body r)) (status_value s) =
               Some (card {j \<in> ran (rows (view w)). status j = status_value s})) \<and>
        dom (map_of (counts_by_status (body r))) = range status_value \<and>
        queue_depth_counts (body r) =
          \<lparr>fifo_depth = length (lists (view w) FIFO_KEY), priority_depth = card (dom (zsets (view w) PRIORITY_KEY)),
           retry_depth = card (dom (zsets (view w) RETRY_KEY))\<rparr>)
     (\<lambda>_ _. False) w"
  unfolding get_metrics_def wp_bind wp_return
proof (rule wp_call_total [OF status_counts_law query_total(6)], rule wp_call_total [OF avg_law query_total(7)],
    rule wp_call_total [OF llen_law redis_total(9)], rule wp_call_total [OF zcard_law redis_total(5)],
    rule wp_call_total [OF zcard_law redis_total(5)])
  fix rs w1 avg w2 f w3 p w4 r w5
  assume rs: "status_counted (view w) rs (view w1)" and "averaged (view w1) avg (view w2)"
    and "view w3 = view w2 \<and> f = length (lists (view w2) FIFO_KEY)"
    and "view w4 = view w3 \<and> p = card (dom (zsets (view w3) PRIORITY_KEY))"
    and "view w5 = view w4 \<and> r = card (dom (zsets (view w4) RETRY_KEY))"
  then have v: "view w5 = view w" "f = length (lists (view w) FIFO_KEY)"
    "p = card (dom (zsets (view w) PRIORITY_KEY))" "r = card (dom (zsets (view w) RETRY_KEY))"
    by (auto simp: status_counted_def averaged_def)
  let ?c = "add_counts rs (map (\<lambda>s. (status_value s, 0)) all_statuses)"
  have "distinct (map fst rs)" using rs by (simp add: status_counted_def)
  then have c: "map_of ?c st = (if 0 < card (matching (\<lambda>j. status j = st) (view w))
      then Some (card (matching (\<lambda>j. status j = st) (view w)))
      else if st \<in> range status_value then Some 0 else None)" for st
    by (simp add: map_of_add_counts status_counts_map [OF rs] initial_counts Let_def)
  have none: "card (matching (\<lambda>j. status j = st) (view w)) = 0" if "st \<notin> range status_value" for st
  proof -
    have "matching (\<lambda>j. status j = st) (view w) = {}" using that assms by (auto simp: matching_def)
    then show ?thesis by simp
  qed
  have "dom (map_of ?c) = range status_value"
    using none by (fastforce simp: c dom_def split: if_splits)
  then show "view w5 = view w \<and>
        (\<forall>s. map_of (counts_by_status (body \<lparr>status_code = 200, headers = [],
            body = \<lparr>counts_by_status = ?c, avg_processing_time_seconds = map_option fl avg,
               queue_depth_counts = \<lparr>fifo_depth = f, priority_depth = p, retry_depth = r\<rparr>\<rparr>\<rparr>)) (status_value s) =
               Some (card {j \<in> ran (rows (view w)). status j = status_value s})) \<and>
        dom (map_of (counts_by_status (body \<lparr>status_code = 200, headers = [],
            body = \<lparr>counts_by_status = ?c, avg_processing_time_seconds = map_option fl avg,
               queue_depth_counts = \<lparr>fifo_depth = f, priority_depth = p, retry_depth = r\<rparr>\<rparr>\<rparr>))) = range status_value \<and>
        queue_depth_counts (body \<lparr>status_code = 200, headers = [],
            body = \<lparr>counts_by_status = ?c, avg_processing_time_seconds = map_option fl avg,
               queue_depth_counts = \<lparr>fifo_depth = f, priority_depth = p, retry_depth = r\<rparr>\<rparr>\<rparr>) =
          \<lparr>fifo_depth = length (lists (view w) FIFO_KEY), priority_depth = card (dom (zsets (view w) PRIORITY_KEY)),
           retry_depth = card (dom (zsets (view w) RETRY_KEY))\<rparr>"
    using v by (auto simp: c matching_def)
qed

end

subsection \<open>Properties\<close>

text \<open>
  C22: The create endpoint. Within the rate limit, an unknown type or priority is answered
  with 422 and nothing happens. Any other request is answered with 201 and the new row, which
  no row conflicts with, or with 200, the replay header and the row of the table that has the
  request's idempotency key, and then nothing has changed. When a service fails the rows are
  as before or the one row has been inserted.
\<close>
theorem create_endpoint_spec:
  assumes "services A view"
  shows "wp (create_job_endpoint A None jc)
     (\<lambda>r w'. acceptable jc \<and>
        (status_code r = 201 \<and> headers r = [] \<and> (\<exists>j. inserted jc (view w) j (view w') \<and> body r = job_read_of j) \<or>
         status_code r = 200 \<and> headers r = [(''X-Idempotency-Replay'', ''true'')] \<and>
         (\<exists>j \<in> ran (rows (view w)). idempotency_key j = jc_idempotency_key jc \<and> body r = job_read_of j) \<and>
         data (view w') = data (view w)))
     (\<lambda>e w'. if acceptable jc then rows (view w') = rows (view w) \<or> (\<exists>j. inserted jc (view w) j (view w'))
             else (\<exists>m. e = HTTPException 422 m) \<and> view w' = view w) w"
  by (rule services.create_endpoint_answers [OF assms])

theorem create_endpoint_spec_witness:
  "wp (create_job_endpoint (mem_app True) None sample_request)
     (\<lambda>r w'. acceptable sample_request \<and>
        (status_code r = 201 \<and> headers r = [] \<and>
           (\<exists>j. inserted sample_request (mem_view mem_init) j (mem_view w') \<and> body r = job_read_of j) \<or>
         status_code r = 200 \<and> headers r = [(''X-Idempotency-Replay'', ''true'')] \<and>
         (\<exists>j \<in> ran (rows (mem_view mem_init)). idempotency_key j = jc_idempotency_key sample_request \<and> body r = job_read_of j) \<and>
         data (mem_view w') = data (mem_view mem_init)))
     (\<lambda>e w'. if acceptable sample_request
             then rows (mem_view w') = rows (mem_view mem_init) \<or>
                  (\<exists>j. inserted sample_request (mem_view mem_init) j (mem_view w'))
             else (\<exists>m. e = HTTPException 422 m) \<and> mem_view w' = mem_view mem_init) mem_init"
  by (rule create_endpoint_spec [OF mem_services])

text \<open>
  C23: The cancel endpoint. With services that do not fail it answers 200 with the
  cancelled job when the job was queued, processing or already cancelled, 404 when there is
  none, and 409 naming the status otherwise; an error answer changes nothing.
\<close>
theorem cancel_endpoint_spec:
  assumes "reliable_services A view" and "keyed_by_id (rows (view w))"
  shows "wp (cancel_job_endpoint A i)
     (\<lambda>r w'. status_code r = 200 \<and>
        (\<exists>j. rows (view w) i = Some j \<and> status j \<in> {''queued'', ''processing'', ''cancelled''} \<and>
           body r = job_read_of (j\<lparr>status := ''cancelled''\<rparr>) \<and>
           rows (view w') = (rows (view w))(i \<mapsto> j\<lparr>status := ''cancelled''\<rparr>)))
     (\<lambda>e w'. view w' = view w \<and>
        (case rows (view w) i of
           None \<Rightarrow> e = HTTPException 404 ''Job not found''
         | Some j \<Rightarrow> status j \<notin> {''queued'', ''processing'', ''cancelled''} \<and>
             e = HTTPException 409 (''Cannot cancel job in status '' @ [CHR 0x27] @ status j @ [CHR 0x27]))) w"
  by (rule reliable_services.cancel_endpoint_answers [OF assms])

theorem cancel_endpoint_spec_witness:
  "wp (cancel_job_endpoint (mem_app False) 7)
     (\<lambda>r w'. status_code r = 200 \<and>
        (\<exists>j. rows (mem_view sample_mem) 7 = Some j \<and> status j \<in> {''queued'', ''processing'', ''cancelled''} \<and>
           body r = job_read_of (j\<lparr>status := ''cancelled''\<rparr>) \<and>
           rows (mem_view w') = (rows (mem_view sample_mem))(7 \<mapsto> j\<lparr>status := ''cancelled''\<rparr>)))
     (\<lambda>e w'. mem_view w' = mem_view sample_mem \<and>
        (case rows (mem_view sample_mem) 7 of
           None \<Rightarrow> e = HTTPException 404 ''Job not found''
         | Some j \<Rightarrow> status j \<notin> {''queued'', ''processing'', ''cancelled''} \<and>
             e = HTTPException 409 (''Cannot cancel job in status '' @ [CHR 0x27] @ status j @ [CHR 0x27]))) sample_mem"
  by (rule cancel_endpoint_spec [OF mem_reliable_services sample_keyed])

text \<open>
  C25: The metrics endpoint. With services that do not fail, and a table whose statuses are
  the five of \<open>JobStatus\<close>, the answer counts the rows of each of the five statuses, zero
  included, names no other status, and gives the three queue lengths.
\<close>
theorem get_metrics_spec:
  assumes "reliable_services A view" and "\<forall>j \<in> ran (rows (view w)). status j \<in> range status_value"
  shows "wp (get_metrics A)
     (\<lambda>r w'. view w' = view w \<and>
        (\<forall>s. map_of (counts_by_status (body r)) (status_value s) =
               Some (card {j \<in> ran (rows (view w)). status j = status_value s})) \<and>
        dom (map_of (counts_by_status (body r))) = range status_value \<and>
        queue_depth_counts (body r) =
          \<lparr>fifo_depth = length (lists (view w) FIFO_KEY), priority_depth = card (dom (zsets (view w) PRIORITY_KEY)),
           retry_depth = card (dom (zsets (view w) RETRY_KEY))\<rparr>)
     (\<lambda>_ _. False) w"
  by (rule reliable_services.metrics_answer [OF assms])

theorem get_metrics_spec_witness:
  "wp (get_metrics (mem_app False))
     (\<lambda>r w'. mem_view w' = mem_view sample_mem \<and>
        (\<forall>s. map_of (counts_by_status (body r)) (status_value s) =
               Some (card {j \<in> ran (rows (mem_view sample_mem)). status j = status_value s})) \<and>
        dom (map_of (counts_by_status (body r))) = range status_value \<and>
        queue_depth_counts (body r) =
          \<lparr>fifo_depth = length (lists (mem_view sample_mem) FIFO_KEY),
           priority_depth = card (dom (zsets (mem_view sample_mem) PRIORITY_KEY)),
           retry_depth = card (dom (zsets (mem_view sample_mem) RETRY_KEY))\<rparr>)
     (\<lambda>_ _. False) sample_mem"
proof (rule get_metrics_spec [OF mem_reliable_services])
  have "status sample_row \<in> range status_value"
    by (rule range_eqI [of _ _ QUEUED]) (simp add: sample_row_def)
  then show "\<forall>j \<in> ran (rows (mem_view sample_mem)). status j \<in> range status_value"
    by (auto simp: sample_mem_def)
qed

end
