(* ===== verification/Refinement.thy ===== *)
theory Refinement
  imports Recovery Api
begin

section \<open>Every operation implements the state machine\<close>

text \<open>
  \<open>evolves_at view t m\<close>: started where the table is \<open>t\<close>, the coroutine \<open>m\<close> leaves the
  table where a sequence of \<open>table_step\<close>s leads, whether it returns or raises. The rules in
  \<open>evolve_rules\<close> follow the control structure; the only real step is a commit, whose update
  has to be one of \<open>row_step\<close> on the row that was loaded. The services may fail at any
  command.
\<close>

named_theorems evolve_rules \<open>coroutines that take steps of the state machine\<close>

definition evolves_at :: "('w \<Rightarrow> store) \<Rightarrow> table \<Rightarrow> ('w, 'a) io \<Rightarrow> bool" where
  "evolves_at view t m \<longleftrightarrow>
     (\<forall>w. rows (view w) = t \<longrightarrow>
        wp m (\<lambda>_ w'. table_step\<^sup>*\<^sup>* t (rows (view w'))) (\<lambda>_ w'. table_step\<^sup>*\<^sup>* t (rows (view w'))) w)"

definition evolves :: "('w \<Rightarrow> store) \<Rightarrow> ('w, 'a) io \<Rightarrow> bool" where
  "evolves view m \<longleftrightarrow> (\<forall>t. good_table t \<longrightarrow> evolves_at view t m)"

lemma evolvesD: "evolves view m \<Longrightarrow> good_table t \<Longrightarrow> evolves_at view t m"
  by (simp add: evolves_def)

lemma evolves_wp:
  assumes "evolves view m" and "good_table (rows (view w))"
  shows "wp m (\<lambda>_ w'. table_step\<^sup>*\<^sup>* (rows (view w)) (rows (view w')))
             (\<lambda>_ w'. table_step\<^sup>*\<^sup>* (rows (view w)) (rows (view w'))) w"
  using assms by (simp add: evolves_def evolves_at_def)

lemma evolves_at_keeps:
  assumes "keeps_db view m" shows "evolves_at view t m"
  unfolding evolves_at_def by (auto intro: wp_keeps_db [OF assms])

lemma evolves_at_keeps_bind:
  assumes "keeps_db view m" and "\<And>a. evolves_at view t (f a)"
  shows "evolves_at view t (bind_io m f)"
  unfolding evolves_at_def wp_bind
  by (intro allI impI, rule wp_keeps_db [OF assms(1)]) (use assms(2) in \<open>auto simp: evolves_at_def\<close>)

lemma evolves_at_bind:
  assumes "evolves_at view t m" and "\<And>a t'. table_step\<^sup>*\<^sup>* t t' \<Longrightarrow> evolves_at view t' (f a)"
  shows "evolves_at view t (bind_io m f)"
  unfolding evolves_at_def wp_bind
proof (intro allI impI)
  fix w assume w: "rows (view w) = t"
  have "wp m (\<lambda>_ w'. table_step\<^sup>*\<^sup>* t (rows (view w'))) (\<lambda>_ w'. table_step\<^sup>*\<^sup>* t (rows (view w'))) w"
    using assms(1) w by (simp add: evolves_at_def)
  then show "wp m (\<lambda>a. wp (f a) (\<lambda>_ w'. table_step\<^sup>*\<^sup>* t (rows (view w'))) (\<lambda>_ w'. table_step\<^sup>*\<^sup>* t (rows (view w'))))
      (\<lambda>_ w'. table_step\<^sup>*\<^sup>* t (rows (view w'))) w"
  proof (rule wp_mono)
    fix a w1 assume s: "table_step\<^sup>*\<^sup>* t (rows (view w1))"
    have "wp (f a) (\<lambda>_ w'. table_step\<^sup>*\<^sup>* (rows (view w1)) (rows (view w')))
        (\<lambda>_ w'. table_step\<^sup>*\<^sup>* (rows (view w1)) (rows (view w'))) w1"
      using assms(2) [OF s] by (simp add: evolves_at_def)
    then show "wp (f a) (\<lambda>_ w'. table_step\<^sup>*\<^sup>* t (rows (view w'))) (\<lambda>_ w'. table_step\<^sup>*\<^sup>* t (rows (view w'))) w1"
      by (rule wp_mono) (use s in \<open>auto intro: rtranclp_trans\<close>)
  qed
qed

lemma evolves_bind [evolve_rules]:
  assumes "evolves view m" and "\<And>a. evolves view (f a)"
  shows "evolves view (bind_io m f)"
  unfolding evolves_def
  by (intro allI impI evolves_at_bind) (use assms in \<open>auto simp: evolves_def dest: good_table_steps\<close>)

lemma evolves_try_except [evolve_rules]:
  assumes "evolves view m" and "\<And>e. evolves view (h e)"
  shows "evolves view (try_except m h)"
  unfolding evolves_def evolves_at_def wp_try_except
proof (intro allI impI)
  fix t w assume g: "good_table t" and w: "rows (view w) = t"
  have "wp m (\<lambda>_ w'. table_step\<^sup>*\<^sup>* t (rows (view w'))) (\<lambda>_ w'. table_step\<^sup>*\<^sup>* t (rows (view w'))) w"
    using evolves_wp [OF assms(1)] g w by blast
  then show "wp m (\<lambda>_ w'. table_step\<^sup>*\<^sup>* t (rows (view w')))
      (\<lambda>e. wp (h e) (\<lambda>_ w'. table_step\<^sup>*\<^sup>* t (rows (view w'))) (\<lambda>_ w'. table_step\<^sup>*\<^sup>* t (rows (view w')))) w"
  proof (rule wp_mono)
    fix e w1 assume s: "table_step\<^sup>*\<^sup>* t (rows (view w1))"
    show "wp (h e) (\<lambda>_ w'. table_step\<^sup>*\<^sup>* t (rows (view w'))) (\<lambda>_ w'. table_step\<^sup>*\<^sup>* t (rows (view w'))) w1"
      by (rule wp_mono [OF evolves_wp [OF assms(2) good_table_steps [OF s g]]])
         (use s in \<open>auto intro: rtranclp_trans\<close>)
  qed
qed

lemma evolves_keeps: "keeps_db view m \<Longrightarrow> evolves view m"
  by (simp add: evolves_def evolves_at_keeps)

lemma evolves_if [evolve_rules]:
  "(b \<Longrightarrow> evolves view m) \<Longrightarrow> (\<not> b \<Longrightarrow> evolves view n) \<Longrightarrow> evolves view (if b then m else n)"
  by simp

lemma evolves_case_option [evolve_rules]:
  "evolves view m \<Longrightarrow> (\<And>a. evolves view (f a)) \<Longrightarrow> evolves view (case x of None \<Rightarrow> m | Some a \<Rightarrow> f a)"
  by (simp split: option.split)

lemma evolves_case_prod [evolve_rules]:
  "(\<And>a b. evolves view (f a b)) \<Longrightarrow> evolves view (case x of (a, b) \<Rightarrow> f a b)"
  by (simp split: prod.split)

lemma evolves_for_each [evolve_rules]:
  "(\<And>x. evolves view (f x)) \<Longrightarrow> evolves view (for_each f xs)"
  by (induction xs) (auto intro: evolves_bind evolves_keeps [OF keeps_db_return])

text \<open>Loading a row, then working on it.\<close>

lemma keeps_db_uuid [keeps_rules]: "keeps_db view (uuid_io s)"
  by (auto simp: uuid_io_def split: sum.split intro: keeps_rules)

context services
begin

lemma evolves_get:
  assumes "\<And>t. good_table t \<Longrightarrow> evolves_at view t (f (t i))"
  shows "evolves view (bind_io (db_get A i) f)"
  unfolding evolves_def evolves_at_def wp_bind
  by (intro allI impI, rule wp_call [OF get_law]) (use assms in \<open>auto simp: evolves_at_def\<close>)

lemma evolves_at_commit:
  assumes "writable ws t \<Longrightarrow> table_step\<^sup>*\<^sup>* t (row_writes ws t)"
  shows "evolves_at view t (db_commit A ws)"
  unfolding evolves_at_def
  by (intro allI impI, rule wp_commit) (use assms in \<open>auto simp: committedD(1,2)\<close>)

lemma evolves_at_update:
  assumes "t i = Some j" and "row_step j j'" and "row_writes ws t = t(i \<mapsto> j')"
  shows "evolves_at view t (db_commit A ws)"
  using assms by (intro evolves_at_commit) (auto intro: table_step.row)

end

subsection \<open>The worker\<close>

lemma keeps_db_executor [keeps_rules]: "keeps_db view (executor_io typ)"
  by (auto simp: executor_io_def split: sum.split intro: keeps_rules)

context services
begin

lemma keeps_db_backoff [keeps_rules]: "keeps_db view (calculate_backoff_with_jitter A a m)"
  unfolding calculate_backoff_with_jitter_def by (intro keeps_rules)

lemma keeps_db_execution [keeps_rules]: "keeps_db view (wait_for A s (execute A cls jid pl))"
  unfolding keeps_db_def wait_for_def wp_bind
  by (intro allI, rule wp_deadline) (auto simp: wp_simps intro!: wp_mono [OF execute_result])

lemma evolves_handle_failure [evolve_rules]: "evolves view (handle_failure A jid msg)"
  unfolding handle_failure_def
proof (intro evolves_bind [OF evolves_keeps [OF keeps_db_uuid]] evolves_get)
  fix i t
  assume g: "good_table t"
  show "evolves_at view t (case t i of None \<Rightarrow> return_io ()
     | Some j \<Rightarrow>
         if max_attempts j \<le> attempts j then
           bind_io (now_utc A) (\<lambda>t.
           seq_io (count_io A ''jobs_failed'' 1 [(''job_type'', job_type j), (''priority'', priority j),
                                                  (''failure_reason'', ''max_attempts_exhausted'')])
           (seq_io (updown_io A ''jobs_active'' (- 1) [(''job_type'', job_type j)])
           (db_commit A (fail_writes j msg t))))
         else
           bind_io (calculate_backoff_with_jitter A (attempts j) MAX_DELAY) (\<lambda>delay.
           bind_io (now_utc A) (\<lambda>t.
           bind_io (epoch_now A) (\<lambda>now.
           seq_io (enqueue_retry A jid (fl (now + delay)))
           (seq_io (count_io A ''jobs_retried'' 1 [(''job_type'', job_type j), (''priority'', priority j),
                                                    (''attempt_number'', str_int (attempts j))])
           (seq_io (record_io A ''retry_backoff'' delay [(''job_type'', job_type j), (''attempt_number'', str_int (attempts j))])
           (seq_io (updown_io A ''jobs_active'' (- 1) [(''job_type'', job_type j)])
           (db_commit A (retry_writes j msg t delay)))))))))"
  proof (cases "t i")
    case None
    then show ?thesis by (simp add: evolves_at_keeps keeps_db_return)
  next
    case (Some j)
    note j = Some good_tableD(4) [OF g Some]
    show ?thesis
    proof (cases "max_attempts j \<le> attempts j")
      case True
      then show ?thesis using j
        by (simp, intro evolves_at_keeps_bind keeps_rules evolves_at_update [where t = t and i = i and j = j, OF Some row_step.give_up])
           (auto simp: fail_writes_def)
    next
      case False
      then show ?thesis using j
        by (simp, intro evolves_at_keeps_bind keeps_rules evolves_at_update [where t = t and i = i and j = j, OF Some row_step.retry])
           (auto simp: retry_writes_def)
    qed
  qed
qed

lemma evolves_start_job [evolve_rules]: "evolves view (start_job A jid source)"
  unfolding start_job_def
proof (intro evolves_bind [OF evolves_keeps [OF keeps_db_uuid]] evolves_get)
  fix i t
  assume g: "good_table t"
  show "evolves_at view t (case t i of None \<Rightarrow> return_io None
     | Some j \<Rightarrow>
         if status j \<noteq> status_value QUEUED then return_io None
         else
           bind_io (now_utc A) (\<lambda>t.
           seq_io (db_commit A (start_writes j source t))
           (return_io (Some \<lparr>cj_type = job_type j, cj_payload = payload j, cj_priority = priority j,
                              cj_created_at = created_at j, cj_started_at = t\<rparr>))))"
  proof (cases "t i")
    case None
    then show ?thesis by (simp add: evolves_at_keeps keeps_db_return)
  next
    case (Some j)
    note j = Some good_tableD(4) [OF g Some]
    show ?thesis
    proof (cases "status j = status_value QUEUED")
      case False
      with j show ?thesis by (simp add: evolves_at_keeps keeps_db_return)
    next
      case True
      then show ?thesis using j
        by (simp, intro evolves_at_keeps_bind keeps_rules evolves_at_bind [OF evolves_at_update [where t = t and i = i and j = j, OF Some row_step.start]]
              evolves_at_keeps) (auto simp: start_writes_def)
    qed
  qed
qed

lemma evolves_complete_job [evolve_rules]: "evolves view (complete_job A jid c result)"
  unfolding complete_job_def
proof (intro evolves_bind [OF evolves_keeps [OF keeps_db_uuid]] evolves_get)
  fix i t
  assume g: "good_table t"
  show "evolves_at view t (case t i of None \<Rightarrow> return_io ()
     | Some j \<Rightarrow>
         if status j = status_value CANCELLED then updown_io A ''jobs_active'' (- 1) [(''job_type'', cj_type c)]
         else
           bind_io (now_utc A) (\<lambda>t.
           seq_io (db_commit A (complete_writes A j result t))
           (seq_io (count_io A ''jobs_completed'' 1 [(''job_type'', cj_type c), (''priority'', cj_priority c)])
           (seq_io (updown_io A ''jobs_active'' (- 1) [(''job_type'', cj_type c)])
           (count_io A ''worker_loop_iterations'' 1 [(''worker_id'', hostname A), (''outcome'', ''job_processed'')])))))"
  proof (cases "t i")
    case None
    then show ?thesis by (simp add: evolves_at_keeps keeps_db_return)
  next
    case (Some j)
    note j = Some good_tableD(4) [OF g Some]
    show ?thesis
    proof (cases "status j = status_value CANCELLED")
      case True
      with j show ?thesis by (simp add: evolves_at_keeps keeps_db_metrics)
    next
      case False
      then show ?thesis using j
        by (simp, intro evolves_at_keeps_bind keeps_rules evolves_at_bind [OF evolves_at_update [where t = t and i = i and j = j, OF Some row_step.complete]]
              evolves_at_keeps) (auto simp: complete_writes_def)
    qed
  qed
qed

lemma evolves_run_job [evolve_rules]: "evolves view (run_job A jid c)"
  unfolding run_job_def on_failure_def
  by (intro evolve_rules evolves_keeps [OF keeps_db_metrics(2)] evolves_keeps [OF keeps_db_metrics(1)]
        evolves_keeps [OF keeps_db_metrics(4)] evolves_keeps [OF keeps_db_readings(2)] evolves_keeps [OF keeps_db_executor] evolves_keeps [OF keeps_db_execution])

lemma evolves_worker_iteration [evolve_rules]: "evolves view (worker_iteration A)"
proof -
  have r: "evolves view (requeue_due A jid)" for jid
    unfolding requeue_due_def by (intro evolves_keeps keeps_rules)
  have n: "evolves view (next_job A)"
    unfolding next_job_def by (intro evolves_keeps keeps_rules)
  show ?thesis
    unfolding worker_iteration_def poll_once_def process_job_def
    by (intro evolve_rules r n evolves_keeps [OF keeps_db_queue(7)] evolves_keeps [OF keeps_db_return]
          evolves_keeps [OF keeps_db_metrics(1)] evolves_keeps [OF keeps_db_metrics(3)])
qed

end

subsection \<open>Recovery\<close>

text \<open>The updates recovery collects for one row and for a list of rows.\<close>

definition recovery_of :: "job \<Rightarrow> db_write list \<Rightarrow> bool" where
  "recovery_of j ws \<longleftrightarrow>
     (if max_attempts j \<le> attempts j + 1 then \<exists>t. ws = recover_fail_writes j t
      else \<exists>t d. ws = recover_retry_writes j t d)"

primrec recovered :: "job list \<Rightarrow> db_write list \<Rightarrow> bool" where
  "recovered [] ws \<longleftrightarrow> ws = []"
| "recovered (j # js) ws \<longleftrightarrow>
     (\<exists>ws1 ws2. ws = ws1 @ ws2 \<and> recovered js ws2 \<and> recovery_of j ws1)"

lemma row_writes_append: "row_writes (ws @ ws') t = row_writes ws' (row_writes ws t)"
  by (induction ws arbitrary: t) simp_all

lemma recovery_of_step:
  assumes "recovery_of j ws" and j: "t (job_id j) = Some j" "status j = status_value PROCESSING"
  shows "\<exists>j'. row_step j j' \<and> row_writes ws t = t(job_id j \<mapsto> j')"
proof (cases "max_attempts j \<le> attempts j + 1")
  case True
  then obtain t' where ws: "ws = recover_fail_writes j t'" using assms(1) by (auto simp: recovery_of_def)
  show ?thesis
    by (rule exI, rule conjI, rule row_step.recover_fail [OF j(2) True])
       (simp only: ws recover_fail_writes_def row_writes.simps row_write.simps j(1) option.map)
next
  case False
  then obtain t' d where ws: "ws = recover_retry_writes j t' d" using assms(1) by (auto simp: recovery_of_def)
  from False have "attempts j + 1 < max_attempts j" by simp
  show ?thesis
    by (rule exI, rule conjI, rule row_step.recover_retry [OF j(2) \<open>attempts j + 1 < max_attempts j\<close>])
       (simp only: ws recover_retry_writes_def row_writes.simps row_write.simps j(1) option.map)
qed

lemma recovered_steps:
  assumes "distinct js" and "\<forall>j \<in> set js. t (job_id j) = Some j \<and> status j = ''processing''"
    and "recovered js ws"
  shows "table_step\<^sup>*\<^sup>* t (row_writes ws t)"
  using assms
proof (induction js arbitrary: t ws)
  case Nil
  then show ?case by simp
next
  case (Cons j js)
  from Cons.prems(3) obtain ws1 ws2 where ws: "ws = ws1 @ ws2" "recovered js ws2"
    and one: "recovery_of j ws1" by auto
  have j: "t (job_id j) = Some j" "status j = status_value PROCESSING" using Cons.prems(2) by auto
  obtain j' where j': "row_step j j'" "row_writes ws1 t = t(job_id j \<mapsto> j')"
    using recovery_of_step [where t = t, OF one j] by blast
  have "table_step t (row_writes ws1 t)" using table_step.row [where t = t and i = "job_id j", OF j(1) j'(1)] j'(2) by simp
  moreover have "table_step\<^sup>*\<^sup>* (row_writes ws1 t) (row_writes ws2 (row_writes ws1 t))"
  proof (rule Cons.IH [OF _ _ ws(2)])
    have "job_id k \<noteq> job_id j" if "k \<in> set js" for k
      using that Cons.prems(1,2) by (metis distinct.simps(2) list.set_intros option.inject)
    then show "\<forall>k \<in> set js. row_writes ws1 t (job_id k) = Some k \<and> status k = ''processing''"
      using Cons.prems(2) j'(2) by auto
  qed (use Cons.prems(1) in simp)
  ultimately show ?case by (simp add: ws(1) row_writes_append)
qed

context services
begin

lemma wp_recover_each:
  "wp (recover_each A js) (\<lambda>ws w'. recovered js ws \<and> rows (view w') = rows (view w))
     (\<lambda>_ w'. rows (view w') = rows (view w)) w"
proof (induction js arbitrary: w)
  case Nil
  then show ?case by (simp add: wp_simps)
next
  case (Cons j js)
  have one: "wp (recover_one A j)
     (\<lambda>ws w'. rows (view w') = rows (view w) \<and> recovery_of j ws)
     (\<lambda>_ w'. rows (view w') = rows (view w)) w"
  proof (cases "max_attempts j \<le> attempts j + 1")
    case True
    then show ?thesis
      by (auto simp: recover_one_def recovery_of_def wp_simps intro!: wp_now wp_count)
  next
    case False
    then show ?thesis
      by (auto simp: recover_one_def recovery_of_def wp_simps intro!: wp_backoff wp_now wp_time wp_count wp_keeps_db [OF keeps_db_queue(3)])
  qed
  show ?case
    unfolding recover_each.simps wp_bind wp_return
    by (rule wp_mono [OF one], rule wp_mono [OF Cons.IH]) auto
qed

lemma evolves_recovery [evolve_rules]: "evolves view (run_startup_recovery A m)"
  unfolding run_startup_recovery_def
proof (intro evolves_bind [OF evolves_keeps [OF keeps_db_readings(2)]])
  fix now :: datetime
  let ?P = "stuck (now - m * 60 * 10 ^ 6)"
  show "evolves view (bind_io (db_where A ?P) (\<lambda>stuck_jobs.
     if stuck_jobs = [] then return_io () else bind_io (recover_each A stuck_jobs) (\<lambda>ws. db_commit A ws)))"
    unfolding evolves_def evolves_at_def wp_bind
  proof (intro allI impI, rule wp_call [OF where_law])
    fix t w js w1
    assume g: "good_table t" and w: "rows (view w) = t"
      and q: "view w1 = view w \<and> distinct js \<and> set js = matching ?P (view w)"
    have js: "\<forall>j \<in> set js. t (job_id j) = Some j \<and> status j = ''processing''"
      using q g w by (auto simp: matching_def ran_def stuck_def dest: good_tableD(4))
    show "wp (if js = [] then return_io () else bind_io (recover_each A js) (\<lambda>ws. db_commit A ws))
      (\<lambda>_ w'. table_step\<^sup>*\<^sup>* t (rows (view w'))) (\<lambda>_ w'. table_step\<^sup>*\<^sup>* t (rows (view w'))) w1"
    proof (cases "js = []")
      case True
      then show ?thesis using q w by (simp add: wp_simps)
    next
      case False
      have "wp (recover_each A js) (\<lambda>ws. wp (db_commit A ws)
          (\<lambda>_ w'. table_step\<^sup>*\<^sup>* t (rows (view w'))) (\<lambda>_ w'. table_step\<^sup>*\<^sup>* t (rows (view w'))))
          (\<lambda>_ w'. table_step\<^sup>*\<^sup>* t (rows (view w'))) w1"
      proof (rule wp_mono [OF wp_recover_each])
        fix ws w2
        assume "recovered js ws \<and> rows (view w2) = rows (view w1)"
        then have "evolves_at view t (db_commit A ws)" and w2: "rows (view w2) = t"
          using recovered_steps [of js t ws] q js w by (auto intro: evolves_at_commit)
        then show "wp (db_commit A ws) (\<lambda>_ w'. table_step\<^sup>*\<^sup>* t (rows (view w')))
            (\<lambda>_ w'. table_step\<^sup>*\<^sup>* t (rows (view w'))) w2" by (simp add: evolves_at_def)
      qed (use q w in auto)
      with False show ?thesis by (simp add: wp_simps)
    qed
  qed (auto)
qed

end

subsection \<open>The API\<close>

lemma inserted_step:
  assumes "inserted jc s j s'" and "1 \<le> jc_max_attempts jc" and "jc_max_attempts jc \<le> 10"
  shows "table_step (rows s) (rows s')"
proof -
  from assms(1) obtain u c tp t where j: "j = new_job u c (jc_type jc) (payload_with_trace (jc_payload jc) tp)
      (jc_priority jc) (jc_idempotency_key jc) (jc_max_attempts jc)" and nc: "\<not> insert_conflicts j (rows s)"
    and d: "data s' = zset_put PRIORITY_KEY (str_uuid u) (score_at (jc_priority jc) t)
                    ((data s)\<lparr>rows := (rows s)(u \<mapsto> j)\<rparr>)" by (auto simp: inserted_def)
  have "rows (data s') = (rows s)(u \<mapsto> j)" unfolding d by simp
  then show ?thesis using table_step.insert [OF j assms(2,3) nc] by simp
qed

context services
begin

lemma evolves_create [evolve_rules]:
  assumes "1 \<le> jc_max_attempts jc" and "jc_max_attempts jc \<le> 10"
  shows "evolves view (create_job A jc)"
  unfolding evolves_def evolves_at_def
proof (intro allI impI, rule wp_mono [OF create_outcomes])
  fix t w a w'
  assume w: "rows (view w) = t"
    and h: "(case a of (j, is_new) \<Rightarrow> \<lambda>w'. if is_new then inserted jc (view w) j (view w')
              else j \<in> ran (rows (view w)) \<and> idempotency_key j = jc_idempotency_key jc \<and> data (view w') = data (view w)) w'"
  from h w show "table_step\<^sup>*\<^sup>* t (rows (view w'))"
    by (cases a) (auto dest!: inserted_step [OF _ assms] dest: data_eqD(3) split: if_splits)
next
  fix t w e w'
  assume "rows (view w) = t"
    and "rows (view w') = rows (view w) \<or> (\<exists>j. inserted jc (view w) j (view w'))"
  then show "table_step\<^sup>*\<^sup>* t (rows (view w'))" by (auto dest!: inserted_step [OF _ assms])
qed

lemma evolves_create_endpoint [evolve_rules]:
  assumes "1 \<le> jc_max_attempts jc" and "jc_max_attempts jc \<le> 10"
  shows "evolves view (create_job_endpoint A limited jc)"
  unfolding create_job_endpoint_def
  by (intro evolve_rules assms evolves_keeps [OF keeps_db_return] evolves_keeps [OF keeps_db_raise])

lemma evolves_cancel [evolve_rules]: "evolves view (cancel_job A i)"
  unfolding cancel_job_def evolves_def evolves_at_def wp_bind
proof (intro allI impI, rule wp_call [OF where_law])
  fix t w r w1
  assume g: "good_table t" and w: "rows (view w) = t"
    and q: "view w1 = view w \<and> distinct r \<and> set r = matching (\<lambda>j. job_id j = i) (view w)"
  let ?f = "\<lambda>j::job. j\<lparr>status := status_value CANCELLED\<rparr>"
  let ?k = "\<lambda>job. case job of None \<Rightarrow> return_io None
      | Some j \<Rightarrow> if status j \<noteq> status_value QUEUED \<and> status j \<noteq> status_value PROCESSING then return_io (Some j)
          else seq_io (remove_from_queues A (str_uuid i))
            (seq_io (db_commit A [UpdateJob i ?f]) (return_io (Some (?f j))))"
  have "keyed_by_id (rows (view w))" using g w by (simp add: good_table_def)
  then have r: "r = (case t i of None \<Rightarrow> [] | Some a \<Rightarrow> [a])"
    using q w by (intro set_at_most_one) (auto simp: matching_id)
  have ok: "evolves_at view t (?k (t i))"
  proof (cases "t i")
    case None
    then show ?thesis by (simp add: evolves_at_keeps keeps_db_return)
  next
    case (Some j)
    show ?thesis
    proof (cases "status j \<noteq> status_value QUEUED \<and> status j \<noteq> status_value PROCESSING")
      case True
      with Some show ?thesis by (simp add: evolves_at_keeps keeps_db_return)
    next
      case False
      then have s: "status j = status_value QUEUED \<or> status j = status_value PROCESSING" by blast
      show ?thesis
        unfolding Some option.case if_not_P [OF False]
        by (intro evolves_at_keeps_bind keeps_rules evolves_at_keeps
              evolves_at_bind [OF evolves_at_update [where t = t and i = i and j = j, OF Some row_step.cancel [OF s]]])
           (simp add: Some)
    qed
  qed
  have "wp (scalar_one_or_none r) (\<lambda>job. wp (?k job) (\<lambda>_ w'. table_step\<^sup>*\<^sup>* t (rows (view w')))
      (\<lambda>_ w'. table_step\<^sup>*\<^sup>* t (rows (view w')))) (\<lambda>_ w'. table_step\<^sup>*\<^sup>* t (rows (view w'))) w1
    = wp (?k (t i)) (\<lambda>_ w'. table_step\<^sup>*\<^sup>* t (rows (view w'))) (\<lambda>_ w'. table_step\<^sup>*\<^sup>* t (rows (view w'))) w1"
    by (cases "t i") (simp_all add: r wp_return)
  with ok q w show "wp (scalar_one_or_none r) (\<lambda>job. wp (?k job) (\<lambda>_ w'. table_step\<^sup>*\<^sup>* t (rows (view w')))
      (\<lambda>_ w'. table_step\<^sup>*\<^sup>* t (rows (view w')))) (\<lambda>_ w'. table_step\<^sup>*\<^sup>* t (rows (view w'))) w1"
    by (simp add: evolves_at_def)
qed auto

lemma evolves_cancel_endpoint [evolve_rules]: "evolves view (cancel_job_endpoint A i)"
  unfolding cancel_job_endpoint_def
  by (intro evolve_rules evolves_keeps [OF keeps_db_return] evolves_keeps [OF keeps_db_raise])

end

end
