(* ===== verification/Worker_Spec.thy ===== *)
theory Worker_Spec
  imports Refinement
begin

section \<open>What the phases of the worker do when the services do not fail\<close>

text \<open>
  The exact effect of \<open>handle_failure\<close>, \<open>start_job\<close> and \<open>complete_job\<close> on the rows and
  queues, on every branch, as rules for \<open>reliable_services\<close>; the property theorems on the
  worker rest on them.
\<close>

lemma uuid_io_str [simp]: "uuid_io (str_uuid i) = return_io i"
  by (simp add: uuid_io_def)

lemma committed_sel:
  assumes "committed ws s s'"
  shows "rows s' = row_writes ws (rows s)" and "zsets s' = zsets s" and "lists s' = lists s"
  using assms by (auto simp: committed_def)

text \<open>The rows after a unit of work that updates one row and writes log lines for it.\<close>

lemma one_update:
  assumes "t i = Some j"
  shows "row_writes [UpdateJob i f, AddLog i l m] t = t(i \<mapsto> f j)" "writable [UpdateJob i f, AddLog i l m] t"
    "row_writes [UpdateJob i f, AddLog i l m, AddLog i l' m'] t = t(i \<mapsto> f j)"
    "writable [UpdateJob i f, AddLog i l m, AddLog i l' m'] t"
  using assms by auto

definition failed_row :: "job \<Rightarrow> string \<Rightarrow> datetime \<Rightarrow> job" where
  "failed_row j msg t = j\<lparr>job_error := Some msg, status := ''failed'', completed_at := Some t\<rparr>"

definition retried_row :: "job \<Rightarrow> string \<Rightarrow> datetime \<Rightarrow> job" where
  "retried_row j msg t = j\<lparr>job_error := Some msg, status := ''queued'', next_retry_at := Some t\<rparr>"

definition started_row :: "job \<Rightarrow> datetime \<Rightarrow> job" where
  "started_row j t = j\<lparr>status := ''processing'', started_at := Some t, attempts := attempts j + 1\<rparr>"

definition completed_row :: "job \<Rightarrow> json_dict \<Rightarrow> datetime \<Rightarrow> job" where
  "completed_row j r t = j\<lparr>status := ''completed'', completed_at := Some t, job_result := Some r, job_error := None\<rparr>"

lemma write_rows:
  assumes "t i = Some j" and "job_id j = i"
  shows "row_writes (fail_writes j msg c) t = t(i \<mapsto> failed_row j msg c)" "writable (fail_writes j msg c) t"
    "row_writes (retry_writes j msg c d) t = t(i \<mapsto> retried_row j msg (c + timedelta_us d))"
    "writable (retry_writes j msg c d) t"
    "row_writes (start_writes j source c) t = t(i \<mapsto> started_row j c)" "writable (start_writes j source c) t"
    "row_writes (complete_writes A j r c) t = t(i \<mapsto> completed_row j r c)" "writable (complete_writes A j r c) t"
  unfolding fail_writes_def retry_writes_def start_writes_def complete_writes_def assms(2)
    failed_row_def retried_row_def started_row_def completed_row_def
  by (simp_all only: one_update [where t = t and i = i, OF assms(1)] status_value.simps)

text \<open>
  What \<open>start_job\<close> and \<open>handle_failure\<close> read after they have loaded the row: the time of a
  start or of a final failure; or the random number, the time and the seconds since the epoch
  of a retry.
\<close>

definition time_after_load :: "'w app \<Rightarrow> uuid \<Rightarrow> 'w \<Rightarrow> datetime" where
  "time_after_load A i w = fst (clock_now A (snd (db_get A i w)))"

definition retry_readings :: "'w app \<Rightarrow> uuid \<Rightarrow> 'w \<Rightarrow> rat \<times> datetime \<times> rat" where
  "retry_readings A i w =
     (case rnd_random A (snd (db_get A i w)) of (r, w1) \<Rightarrow>
      case clock_now A w1 of (t, w2) \<Rightarrow> (r, t, fst (clock_time A w2)))"

context reliable_services
begin

lemma wp_commit_rows:
  assumes "writable ws (rows (view w))" and "row_writes ws (rows (view w)) = t"
    and "\<And>w'. rows (view w') = t \<Longrightarrow> zsets (view w') = zsets (view w) \<Longrightarrow> lists (view w') = lists (view w) \<Longrightarrow> Q () w'"
  shows "wp (db_commit A ws) Q X w"
  by (rule wp_commit_total [OF assms(1)]) (use assms(2) in \<open>auto intro!: assms(3) simp: committed_sel\<close>)

lemma wp_handle_failure_at:
  assumes g: "good_table (rows (view w))"
    and none: "\<And>w'. rows (view w) i = None \<Longrightarrow> view w' = view w \<Longrightarrow> Q () w'"
    and give_up: "\<And>j t w'. t = time_after_load A i w \<Longrightarrow> rows (view w) i = Some j \<Longrightarrow> max_attempts j \<le> attempts j \<Longrightarrow>
        rows (view w') = (rows (view w))(i \<mapsto> failed_row j msg t) \<Longrightarrow> zsets (view w') = zsets (view w) \<Longrightarrow>
        lists (view w') = lists (view w) \<Longrightarrow> Q () w'"
    and retry: "\<And>j r t now w'. (r, t, now) = retry_readings A i w \<Longrightarrow> rows (view w) i = Some j \<Longrightarrow> attempts j < max_attempts j \<Longrightarrow>
        0 \<le> r \<Longrightarrow> r \<le> 1 - 1 / 2 ^ 53 \<Longrightarrow> 0 \<le> now \<Longrightarrow>
        rows (view w') = (rows (view w))(i \<mapsto> retried_row j msg (t + timedelta_us (backoff (attempts j) MAX_DELAY r))) \<Longrightarrow>
        zsets (view w') = (zsets (view w))(RETRY_KEY := (zsets (view w) RETRY_KEY)(str_uuid i \<mapsto>
          fl (now + backoff (attempts j) MAX_DELAY r))) \<Longrightarrow>
        lists (view w') = lists (view w) \<Longrightarrow> Q () w'"
  shows "wp (handle_failure A (str_uuid i) msg) Q X w"
  unfolding handle_failure_def wp_bind uuid_io_str wp_return
proof (rule wp_call_at [OF get_law query_total(1)])
  fix job w1
  assume at: "w1 = snd (db_get A i w)" and q: "view w1 = view w \<and> job = rows (view w) i"
  show "wp (case job of None \<Rightarrow> return_io ()
     | Some j \<Rightarrow>
         if max_attempts j \<le> attempts j then
           bind_io (now_utc A) (\<lambda>t.
           seq_io (count_io A ''jobs_failed'' 1 [(''job_type'', job_type j), (''priority'', priority j),
                                                  (''failure_reason'', ''max_attempts_exhausted'')])
           (seq_io (updown_io A ''jobs_active'' (- 1) [(''job_type'', job_type j)])
           (db_commit A (fail_writes j msg t))))
         else
           bind_io (calculate_backoff_with_jitter A (attempts j) MAX_DELAY) (\<lambda>delay.
           bind_io (now_utc A) (\<lambda>t.
           bind_io (epoch_now A) (\<lambda>now.
           seq_io (enqueue_retry A (str_uuid i) (fl (now + delay)))
           (seq_io (count_io A ''jobs_retried'' 1 [(''job_type'', job_type j), (''priority'', priority j),
                                                    (''attempt_number'', str_int (attempts j))])
           (seq_io (record_io A ''retry_backoff'' delay [(''job_type'', job_type j), (''attempt_number'', str_int (attempts j))])
           (seq_io (updown_io A ''jobs_active'' (- 1) [(''job_type'', job_type j)])
           (db_commit A (retry_writes j msg t delay))))))))) Q X w1"
  proof (cases "rows (view w) i")
    case None
    then show ?thesis using q none by (simp add: wp_return)
  next
    case (Some j)
    note i = good_tableD(4) [OF g Some]
    show ?thesis
    proof (cases "max_attempts j \<le> attempts j")
      case True
      let ?t = "fst (clock_now A w1)" and ?w2 = "snd (clock_now A w1)"
      have v2: "view ?w2 = view w" using now_law q by (simp add: reading_def)
      have "wp (db_commit A (fail_writes j msg ?t)) Q X w'" if "view w' = (view w)\<lparr>meters := ms\<rparr>" for w' ms
        by (rule wp_commit_rows)
           (use that Some True in \<open>auto simp: write_rows [OF _ i] time_after_load_def at intro: give_up\<close>)
      then show ?thesis
        unfolding q [THEN conjunct2] Some option.case if_P [OF True] wp_bind wp_read_io
        by (intro wp_count wp_updown) (auto simp: v2)
    next
      case False
      obtain r wr where r: "rnd_random A w1 = (r, wr)" by (cases "rnd_random A w1")
      obtain t wt where t: "clock_now A wr = (t, wt)" by (cases "clock_now A wr")
      obtain now wn where now: "clock_time A wt = (now, wn)" by (cases "clock_time A wt")
      have read: "(r, t, now) = retry_readings A i w" by (simp add: retry_readings_def at [symmetric] r t now)
      have "view wr = view w1 \<and> 0 \<le> r \<and> r \<le> 1 - 1 / 2 ^ 53" "view wt = view wr" "view wn = view wt \<and> 0 \<le> now"
        using random_law [unfolded reading_def, rule_format, of w1] now_law [unfolded reading_def, rule_format, of wr]
          time_law [unfolded reading_def, rule_format, of wt] by (simp_all add: r t now)
      then have range: "0 \<le> r" "r \<le> 1 - 1 / 2 ^ 53" "0 \<le> now" and vn: "view wn = view w" using q by simp_all
      let ?d = "backoff (attempts j) MAX_DELAY r"
      have c: "wp (db_commit A (retry_writes j msg t ?d)) Q X w'"
        if "view w' = s\<lparr>meters := ms\<rparr>" and "data s = zset_put RETRY_KEY (str_uuid i) (fl (now + ?d)) (data (view w))" for s w' ms
      proof -
        have "zsets (data s) = (zsets (view w))(RETRY_KEY := (zsets (view w) RETRY_KEY)(str_uuid i \<mapsto> fl (now + ?d)))"
          "rows (data s) = rows (view w)" "lists (data s) = lists (view w)"
          unfolding that(2) by simp_all
        then show ?thesis
          using that(1) range Some False
          by (intro wp_commit_rows) (auto simp: write_rows [OF _ i] intro: retry [OF read])
      qed
      show ?thesis
        unfolding q [THEN conjunct2] Some option.case if_not_P [OF False] wp_bind calculate_backoff_with_jitter_def
          wp_read_io wp_return r t now fst_conv snd_conv
        by (intro wp_enqueue_retry_total wp_count wp_record wp_updown) (auto simp: vn intro: c)
    qed
  qed
qed

lemma wp_handle_failure:
  assumes g: "good_table (rows (view w))"
    and none: "\<And>w'. rows (view w) i = None \<Longrightarrow> view w' = view w \<Longrightarrow> Q () w'"
    and give_up: "\<And>j t w'. rows (view w) i = Some j \<Longrightarrow> max_attempts j \<le> attempts j \<Longrightarrow>
        rows (view w') = (rows (view w))(i \<mapsto> failed_row j msg t) \<Longrightarrow> zsets (view w') = zsets (view w) \<Longrightarrow>
        lists (view w') = lists (view w) \<Longrightarrow> Q () w'"
    and retry: "\<And>j r t now w'. rows (view w) i = Some j \<Longrightarrow> attempts j < max_attempts j \<Longrightarrow>
        0 \<le> r \<Longrightarrow> r \<le> 1 - 1 / 2 ^ 53 \<Longrightarrow> 0 \<le> now \<Longrightarrow>
        rows (view w') = (rows (view w))(i \<mapsto> retried_row j msg (t + timedelta_us (backoff (attempts j) MAX_DELAY r))) \<Longrightarrow>
        zsets (view w') = (zsets (view w))(RETRY_KEY := (zsets (view w) RETRY_KEY)(str_uuid i \<mapsto>
          fl (now + backoff (attempts j) MAX_DELAY r))) \<Longrightarrow>
        lists (view w') = lists (view w) \<Longrightarrow> Q () w'"
  shows "wp (handle_failure A (str_uuid i) msg) Q X w"
  by (rule wp_handle_failure_at [OF g]) (assumption | rule none give_up retry)+

end

context reliable_services
begin

lemma wp_start_job_at:
  assumes g: "good_table (rows (view w))"
    and skip: "\<And>w'. (\<forall>j. rows (view w) i = Some j \<longrightarrow> status j \<noteq> ''queued'') \<Longrightarrow> view w' = view w \<Longrightarrow> Q None w'"
    and start: "\<And>j t w'. t = time_after_load A i w \<Longrightarrow> rows (view w) i = Some j \<Longrightarrow> status j = ''queued'' \<Longrightarrow>
        rows (view w') = (rows (view w))(i \<mapsto> started_row j t) \<Longrightarrow> zsets (view w') = zsets (view w) \<Longrightarrow>
        lists (view w') = lists (view w) \<Longrightarrow>
        Q (Some \<lparr>cj_type = job_type j, cj_payload = payload j, cj_priority = priority j,
                              cj_created_at = created_at j, cj_started_at = t\<rparr>) w'"
  shows "wp (start_job A (str_uuid i) source) Q X w"
  unfolding start_job_def wp_bind uuid_io_str wp_return
proof (rule wp_call_at [OF get_law query_total(1)])
  fix job w1
  assume at: "w1 = snd (db_get A i w)" and q: "view w1 = view w \<and> job = rows (view w) i"
  show "wp (case job of None \<Rightarrow> return_io None
     | Some j \<Rightarrow>
         if status j \<noteq> status_value QUEUED then return_io None
         else
           bind_io (now_utc A) (\<lambda>t.
           seq_io (db_commit A (start_writes j source t))
           (return_io (Some \<lparr>cj_type = job_type j, cj_payload = payload j, cj_priority = priority j,
                              cj_created_at = created_at j, cj_started_at = t\<rparr>)))) Q X w1"
  proof (cases "rows (view w) i")
    case None
    then show ?thesis using q skip by (simp add: wp_return)
  next
    case (Some j)
    note i = good_tableD(4) [OF g Some]
    show ?thesis
    proof (cases "status j = ''queued''")
      case False
      then show ?thesis using q skip Some by (simp add: wp_return)
    next
      case True
      then have n: "\<not> status j \<noteq> status_value QUEUED" by simp
      let ?t = "fst (clock_now A w1)" and ?w2 = "snd (clock_now A w1)"
      have v2: "view ?w2 = view w" and t: "?t = time_after_load A i w"
        using now_law q by (simp_all add: reading_def time_after_load_def at)
      show ?thesis
        unfolding q [THEN conjunct2] Some option.case if_not_P [OF n] wp_bind wp_return wp_read_io
        by (intro wp_commit_rows)
           (use v2 Some True in \<open>auto simp: write_rows [OF _ i] intro: start [OF t]\<close>)
    qed
  qed
qed

lemma wp_start_job:
  assumes g: "good_table (rows (view w))"
    and skip: "\<And>w'. (\<forall>j. rows (view w) i = Some j \<longrightarrow> status j \<noteq> ''queued'') \<Longrightarrow> view w' = view w \<Longrightarrow> Q None w'"
    and start: "\<And>j t w'. rows (view w) i = Some j \<Longrightarrow> status j = ''queued'' \<Longrightarrow>
        rows (view w') = (rows (view w))(i \<mapsto> started_row j t) \<Longrightarrow> zsets (view w') = zsets (view w) \<Longrightarrow>
        lists (view w') = lists (view w) \<Longrightarrow>
        Q (Some \<lparr>cj_type = job_type j, cj_payload = payload j, cj_priority = priority j,
                              cj_created_at = created_at j, cj_started_at = t\<rparr>) w'"
  shows "wp (start_job A (str_uuid i) source) Q X w"
  by (rule wp_start_job_at [OF g]) (assumption | rule skip start)+

lemma wp_complete_job:
  assumes g: "good_table (rows (view w))"
    and none: "\<And>w'. rows (view w) i = None \<Longrightarrow> view w' = view w \<Longrightarrow> Q () w'"
    and cancelled: "\<And>j w'. rows (view w) i = Some j \<Longrightarrow> status j = ''cancelled'' \<Longrightarrow>
        data (view w') = data (view w) \<Longrightarrow> Q () w'"
    and complete: "\<And>j t w'. rows (view w) i = Some j \<Longrightarrow> status j \<noteq> ''cancelled'' \<Longrightarrow>
        rows (view w') = (rows (view w))(i \<mapsto> completed_row j result t) \<Longrightarrow> zsets (view w') = zsets (view w) \<Longrightarrow>
        lists (view w') = lists (view w) \<Longrightarrow> Q () w'"
  shows "wp (complete_job A (str_uuid i) c result) Q X w"
  unfolding complete_job_def wp_bind uuid_io_str wp_return
proof (rule wp_call_total [OF get_law query_total(1)])
  fix job w1
  assume q: "view w1 = view w \<and> job = rows (view w) i"
  show "wp (case job of None \<Rightarrow> return_io ()
     | Some j \<Rightarrow>
         if status j = status_value CANCELLED then updown_io A ''jobs_active'' (- 1) [(''job_type'', cj_type c)]
         else
           bind_io (now_utc A) (\<lambda>t.
           seq_io (db_commit A (complete_writes A j result t))
           (seq_io (count_io A ''jobs_completed'' 1 [(''job_type'', cj_type c), (''priority'', cj_priority c)])
           (seq_io (updown_io A ''jobs_active'' (- 1) [(''job_type'', cj_type c)])
           (count_io A ''worker_loop_iterations'' 1 [(''worker_id'', hostname A), (''outcome'', ''job_processed'')]))))) Q X w1"
  proof (cases "rows (view w) i")
    case None
    then show ?thesis using q none by (simp add: wp_return)
  next
    case (Some j)
    note i = good_tableD(4) [OF g Some]
    show ?thesis
    proof (cases "status j = ''cancelled''")
      case True
      then have n: "status j = status_value CANCELLED" by simp
      show ?thesis
        unfolding q [THEN conjunct2] Some option.case if_P [OF n]
        by (rule wp_updown) (use q Some True in \<open>auto intro: cancelled\<close>)
    next
      case False
      then have n: "status j \<noteq> status_value CANCELLED" by simp
      show ?thesis
        unfolding q [THEN conjunct2] Some option.case if_not_P [OF n] wp_bind
        by (intro wp_now wp_commit_rows wp_count wp_updown)
           (use q Some False in \<open>auto simp: write_rows [OF _ i] intro: complete\<close>)
    qed
  qed
qed

lemma wp_requeue_due:
  assumes skip: "\<And>w'. (\<forall>j. rows (view w) i = Some j \<longrightarrow> status j \<noteq> ''queued'') \<Longrightarrow> view w' = view w \<Longrightarrow> Q () w'"
    and move: "\<And>j t w'. rows (view w) i = Some j \<Longrightarrow> status j = ''queued'' \<Longrightarrow> 0 \<le> t \<Longrightarrow> t \<le> 10 ^ 13 \<Longrightarrow>
      data (view w') = zset_put PRIORITY_KEY (str_uuid i) (score_at (priority j) t) (data (view w)) \<Longrightarrow> Q () w'"
  shows "wp (requeue_due A (str_uuid i)) Q X w"
  unfolding requeue_due_def wp_bind uuid_io_str wp_return
proof (rule wp_call_total [OF get_law query_total(1)])
  fix job w1
  assume q: "view w1 = view w \<and> job = rows (view w) i"
  show "wp (case job of None \<Rightarrow> return_io ()
      | Some j \<Rightarrow> if status j = status_value QUEUED then enqueue_priority A (str_uuid i) (priority j) '''' else return_io ())
      Q X w1"
  proof (cases "\<exists>j. rows (view w) i = Some j \<and> status j = ''queued''")
    case False
    then show ?thesis using q by (auto simp: wp_return intro: skip split: option.split)
  next
    case True
    then obtain j where j: "rows (view w) i = Some j" "status j = ''queued''" by blast
    have "wp (enqueue_priority A (str_uuid i) (priority j) '''') Q X w1"
      by (rule wp_enqueue_priority_total) (use q in \<open>auto intro: move [OF j]\<close>)
    with j q show ?thesis by simp
  qed
qed

end

context reliable_services
begin

text \<open>The next identifier: the first of the priority queue, or the oldest of the FIFO queue.\<close>

lemma wp_next_job:
  assumes "'''' \<notin> dom (zsets (view w) PRIORITY_KEY)" and "'''' \<notin> set (lists (view w) FIFO_KEY)"
    and none: "\<And>w'. zsets (view w) PRIORITY_KEY = Map.empty \<Longrightarrow> lists (view w) FIFO_KEY = [] \<Longrightarrow>
        data (view w') = data (view w) \<Longrightarrow> Q None w'"
    and prio: "\<And>m w'. zfirst (zsets (view w) PRIORITY_KEY) m \<Longrightarrow>
        data (view w') = zset_del PRIORITY_KEY m (data (view w)) \<Longrightarrow>
        Q (Some (m, ''priority'')) w'"
    and fifo: "\<And>m w'. zsets (view w) PRIORITY_KEY = Map.empty \<Longrightarrow> lists (view w) FIFO_KEY \<noteq> [] \<Longrightarrow>
        m = last (lists (view w) FIFO_KEY) \<Longrightarrow>
        data (view w') = list_put FIFO_KEY (butlast (lists (view w) FIFO_KEY)) (data (view w)) \<Longrightarrow>
        Q (Some (m, ''fifo'')) w'"
  shows "wp (next_job A) Q X w"
  unfolding next_job_def wp_bind
proof (rule wp_dequeue_priority_total)
  fix m w1
  assume m: "zfirst (zsets (view w) PRIORITY_KEY) m" and v: "data (view w1) = zset_del PRIORITY_KEY m (data (view w))"
  then have "m \<noteq> ''''" using assms(1) by (auto simp: zfirst_def)
  then show "wp (if truthy (Some m) then return_io (Some (the (Some m), ''priority''))
      else bind_io (dequeue_fifo A 1) (\<lambda>r'. if truthy r' then return_io (Some (the r', ''fifo'')) else return_io None)) Q X w1"
    using prio [OF m v] by (simp add: truthy_def wp_return)
next
  fix w1
  assume e: "zsets (view w) PRIORITY_KEY = Map.empty" and v: "data (view w1) = data (view w)"
  note l1 = data_eqD(2) [OF v]
  show "wp (if truthy None then return_io (Some (the None, ''priority''))
      else bind_io (dequeue_fifo A 1) (\<lambda>r'. if truthy r' then return_io (Some (the r', ''fifo'')) else return_io None)) Q X w1"
    unfolding truthy_def option.case if_False wp_bind
  proof (rule wp_dequeue_fifo_total)
    fix w2
    assume "lists (view w1) FIFO_KEY = []" "data (view w2) = data (view w1)"
    then show "wp (if case None of None \<Rightarrow> False | Some x \<Rightarrow> x \<noteq> '''' then return_io (Some (the None, ''fifo'')) else return_io None) Q X w2"
      using none [OF e] by (simp add: wp_return v l1)
  next
    fix w2
    assume l: "lists (view w1) FIFO_KEY \<noteq> []"
      and v2: "data (view w2) = list_put FIFO_KEY (butlast (lists (view w1) FIFO_KEY)) (data (view w1))"
    have "last (lists (view w) FIFO_KEY) \<noteq> ''''" using assms(2) l l1 last_in_set by metis
    then show "wp (if case Some (last (lists (view w1) FIFO_KEY)) of None \<Rightarrow> False | Some x \<Rightarrow> x \<noteq> ''''
        then return_io (Some (the (Some (last (lists (view w1) FIFO_KEY))), ''fifo'')) else return_io None) Q X w2"
      using fifo [OF e _ refl] l v2 by (simp add: wp_return v l1)
  qed
qed

end

end
