(* ===== verification/Tracking.thy ===== *)
theory Tracking
  imports Worker_Spec
begin

section \<open>No job is lost\<close>

text \<open>
  The queues and the table live in two services without a common transaction. The
  invariant that ties them together is \<open>tracked\<close>: every queued row has its identifier in one
  of the three queues. \<open>tracked_but S\<close> allows for the identifiers in \<open>S\<close>, which a worker
  has taken out of a queue and not dealt with yet. With services that do not fail every
  operation preserves it, so no job that waits can be forgotten.
\<close>

definition queued_in :: "store \<Rightarrow> string \<Rightarrow> bool" where
  "queued_in s m \<longleftrightarrow>
     m \<in> dom (zsets s PRIORITY_KEY) \<or> m \<in> dom (zsets s RETRY_KEY) \<or> m \<in> set (lists s FIFO_KEY)"

definition tracked_but :: "string set \<Rightarrow> store \<Rightarrow> bool" where
  "tracked_but S s \<longleftrightarrow>
     good_table (rows s) \<and>
     (\<forall>i j. rows s i = Some j \<longrightarrow> status j = ''queued'' \<longrightarrow> str_uuid i \<in> S \<or> queued_in s (str_uuid i)) \<and>
     (\<forall>m. queued_in s m \<longrightarrow> m \<in> range str_uuid)"

abbreviation tracked :: "store \<Rightarrow> bool" where
  "tracked \<equiv> tracked_but {}"

lemma keys_differ [simp]:
  "PRIORITY_KEY \<noteq> RETRY_KEY" "RETRY_KEY \<noteq> PRIORITY_KEY"
  by (simp_all add: PRIORITY_KEY_def RETRY_KEY_def)

lemma tracked_but_cong:
  assumes "rows s' = rows s" and "zsets s' = zsets s" and "lists s' = lists s"
  shows "tracked_but S s' = tracked_but S s"
  by (simp add: tracked_but_def queued_in_def assms)

lemma tracked_but_data: "data s' = data s \<Longrightarrow> tracked_but S s' = tracked_but S s"
  by (rule tracked_but_cong) (auto dest: data_eqD)

lemma tracked_but_of_data [simp]: "tracked_but S (data s) = tracked_but S s"
  by (rule tracked_but_cong) simp_all

lemma tracked_but_meters [simp]: "tracked_but S (s\<lparr>meters := ms\<rparr>) = tracked_but S s"
  by (rule tracked_but_cong) simp_all

lemma tracked_but_mono: "tracked_but S s \<Longrightarrow> S \<subseteq> S' \<Longrightarrow> tracked_but S' s"
  by (auto simp: tracked_but_def)

lemma tracked_but_good: "tracked_but S s \<Longrightarrow> good_table (rows s)"
  by (simp add: tracked_but_def)

lemma tracked_but_named: "tracked_but S s \<Longrightarrow> queued_in s m \<Longrightarrow> \<exists>i. m = str_uuid i"
  by (auto simp: tracked_but_def)

lemma tracked_but_no_empty: "tracked_but S s \<Longrightarrow> \<not> queued_in s ''''"
  using str_uuid_nonempty tracked_but_named by metis

subsection \<open>Changes that keep the invariant\<close>

text \<open>Putting an identifier into a queue deals with it.\<close>

lemma tracked_put:
  assumes "tracked_but S s" and "k = PRIORITY_KEY \<or> k = RETRY_KEY"
    and "rows s' = rows s" and "zsets s' = (zsets s)(k := (zsets s k)(str_uuid i \<mapsto> sc))" and "lists s' = lists s"
  shows "tracked_but (S - {str_uuid i}) s'"
  using assms by (auto simp: tracked_but_def queued_in_def split: if_splits)

text \<open>So does finding that its row is not queued.\<close>

lemma tracked_skip:
  assumes "tracked_but S s" and "\<forall>j. rows s i = Some j \<longrightarrow> status j \<noteq> ''queued''"
  shows "tracked_but (S - {str_uuid i}) s"
  using assms by (auto simp: tracked_but_def)

text \<open>Taking it out leaves it to be dealt with.\<close>

lemma tracked_take:
  assumes "tracked_but S s" and "rows s' = rows s"
    and "\<And>m. queued_in s m \<Longrightarrow> m \<in> M \<or> queued_in s' m" and "\<And>m. queued_in s' m \<Longrightarrow> queued_in s m"
  shows "tracked_but (S \<union> M) s'"
  using assms unfolding tracked_but_def by (metis UnCI)

text \<open>A step of one row.\<close>

lemma tracked_row:
  assumes "tracked_but S s" and "rows s i = Some j" and "row_step j j'"
    and "rows s' = (rows s)(i \<mapsto> j')" and "\<And>m. queued_in s m \<Longrightarrow> queued_in s' m"
    and "\<And>m. queued_in s' m \<Longrightarrow> queued_in s m \<or> m = str_uuid i"
    and "status j' = ''queued'' \<Longrightarrow> queued_in s' (str_uuid i)"
  shows "tracked_but (S - {str_uuid i}) s'"
proof -
  have "good_table (rows s')"
    using good_table_step [OF table_step.row [where t = "rows s" and i = i, OF assms(2,3)]] assms(1,4)
    by (simp add: tracked_but_def)
  moreover have "str_uuid k \<in> S - {str_uuid i} \<or> queued_in s' (str_uuid k)"
    if "rows s' k = Some r" "status r = ''queued''" for k r
    using that assms(1,4,5,7) by (cases "k = i") (auto simp: tracked_but_def)
  moreover have "m \<in> range str_uuid" if "queued_in s' m" for m
    using that assms(1,6) by (metis rangeI tracked_but_def)
  ultimately show ?thesis unfolding tracked_but_def by blast
qed

lemma row_steps_of:
  "attempts j < max_attempts j \<Longrightarrow> row_step j (retried_row j msg t)"
  "max_attempts j \<le> attempts j \<Longrightarrow> row_step j (failed_row j msg t)"
  "status j = ''queued'' \<Longrightarrow> row_step j (started_row j t)"
  "status j \<noteq> ''cancelled'' \<Longrightarrow> row_step j (completed_row j r t)"
  using row_step.retry [where j = j and m = msg and t = t] row_step.give_up [where j = j and m = msg and t = t]
    row_step.start [where j = j and t = t] row_step.complete [where j = j and t = t and r = r]
  by (simp_all add: retried_row_def failed_row_def started_row_def completed_row_def)

context reliable_services
begin

lemma tracked_handle_failure:
  assumes t: "tracked_but S (view w)" and "\<And>w'. tracked_but (S - {str_uuid i}) (view w') \<Longrightarrow> Q () w'"
  shows "wp (handle_failure A (str_uuid i) msg) Q X w"
proof (rule wp_handle_failure [OF tracked_but_good [OF t]])
  fix w' assume "rows (view w) i = None" "view w' = view w"
  then show "Q () w'" using tracked_skip [OF t] by (intro assms(2)) simp
next
  fix j c w'
  assume h: "rows (view w) i = Some j" "max_attempts j \<le> attempts j"
    "rows (view w') = (rows (view w))(i \<mapsto> failed_row j msg c)" "zsets (view w') = zsets (view w)"
    "lists (view w') = lists (view w)"
  then show "Q () w'"
    by (intro assms(2) tracked_row [OF t h(1) row_steps_of(2) h(3)]) (auto simp: queued_in_def failed_row_def)
next
  fix j r c now w'
  assume h: "rows (view w) i = Some j" "attempts j < max_attempts j" "0 \<le> r" "r \<le> 1 - 1 / 2 ^ 53" "0 \<le> now"
    "rows (view w') = (rows (view w))(i \<mapsto> retried_row j msg (c + timedelta_us (backoff (attempts j) MAX_DELAY r)))"
    "zsets (view w') = (zsets (view w))(RETRY_KEY := (zsets (view w) RETRY_KEY)(str_uuid i \<mapsto>
       fl (now + backoff (attempts j) MAX_DELAY r)))"
    "lists (view w') = lists (view w)"
  then show "Q () w'"
    by (intro assms(2) tracked_row [OF t h(1) row_steps_of(1) h(6)]) (auto simp: queued_in_def)
qed

lemma tracked_start_job:
  assumes t: "tracked_but S (view w)" and "\<And>r w'. tracked_but (S - {str_uuid i}) (view w') \<Longrightarrow> Q r w'"
  shows "wp (start_job A (str_uuid i) source) Q X w"
proof (rule wp_start_job [OF tracked_but_good [OF t]])
  fix w' assume "\<forall>j. rows (view w) i = Some j \<longrightarrow> status j \<noteq> ''queued''" "view w' = view w"
  then show "Q None w'" using tracked_skip [OF t] by (intro assms(2)) simp
next
  fix j c w'
  assume h: "rows (view w) i = Some j" "status j = ''queued''" "rows (view w') = (rows (view w))(i \<mapsto> started_row j c)"
    "zsets (view w') = zsets (view w)" "lists (view w') = lists (view w)"
  then show "Q (Some \<lparr>cj_type = job_type j, cj_payload = payload j, cj_priority = priority j, cj_created_at = created_at j, cj_started_at = c\<rparr>) w'"
    by (intro assms(2) tracked_row [OF t h(1) row_steps_of(3) h(3)]) (auto simp: queued_in_def started_row_def)
qed

lemma tracked_complete_job:
  assumes t: "tracked (view w)" and "\<And>w'. tracked (view w') \<Longrightarrow> Q () w'"
  shows "wp (complete_job A (str_uuid i) c result) Q X w"
proof (rule wp_complete_job [OF tracked_but_good [OF t]])
  fix j c' w'
  assume h: "rows (view w) i = Some j" "status j \<noteq> ''cancelled''"
    "rows (view w') = (rows (view w))(i \<mapsto> completed_row j result c')"
    "zsets (view w') = zsets (view w)" "lists (view w') = lists (view w)"
  have "tracked_but ({} - {str_uuid i}) (view w')"
    by (rule tracked_row [OF t h(1) row_steps_of(4) h(3)]) (use h in \<open>auto simp: queued_in_def completed_row_def\<close>)
  then show "Q () w'" by (intro assms(2)) simp
next
  fix w' assume "view w' = view w"
  then show "Q () w'" using t by (intro assms(2)) simp
next
  fix w' assume "data (view w') = data (view w)"
  then have "tracked (view w') = tracked (view w)" by (rule tracked_but_data)
  then show "Q () w'" using t by (intro assms(2)) simp
qed

end

subsection \<open>A pass of the worker\<close>

context reliable_services
begin

lemma wp_execution:
  assumes "\<And>r w'. view w' = view w \<Longrightarrow> Q r w'" and "\<And>e w'. view w' = view w \<Longrightarrow> X e w'"
  shows "wp (wait_for A secs (execute A cls jid pl)) Q X w"
  using executor.wp_wait_for [OF deadline_law, of w Q X] assms by blast

lemma tracked_on_failure:
  assumes t: "tracked (view w)" and "\<And>w'. tracked (view w') \<Longrightarrow> Q () w'"
  shows "wp (on_failure A cls (str_uuid i) c t e) Q X w"
  unfolding on_failure_def wp_if wp_bind
  by (auto intro!: wp_now wp_record wp_count tracked_handle_failure [where S = "{}"] assms(2) simp: t)

lemma tracked_run_job:
  assumes t: "tracked (view w)" and Q: "\<And>w'. tracked (view w') \<Longrightarrow> Q () w'"
    and X: "\<And>e w'. tracked (view w') \<Longrightarrow> get_executor (cj_type c) = Inl e \<Longrightarrow> X e w'"
  shows "wp (run_job A (str_uuid i) c) Q X w"
  unfolding run_job_def wp_bind
proof (rule wp_record, rule wp_updown)
  fix w0 ms0 w1 ms
  assume "view w0 = (view w)\<lparr>meters := meters (view w) @ ms0\<rparr>"
    and "view w1 = (view w0)\<lparr>meters := meters (view w0) @ ms\<rparr>"
  then have t1: "tracked (view w1)" using t by simp
  show "wp (executor_io (cj_type c)) (\<lambda>cls. wp (now_utc A) (\<lambda>t_start. wp (try_except
        (bind_io (wait_for A (max_execution_seconds cls) (execute A cls (str_uuid i) (cj_payload c))) (\<lambda>result.
         bind_io (now_utc A) (\<lambda>t.
         seq_io (record_io A ''job_processing_duration'' (total_seconds t_start t)
                   [(''job_type'', cj_type c), (''priority'', cj_priority c)])
         (seq_io (record_io A ''worker_executor_duration'' (total_seconds t_start t)
                   [(''job_type'', cj_type c), (''worker_id'', hostname A)])
         (complete_job A (str_uuid i) c result)))))
        (on_failure A cls (str_uuid i) c t_start)) Q X) X) X w1"
  proof (cases "get_executor (cj_type c)")
    case (Inl e)
    then show ?thesis using X [OF t1 Inl] by (simp add: executor_io_def wp_raise)
  next
    case (Inr cls)
    show ?thesis
      unfolding executor_io_def Inr sum.case wp_return wp_try_except wp_bind
      by (intro wp_execution wp_now wp_record tracked_complete_job tracked_on_failure Q) (auto simp: t1)
  qed
qed

lemma tracked_requeue:
  assumes t: "tracked_but S (view w)" and "\<And>w'. tracked_but (S - {str_uuid i}) (view w') \<Longrightarrow> Q () w'"
  shows "wp (requeue_due A (str_uuid i)) Q X w"
proof (rule wp_requeue_due)
  fix w' assume "\<forall>j. rows (view w) i = Some j \<longrightarrow> status j \<noteq> ''queued''" "view w' = view w"
  then show "Q () w'" using tracked_skip [OF t] by (intro assms(2)) simp
next
  fix j sc w'
  assume d: "data (view w') = zset_put PRIORITY_KEY (str_uuid i) (score_at (priority j) sc) (data (view w))"
  have "tracked_but (S - {str_uuid i}) (data (view w'))"
    by (rule tracked_put [where s = "data (view w)" and k = PRIORITY_KEY]) (simp_all add: d t)
  then show "Q () w'" by (intro assms(2)) simp
qed

lemma tracked_requeue_all:
  assumes "tracked_but (set ids) (view w)" and "set ids \<subseteq> range str_uuid"
    and "\<And>w'. tracked (view w') \<Longrightarrow> Q () w'"
  shows "wp (for_each (requeue_due A) ids) Q X w"
proof (rule wp_for_each [where Inv = "\<lambda>xs w. tracked_but (set xs) (view w) \<and> set xs \<subseteq> range str_uuid"])
  fix x :: string and xs w1
  assume h: "tracked_but (set (x # xs)) (view w1) \<and> set (x # xs) \<subseteq> range str_uuid"
  then obtain i where x: "x = str_uuid i" by auto
  show "wp (requeue_due A x) (\<lambda>_ w. tracked_but (set xs) (view w) \<and> set xs \<subseteq> range str_uuid) X w1"
    unfolding x using h x by (intro tracked_requeue [of "set (x # xs)"]) (auto elim: tracked_but_mono)
qed (use assms in auto)

text \<open>A claim hands out an identifier it has dealt with.\<close>

lemma tracked_claim:
  assumes t: "tracked (view w)" and none: "\<And>w'. tracked (view w') \<Longrightarrow> Q None w'"
    and some: "\<And>i c w'. tracked (view w') \<Longrightarrow> Q (Some (str_uuid i, c)) w'"
  shows "wp (claim_phase A) Q X w"
  unfolding claim_phase_def wp_bind
proof (rule wp_drain_total)
  fix now ids w1
  assume d: "drained (zsets (view w) RETRY_KEY) 10 now ids"
    and v: "data (view w1) = zset_drop RETRY_KEY ids (data (view w))"
  have ids: "queued_in (view w) m" if "m \<in> set ids" for m
    using that d by (auto simp: drained_def queued_in_def dest: in_set_takeD)
  have "tracked_but ({} \<union> set ids) (data (view w1))"
    by (rule tracked_take [where s = "data (view w)"]) (auto simp: t v queued_in_def without_ids_def split: if_splits)
  then have t1: "tracked_but (set ids) (view w1)" by simp
  show "wp (for_each (requeue_due A) ids) (\<lambda>_. wp (next_job A) (\<lambda>nxt. wp (case nxt of
        None \<Rightarrow> seq_io (count_io A ''worker_loop_iterations'' 1 [(''worker_id'', hostname A), (''outcome'', ''no_job'')])
                 (return_io None)
      | Some (jid, source) \<Rightarrow>
          bind_io (start_job A jid source) (\<lambda>claim. return_io (map_option (\<lambda>c. (jid, c)) claim))) Q X) X) X w1"
  proof (rule tracked_requeue_all [OF t1])
    show "set ids \<subseteq> range str_uuid" using ids tracked_but_named [OF t] by blast
  next
    fix w2
    assume t2: "tracked (view w2)"
    have taken: "wp (bind_io (start_job A m source) (\<lambda>claim. return_io (map_option (\<lambda>c. (m, c)) claim))) Q X w3"
      if q: "queued_in (view w2) m" "rows (view w3) = rows (view w2)"
        "\<And>n. queued_in (view w2) n \<Longrightarrow> n = m \<or> queued_in (view w3) n"
        "\<And>n. queued_in (view w3) n \<Longrightarrow> queued_in (view w2) n" for m w3 source
    proof -
      obtain i where m: "m = str_uuid i" using tracked_but_named [OF t2 q(1)] by blast
      have "tracked_but ({} \<union> {m}) (view w3)" by (rule tracked_take [OF t2 q(2)]) (use q in auto)
      then have "tracked_but {str_uuid i} (view w3)" by (simp add: m)
      then have "wp (start_job A (str_uuid i) source)
          (\<lambda>claim. Q (map_option (\<lambda>c. (str_uuid i, c)) claim)) X w3"
      proof (rule tracked_start_job)
        fix r w' assume "tracked_but ({str_uuid i} - {str_uuid i}) (view w')"
        then show "Q (map_option (\<lambda>c. (str_uuid i, c)) r) w'" by (cases r) (auto intro: none some)
      qed
      then show ?thesis unfolding m by (simp add: wp_simps)
    qed
    show "wp (next_job A) (\<lambda>nxt. wp (case nxt of
        None \<Rightarrow> seq_io (count_io A ''worker_loop_iterations'' 1 [(''worker_id'', hostname A), (''outcome'', ''no_job'')])
                 (return_io None)
      | Some (jid, source) \<Rightarrow>
          bind_io (start_job A jid source) (\<lambda>claim. return_io (map_option (\<lambda>c. (jid, c)) claim))) Q X) X w2"
    proof (rule wp_next_job)
      show "'''' \<notin> dom (zsets (view w2) PRIORITY_KEY)" "'''' \<notin> set (lists (view w2) FIFO_KEY)"
        using tracked_but_no_empty [OF t2] by (auto simp: queued_in_def)
    next
      fix w3 assume "data (view w3) = data (view w2)"
      then have "tracked (view w3)" using t2 by (metis tracked_but_data)
      then show "wp (case None of
        None \<Rightarrow> seq_io (count_io A ''worker_loop_iterations'' 1 [(''worker_id'', hostname A), (''outcome'', ''no_job'')])
                 (return_io None)
      | Some (jid, source) \<Rightarrow>
          bind_io (start_job A jid source) (\<lambda>claim. return_io (map_option (\<lambda>c. (jid, c)) claim))) Q X w3"
        by (auto simp: wp_simps intro!: wp_count none)
    next
      fix m w3
      assume "zfirst (zsets (view w2) PRIORITY_KEY) m" and v3: "data (view w3) = zset_del PRIORITY_KEY m (data (view w2))"
      then have "wp (bind_io (start_job A m ''priority'') (\<lambda>claim. return_io (map_option (\<lambda>c. (m, c)) claim))) Q X w3"
        by (intro taken) (auto simp: queued_in_def zfirst_def data_isD [OF v3] split: if_splits)
      then show "wp (case Some (m, ''priority'') of
        None \<Rightarrow> seq_io (count_io A ''worker_loop_iterations'' 1 [(''worker_id'', hostname A), (''outcome'', ''no_job'')])
                 (return_io None)
      | Some (jid, source) \<Rightarrow>
          bind_io (start_job A jid source) (\<lambda>claim. return_io (map_option (\<lambda>c. (jid, c)) claim))) Q X w3" by simp
    next
      fix m w3
      assume l: "lists (view w2) FIFO_KEY \<noteq> []" "m = last (lists (view w2) FIFO_KEY)"
        and v3: "data (view w3) = list_put FIFO_KEY (butlast (lists (view w2) FIFO_KEY)) (data (view w2))"
      have "set (lists (view w2) FIFO_KEY) = insert m (set (butlast (lists (view w2) FIFO_KEY)))"
        by (subst append_butlast_last_id [OF l(1), symmetric]) (simp add: l(2))
      then have "wp (bind_io (start_job A m ''fifo'') (\<lambda>claim. return_io (map_option (\<lambda>c. (m, c)) claim))) Q X w3"
        by (intro taken) (auto simp: queued_in_def data_isD [OF v3])
      then show "wp (case Some (m, ''fifo'') of
        None \<Rightarrow> seq_io (count_io A ''worker_loop_iterations'' 1 [(''worker_id'', hostname A), (''outcome'', ''no_job'')])
                 (return_io None)
      | Some (jid, source) \<Rightarrow>
          bind_io (start_job A jid source) (\<lambda>claim. return_io (map_option (\<lambda>c. (jid, c)) claim))) Q X w3" by simp
    qed
  qed
qed

lemma tracked_poll_once:
  assumes t: "tracked (view w)" and Q: "\<And>w'. tracked (view w') \<Longrightarrow> Q () w'"
    and X: "\<And>e w'. tracked (view w') \<Longrightarrow> X e w'"
  shows "wp (poll_once A) Q X w"
  unfolding poll_once_phases wp_bind
  by (rule tracked_claim [OF t]) (auto simp: wp_return intro!: Q X tracked_run_job)

lemma tracked_worker_iteration:
  assumes "tracked (view w)" and "\<And>w'. tracked (view w') \<Longrightarrow> Q () w'"
  shows "wp (worker_iteration A) Q X w"
  unfolding worker_iteration_def wp_try_except
  by (rule tracked_poll_once [OF assms(1)]) (auto simp: wp_bind intro!: assms(2) wp_count wp_nap)

end

subsection \<open>Recovery\<close>

text \<open>The row that recovery makes of a stuck row.\<close>

definition recovery_row :: "job \<Rightarrow> job \<Rightarrow> bool" where
  "recovery_row j r \<longleftrightarrow>
     (if max_attempts j \<le> attempts j + 1
      then \<exists>t. r = j\<lparr>attempts := attempts j + 1, status := ''failed'', completed_at := Some t,
                     job_error := Some ''Worker crashed; max attempts exhausted during recovery''\<rparr>
      else \<exists>t. r = j\<lparr>attempts := attempts j + 1, status := ''queued'', next_retry_at := Some t\<rparr>)"

lemma recovery_row_status:
  "recovery_row j r \<Longrightarrow> status r = ''queued'' \<Longrightarrow> attempts j + 1 < max_attempts j"
  by (auto simp: recovery_row_def split: if_splits)

lemma recovery_writes_row:
  assumes "recovery_of j ws" and "t (job_id j) = Some j"
  shows "\<exists>r. recovery_row j r \<and> row_writes ws t = t(job_id j \<mapsto> r)"
proof -
  consider c where "max_attempts j \<le> attempts j + 1" "ws = recover_fail_writes j c"
    | c d where "\<not> max_attempts j \<le> attempts j + 1" "ws = recover_retry_writes j c d"
    using assms(1) unfolding recovery_of_def by (auto split: if_splits)
  then show ?thesis
  proof cases
    case 1
    then show ?thesis
      unfolding recovery_row_def if_P [OF 1(1)] recover_fail_writes_def
      by (auto simp only: one_update(1) [where t = t and i = "job_id j", OF assms(2)] status_value.simps)
  next
    case 2
    then show ?thesis
      unfolding recovery_row_def if_not_P [OF 2(1)] recover_retry_writes_def
      by (auto simp only: one_update(1) [where t = t and i = "job_id j", OF assms(2)] status_value.simps)
  qed
qed

lemma recovered_rows:
  assumes "distinct (map job_id js)" and "\<forall>j \<in> set js. t (job_id j) = Some j" and "recovered js ws"
  shows "(i \<notin> job_id ` set js \<longrightarrow> row_writes ws t i = t i) \<and>
    (\<forall>j \<in> set js. job_id j = i \<longrightarrow> (\<exists>r. row_writes ws t i = Some r \<and> recovery_row j r))"
  using assms
proof (induction js arbitrary: t ws)
  case Nil
  then show ?case by simp
next
  case (Cons j js)
  from Cons.prems(3) obtain ws1 ws2 where ws: "ws = ws1 @ ws2" "recovered js ws2" and "recovery_of j ws1" by auto
  then obtain r where r: "recovery_row j r" "row_writes ws1 t = t(job_id j \<mapsto> r)"
    using recovery_writes_row [of j ws1 t] Cons.prems(2) by auto
  have IH: "(i \<notin> job_id ` set js \<longrightarrow> row_writes ws2 (row_writes ws1 t) i = row_writes ws1 t i) \<and>
    (\<forall>k \<in> set js. job_id k = i \<longrightarrow> (\<exists>r. row_writes ws2 (row_writes ws1 t) i = Some r \<and> recovery_row k r))"
  proof (rule Cons.IH [OF _ _ ws(2)])
    show "distinct (map job_id js)" using Cons.prems(1) by simp
    have "job_id k \<noteq> job_id j" if "k \<in> set js" for k
      using that Cons.prems(1) by (metis distinct.simps(2) image_eqI list.set_map list.simps(9))
    then show "\<forall>k \<in> set js. row_writes ws1 t (job_id k) = Some k"
      using Cons.prems(2) by (simp add: r(2))
  qed
  show ?case
    unfolding ws(1) row_writes_append
  proof (intro conjI impI ballI)
    assume "i \<notin> job_id ` set (j # js)"
    then show "row_writes ws2 (row_writes ws1 t) i = t i" using IH r(2) by simp
  next
    fix k
    assume k: "k \<in> set (j # js)" "job_id k = i"
    show "\<exists>r. row_writes ws2 (row_writes ws1 t) i = Some r \<and> recovery_row k r"
    proof (cases "k = j")
      case True
      then have "i \<notin> job_id ` set js" using Cons.prems(1) k(2) by simp
      then show ?thesis using IH r True k(2) by simp
    next
      case False
      then show ?thesis using IH k by simp
    qed
  qed
qed

text \<open>Recovery only adds to the retry queue: exactly the rows it re-queues.\<close>

definition requeued :: "job list \<Rightarrow> string set" where
  "requeued js = (\<lambda>j. str_uuid (job_id j)) ` {j \<in> set js. attempts j + 1 < max_attempts j}"

context reliable_services
begin

lemma wp_recover_one_total:
  "wp (recover_one A j)
     (\<lambda>ws w'. recovery_of j ws \<and> rows (view w') = rows (view w) \<and> lists (view w') = lists (view w) \<and>
        (\<forall>k. k \<noteq> RETRY_KEY \<longrightarrow> zsets (view w') k = zsets (view w) k) \<and>
        dom (zsets (view w') RETRY_KEY) = dom (zsets (view w) RETRY_KEY) \<union> requeued [j]) (\<lambda>_ _. False) w"
proof (cases "max_attempts j \<le> attempts j + 1")
  case True
  then show ?thesis
    by (auto simp: recover_one_def recovery_of_def requeued_def wp_simps intro!: wp_now wp_count)
next
  case False
  have rq: "requeued [j] = {str_uuid (job_id j)}" using False by (auto simp: requeued_def)
  show ?thesis
    unfolding recover_one_def if_not_P [OF False] wp_bind wp_return
  proof (intro wp_backoff wp_now wp_time wp_enqueue_retry_total wp_count)
    fix r w1 t w2 now w3 w4 w5 ms
    assume v: "view w1 = view w" "view w2 = view w1" "view w3 = view w2"
      and d: "data (view w4) = zset_put RETRY_KEY (str_uuid (job_id j))
          (fl (now + backoff (attempts j + 1) MAX_DELAY r)) (data (view w3))"
      and v5: "view w5 = (view w4)\<lparr>meters := meters (view w4) @ ms\<rparr>"
    have "rows (data (view w4)) = rows (view w)" "lists (data (view w4)) = lists (view w)"
      "zsets (data (view w4)) = (zsets (view w))(RETRY_KEY := (zsets (view w) RETRY_KEY)(str_uuid (job_id j) \<mapsto>
         fl (now + backoff (attempts j + 1) MAX_DELAY r)))"
      unfolding d by (simp_all add: v)
    then have "rows (view w5) = rows (view w)" "lists (view w5) = lists (view w)"
      "zsets (view w5) = (zsets (view w))(RETRY_KEY := (zsets (view w) RETRY_KEY)(str_uuid (job_id j) \<mapsto>
         fl (now + backoff (attempts j + 1) MAX_DELAY r)))"
      by (simp_all add: v5)
    moreover have "recovery_of j (recover_retry_writes j t (backoff (attempts j + 1) MAX_DELAY r))"
      unfolding recovery_of_def if_not_P [OF False] by blast
    ultimately show "recovery_of j (recover_retry_writes j t (backoff (attempts j + 1) MAX_DELAY r)) \<and>
        rows (view w5) = rows (view w) \<and> lists (view w5) = lists (view w) \<and>
        (\<forall>k. k \<noteq> RETRY_KEY \<longrightarrow> zsets (view w5) k = zsets (view w) k) \<and>
        dom (zsets (view w5) RETRY_KEY) = dom (zsets (view w) RETRY_KEY) \<union> requeued [j]"
      unfolding rq by simp
  qed
qed

lemma wp_recover_each_total:
  "wp (recover_each A js)
     (\<lambda>ws w'. recovered js ws \<and> rows (view w') = rows (view w) \<and> lists (view w') = lists (view w) \<and>
        (\<forall>k. k \<noteq> RETRY_KEY \<longrightarrow> zsets (view w') k = zsets (view w) k) \<and>
        dom (zsets (view w') RETRY_KEY) = dom (zsets (view w) RETRY_KEY) \<union> requeued js) (\<lambda>_ _. False) w"
proof (induction js arbitrary: w)
  case Nil
  then show ?case by (simp add: wp_simps requeued_def)
next
  case (Cons j js)
  have "requeued (j # js) = requeued [j] \<union> requeued js" by (auto simp: requeued_def)
  then show ?case
    unfolding recover_each.simps wp_bind wp_return
    by (intro wp_mono [OF wp_recover_one_total] wp_mono [OF Cons.IH]) auto
qed

end

lemma writable_append:
  "writable (ws1 @ ws2) t = (writable ws1 t \<and> writable ws2 (row_writes ws1 t))"
proof (induction ws1 arbitrary: t)
  case Nil
  then show ?case by simp
next
  case (Cons x xs)
  show ?case
    by (cases x) (simp_all only: append_Cons writable.simps Cons.IH conj_assoc row_writes.simps row_write.simps(3))
qed

lemma recovered_writable:
  assumes "recovered js ws" and "\<forall>j \<in> set js. job_id j \<in> dom t"
  shows "writable ws t"
  using assms
proof (induction js arbitrary: ws t)
  case Nil
  then show ?case by simp
next
  case (Cons j js)
  then obtain ws1 ws2 where ws: "ws = ws1 @ ws2" "recovered js ws2" "recovery_of j ws1" by auto
  obtain r where j: "t (job_id j) = Some r" using Cons.prems(2) by auto
  have "\<exists>f l m. ws1 = [UpdateJob (job_id j) f, AddLog (job_id j) l m]"
    using ws(3) unfolding recovery_of_def recover_fail_writes_def recover_retry_writes_def by (simp only: split: if_splits) blast+
  then obtain f l m where "ws1 = [UpdateJob (job_id j) f, AddLog (job_id j) l m]" by blast
  then have "writable ws1 t" and "row_writes ws1 t = t(job_id j \<mapsto> f r)"
    using one_update [where t = t and i = "job_id j", OF j] by simp_all
  moreover have "dom (t(job_id j \<mapsto> f r)) = dom t" using j by auto
  ultimately have "writable ws1 t \<and> dom (row_writes ws1 t) = dom t" by (simp only:)
  then show ?case
    using Cons.IH [OF ws(2), of "row_writes ws1 t"] Cons.prems(2) by (simp add: ws(1) writable_append)
qed

text \<open>The whole of recovery, for a threshold of \<open>m\<close> minutes before \<open>now\<close>.\<close>

definition recovery_done :: "datetime \<Rightarrow> store \<Rightarrow> store \<Rightarrow> bool" where
  "recovery_done threshold s s' \<longleftrightarrow>
     (\<forall>i. case rows s i of
            None \<Rightarrow> rows s' i = None
          | Some j \<Rightarrow> if stuck threshold j then \<exists>r. rows s' i = Some r \<and> recovery_row j r else rows s' i = Some j) \<and>
     lists s' = lists s \<and> (\<forall>k. k \<noteq> RETRY_KEY \<longrightarrow> zsets s' k = zsets s k) \<and>
     dom (zsets s' RETRY_KEY) = dom (zsets s RETRY_KEY) \<union>
       {str_uuid i |i j. rows s i = Some j \<and> stuck threshold j \<and> attempts j + 1 < max_attempts j}"

lemma recovery_doneI:
  assumes g: "good_table (rows s)" and js: "distinct js" "set js = matching (stuck threshold) s"
    and ws: "recovered js ws" "rows s' = row_writes ws (rows s)"
    and q: "lists s' = lists s" "\<forall>k. k \<noteq> RETRY_KEY \<longrightarrow> zsets s' k = zsets s k"
      "dom (zsets s' RETRY_KEY) = dom (zsets s RETRY_KEY) \<union> requeued js"
  shows "recovery_done threshold s s'" and "good_table (rows s')"
proof -
  have at: "\<forall>j \<in> set js. rows s (job_id j) = Some j"
    using g js(2) by (auto simp: matching_def ran_def dest: good_tableD(4))
  then have p: "\<forall>j \<in> set js. rows s (job_id j) = Some j \<and> status j = ''processing''"
    using js(2) by (auto simp: matching_def stuck_def)
  have in_js: "j \<in> set js \<longleftrightarrow> stuck threshold j" if "rows s i = Some j" for i j
    using that js(2) by (auto simp: matching_def ran_def)
  have d: "distinct (map job_id js)"
    using js(1) at by (auto simp: distinct_map inj_on_def) (metis option.inject)
  show "good_table (rows s')"
    using recovered_steps [OF js(1) p ws(1)] g unfolding ws(2) by (rule good_table_steps)
  have "case rows s i of
            None \<Rightarrow> rows s' i = None
          | Some j \<Rightarrow> if stuck threshold j then \<exists>r. rows s' i = Some r \<and> recovery_row j r else rows s' i = Some j" for i
  proof (cases "rows s i")
    case None
    then have "i \<notin> job_id ` set js" using at by fastforce
    then show ?thesis using recovered_rows [OF d at ws(1), of i] None by (simp add: ws(2))
  next
    case (Some j)
    note id = good_tableD(4) [OF g Some]
    show ?thesis
    proof (cases "stuck threshold j")
      case True
      then have "j \<in> set js" using in_js [OF Some] by simp
      then show ?thesis using recovered_rows [OF d at ws(1), of i] Some True id by (simp add: ws(2))
    next
      case False
      have "i \<notin> job_id ` set js"
      proof
        assume "i \<in> job_id ` set js"
        then obtain k where "k \<in> set js" "job_id k = i" by blast
        then show False using at Some False in_js [OF Some] by auto
      qed
      then show ?thesis using recovered_rows [OF d at ws(1), of i] Some False by (simp add: ws(2))
    qed
  qed
  moreover have "requeued js = {str_uuid i |i j. rows s i = Some j \<and> stuck threshold j \<and> attempts j + 1 < max_attempts j}"
    using at in_js by (fastforce simp: requeued_def dest: good_tableD(4) [OF g])
  ultimately show "recovery_done threshold s s'" using q by (simp add: recovery_done_def)
qed

lemma tracked_recovery_done:
  assumes t: "tracked s" and r: "recovery_done threshold s s'" and g: "good_table (rows s')"
  shows "tracked s'"
proof -
  have q: "queued_in s' m \<longleftrightarrow> queued_in s m \<or> m \<in> {str_uuid i |i j. rows s i = Some j \<and> stuck threshold j \<and>
      attempts j + 1 < max_attempts j}" for m
    using r by (auto simp: recovery_done_def queued_in_def)
  have "queued_in s' (str_uuid i)" if h: "rows s' i = Some r'" "status r' = ''queued''" for i r'
  proof (cases "rows s i")
    case None
    then show ?thesis using h r by (auto simp: recovery_done_def dest: spec [of _ i])
  next
    case (Some j)
    show ?thesis
    proof (cases "stuck threshold j")
      case True
      then have "recovery_row j r'" using r h Some by (auto simp: recovery_done_def dest: spec [of _ i])
      then show ?thesis using recovery_row_status h(2) Some True unfolding q by blast
    next
      case False
      then have "r' = j" using r h Some by (auto simp: recovery_done_def dest: spec [of _ i])
      then show ?thesis using t Some h(2) by (auto simp: q tracked_but_def)
    qed
  qed
  then show ?thesis using g t by (auto simp: tracked_but_def q)
qed

context reliable_services
begin

lemma wp_reading_now:
  assumes "\<And>now w'. now = fst (clock_now A w) \<Longrightarrow> view w' = view w \<Longrightarrow> Q now w'"
  shows "wp (now_utc A) Q X w"
proof -
  have "view (snd (clock_now A w)) = view w" using now_law by (simp add: reading_def)
  then show ?thesis using assms [OF refl] by (cases "clock_now A w") (simp add: wp_def read_io_def)
qed

lemma wp_recovery_at:
  assumes g: "good_table (rows (view w))"
    and Q: "\<And>now w'. now = fst (clock_now A w) \<Longrightarrow> recovery_done (now - m * 60 * 10 ^ 6) (view w) (view w') \<Longrightarrow> good_table (rows (view w')) \<Longrightarrow> Q () w'"
  shows "wp (run_startup_recovery A m) Q X w"
  unfolding run_startup_recovery_def wp_bind
proof (rule wp_reading_now, rule wp_call_total [OF where_law query_total(2)])
  fix now w1 js w2
  assume n: "now = fst (clock_now A w)" and w1: "view w1 = view w"
    and q: "view w2 = view w1 \<and> distinct js \<and> set js = matching (stuck (now - m * 60 * 10 ^ 6)) (view w1)"
  then have w2: "view w2 = view w" and js: "distinct js" "set js = matching (stuck (now - m * 60 * 10 ^ 6)) (view w)"
    by simp_all
  note made = recovery_doneI [OF g js]
  have at: "\<forall>j \<in> set js. rows (view w) (job_id j) = Some j \<and> status j = ''processing''"
    using g js(2) by (auto simp: matching_def ran_def stuck_def dest: good_tableD(4))
  show "wp (if js = [] then return_io () else bind_io (recover_each A js) (\<lambda>ws. db_commit A ws)) Q X w2"
  proof (cases "js = []")
    case True
    then have "recovered js []" "requeued js = {}" by (simp_all add: requeued_def)
    then show ?thesis using True w2 made [of "[]" "view w2"] by (auto simp: wp_return intro: Q [OF n])
  next
    case False
    have "wp (recover_each A js) (\<lambda>ws. wp (db_commit A ws) Q X) X w2"
    proof (rule wp_mono [OF wp_recover_each_total])
      fix ws w3
      assume h: "recovered js ws \<and> rows (view w3) = rows (view w2) \<and> lists (view w3) = lists (view w2) \<and>
        (\<forall>k. k \<noteq> RETRY_KEY \<longrightarrow> zsets (view w3) k = zsets (view w2) k) \<and>
        dom (zsets (view w3) RETRY_KEY) = dom (zsets (view w2) RETRY_KEY) \<union> requeued js"
      show "wp (db_commit A ws) Q X w3"
      proof (rule wp_commit_rows [OF _ refl])
        show "writable ws (rows (view w3))" using h at w2 by (intro recovered_writable) auto
      next
        fix w4
        assume c: "rows (view w4) = row_writes ws (rows (view w3))" "zsets (view w4) = zsets (view w3)"
          "lists (view w4) = lists (view w3)"
        show "Q () w4"
          by (rule Q [OF n]; rule made [of ws]) (use h c w2 in simp_all)
      qed
    qed simp
    with False show ?thesis by (simp add: wp_bind)
  qed
qed

lemma wp_recovery_total:
  assumes "good_table (rows (view w))"
    and "\<And>now w'. recovery_done (now - m * 60 * 10 ^ 6) (view w) (view w') \<Longrightarrow> good_table (rows (view w')) \<Longrightarrow> Q () w'"
  shows "wp (run_startup_recovery A m) Q X w"
  by (rule wp_recovery_at [OF assms(1)]) (rule assms(2))

lemma tracked_recovery:
  assumes "tracked (view w)" and "\<And>w'. tracked (view w') \<Longrightarrow> Q () w'"
  shows "wp (run_startup_recovery A m) Q X w"
  by (rule wp_recovery_total [OF tracked_but_good [OF assms(1)]])
     (auto intro: assms(2) tracked_recovery_done [OF assms(1)])

end

subsection \<open>The API\<close>

lemma tracked_inserted:
  assumes t: "tracked s" and i: "inserted jc s j s'" and m: "1 \<le> jc_max_attempts jc" "jc_max_attempts jc \<le> 10"
  shows "tracked s'"
proof -
  from i obtain u c tp ts where j: "j = new_job u c (jc_type jc) (payload_with_trace (jc_payload jc) tp)
      (jc_priority jc) (jc_idempotency_key jc) (jc_max_attempts jc)"
    and d: "data s' = zset_put PRIORITY_KEY (str_uuid u) (score_at (jc_priority jc) ts)
                    ((data s)\<lparr>rows := (rows s)(u \<mapsto> j)\<rparr>)" by (auto simp: inserted_def)
  have s': "rows (data s') = (rows s)(u \<mapsto> j)" "lists (data s') = lists s"
    "zsets (data s') = (zsets s)(PRIORITY_KEY := (zsets s PRIORITY_KEY)(str_uuid u \<mapsto> score_at (jc_priority jc) ts))"
    unfolding d by simp_all
  have g: "good_table (rows s')"
    using good_table_step [OF inserted_step [OF i m]] t by (simp add: tracked_but_def)
  have q: "queued_in s' n \<longleftrightarrow> queued_in s n \<or> n = str_uuid u" for n
    using s' by (auto simp: queued_in_def)
  have "queued_in s' (str_uuid k)" if "rows s' k = Some r" "status r = ''queued''" for k r
    using that t s'(1) by (cases "k = u") (auto simp: q tracked_but_def)
  then show ?thesis using g t by (auto simp: tracked_but_def q)
qed

lemma tracked_orphan:
  assumes "tracked s" and "data s' = zset_put PRIORITY_KEY (str_uuid u) sc (data s)"
  shows "tracked s'"
proof -
  have "tracked_but ({} - {str_uuid u}) (data s')"
    by (rule tracked_put [where s = "data s" and k = PRIORITY_KEY]) (simp_all add: assms)
  then show ?thesis by simp
qed

lemma tracked_cancelled:
  assumes t: "tracked s" and j: "rows s i = Some j" "status j = ''queued'' \<or> status j = ''processing''"
    and d: "data s' = zset_del RETRY_KEY (str_uuid i) (zset_del PRIORITY_KEY (str_uuid i)
          (list_put FIFO_KEY (removeAll (str_uuid i) (lists s FIFO_KEY))
            ((data s)\<lparr>rows := (rows s)(i \<mapsto> j\<lparr>status := ''cancelled''\<rparr>)\<rparr>)))"
  shows "tracked s'"
proof -
  have sel: "rows (data s') = (rows s)(i \<mapsto> j\<lparr>status := ''cancelled''\<rparr>)"
    "lists (data s') = (lists s)(FIFO_KEY := removeAll (str_uuid i) (lists s FIFO_KEY))"
    "zsets (data s') PRIORITY_KEY = (zsets s PRIORITY_KEY)(str_uuid i := None)"
    "zsets (data s') RETRY_KEY = (zsets s RETRY_KEY)(str_uuid i := None)" unfolding d by simp_all
  have "row_step j (j\<lparr>status := ''cancelled''\<rparr>)" using row_step.cancel [of j] j(2) by simp
  then have g: "good_table (rows s')"
    using good_table_step [OF table_step.row [where t = "rows s" and i = i, OF j(1)]] t sel(1)
    by (simp add: tracked_but_def)
  have q: "queued_in s' m \<longleftrightarrow> queued_in s m \<and> m \<noteq> str_uuid i" for m
    using sel by (auto simp: queued_in_def)
  have "queued_in s' (str_uuid k)" if "rows s' k = Some r" "status r = ''queued''" for k r
    using that t sel(1) by (cases "k = i") (auto simp: q tracked_but_def str_uuid_inject)
  then show ?thesis using g t by (auto simp: tracked_but_def q)
qed

context services
begin

text \<open>Creation keeps the invariant even when the services fail.\<close>

lemma tracked_create:
  assumes t: "tracked (view w)" and m: "1 \<le> jc_max_attempts jc" "jc_max_attempts jc \<le> 10"
  shows "wp (create_job A jc) (\<lambda>_ w'. tracked (view w')) (\<lambda>_ w'. tracked (view w')) w"
  unfolding create_job_def get_or_create_job_def wp_bind
proof (rule wp_lookup)
  fix w1
  assume "data (view w1) = data (view w)"
  then have t1: "tracked (view w1)" using t tracked_but_data by blast
  have "wp (create_new A jc) (\<lambda>_ w'. tracked (view w')) (\<lambda>_ w'. tracked (view w')) w1"
    by (rule wp_create_new)
       (use t1 in \<open>auto simp: create_failed_def intro: tracked_inserted [OF _ _ m] tracked_orphan
          tracked_but_data [THEN iffD2]\<close>)
  then show "wp (case None of None \<Rightarrow> create_new A jc | Some r \<Rightarrow> return_io (r, False))
      (\<lambda>_ w'. tracked (view w')) (\<lambda>_ w'. tracked (view w')) w1" by simp
next
  fix r w' assume "data (view w') = data (view w)"
  then show "wp (case Some r of None \<Rightarrow> create_new A jc | Some r \<Rightarrow> return_io (r, False))
      (\<lambda>_ w'. tracked (view w')) (\<lambda>_ w'. tracked (view w')) w'"
    using t tracked_but_data [of "view w'" "view w" "{}"] by (simp add: wp_return)
next
  fix e w' assume "data (view w') = data (view w)"
  then show "tracked (view w')" using t tracked_but_data by blast
qed

end

context reliable_services
begin

lemma tracked_cancel:
  assumes t: "tracked (view w)" and "\<And>r w'. tracked (view w') \<Longrightarrow> Q r w'"
  shows "wp (cancel_job A i) Q X w"
proof -
  have "keyed_by_id (rows (view w))" using tracked_but_good [OF t] by (simp add: good_table_def)
  then show ?thesis
    by (rule wp_cancel_total) (use t in \<open>auto intro!: assms(2) intro: tracked_cancelled\<close>)
qed

end

end
