(* ===== verification/System.thy ===== *)
theory System
  imports Tracking
begin

section \<open>The system: clients and workers side by side\<close>

text \<open>
  Any number of API clients and workers act on one table and three queues. A \<open>request\<close> is
  what one of them does in one go: an endpoint, a recovery, or one of the two phases of a
  worker's pass (\<open>WorkerClaim\<close>: up to the commit that marks the job processing;
  \<open>WorkerRun\<close>: the execution and the record of its outcome), so that everything else may
  happen while a job executes. \<open>run_request\<close> ends an exception where the program does: the
  HTTP server answers 500, the worker's loop goes on. The locale \<open>row_protocol\<close> is what the
  table relies on of its clients, \<open>queue_protocol\<close> adds what the queues rely on; the
  requests of the model are an instance of each.
\<close>

subsection \<open>Requests\<close>

datatype request =
    Create "exn option" job_create
  | Cancel uuid
  | Fetch uuid
  | Browse "string option" "string option" "string option" int int
  | Metrics
  | WorkerClaim
  | WorkerRun uuid claimed_job
  | WorkerPass
  | Recover int

text \<open>The bounds the request schema enforces.\<close>

fun valid_request :: "request \<Rightarrow> bool" where
  "valid_request (Create limited jc) \<longleftrightarrow> 1 \<le> jc_max_attempts jc \<and> jc_max_attempts jc \<le> 10"
| "valid_request _ \<longleftrightarrow> True"

definition attempt :: "('w, 'a) io \<Rightarrow> ('w, unit) io" where
  "attempt m = try_except (seq_io m (return_io ())) (\<lambda>_. return_io ())"

fun run_request :: "'w app \<Rightarrow> request \<Rightarrow> ('w, unit) io" where
  "run_request A (Create limited jc) = attempt (create_job_endpoint A limited jc)"
| "run_request A (Cancel i) = attempt (cancel_job_endpoint A i)"
| "run_request A (Fetch i) = attempt (get_job_endpoint A i)"
| "run_request A (Browse st ty pr pg psize) = attempt (list_jobs_endpoint A st ty pr pg psize)"
| "run_request A Metrics = attempt (get_metrics A)"
| "run_request A WorkerClaim = attempt (claim_phase A)"
| "run_request A (WorkerRun i c) = attempt (run_job A (str_uuid i) c)"
| "run_request A WorkerPass = worker_iteration A"
| "run_request A (Recover m) = attempt (run_startup_recovery A m)"

lemma wp_attempt: "wp (attempt m) Q X w = wp m (\<lambda>_. Q ()) (\<lambda>_. Q ()) w"
  by (simp add: attempt_def wp_simps)

subsection \<open>What the table relies on\<close>

locale row_protocol =
  fixes view :: "'w \<Rightarrow> store" and valid :: "'op \<Rightarrow> bool" and run :: "'op \<Rightarrow> ('w, unit) io"
  assumes run_evolves: "valid op \<Longrightarrow> evolves view (run op)"
begin

lemma runs_steps:
  assumes "list_all valid ops" and "good_table (rows (view w))"
  shows "wp (for_each run ops) (\<lambda>_ w'. table_step\<^sup>*\<^sup>* (rows (view w)) (rows (view w')))
     (\<lambda>_ w'. table_step\<^sup>*\<^sup>* (rows (view w)) (rows (view w'))) w"
proof -
  have "evolves view (for_each run ops)"
    using assms(1) by (induction ops) (auto intro: evolves_bind run_evolves evolves_keeps [OF keeps_db_return])
  then show ?thesis using assms(2) by (rule evolves_wp)
qed

text \<open>A job, once stored, stays; its request never changes and its attempts never fall.\<close>

lemma runs_keep_jobs:
  assumes "list_all valid ops" and g: "good_table (rows (view w))"
  shows "wp (for_each run ops)
     (\<lambda>_ w'. good_table (rows (view w')) \<and>
        (\<forall>i j. rows (view w) i = Some j \<longrightarrow>
           (\<exists>j'. rows (view w') i = Some j' \<and> same_request j j' \<and> attempts j \<le> attempts j')))
     (\<lambda>_ w'. good_table (rows (view w'))) w"
  by (rule wp_mono [OF runs_steps [OF assms]])
     (auto dest: good_table_steps [OF _ g] table_steps_keep row_steps_same_request)

end

subsection \<open>What the queues rely on\<close>

locale queue_protocol = row_protocol +
  assumes run_tracked: "valid op \<Longrightarrow> tracked (view w) \<Longrightarrow>
    wp (run op) (\<lambda>_ w'. tracked (view w')) (\<lambda>_ w'. tracked (view w')) w"
begin

lemma runs_tracked:
  assumes "list_all valid ops" and "tracked (view w)"
  shows "wp (for_each run ops) (\<lambda>_ w'. tracked (view w')) (\<lambda>_ w'. tracked (view w')) w"
  using assms
  by (intro wp_for_each_inv) (auto simp: list_all_iff intro: run_tracked)

end

subsection \<open>Requests that only read\<close>

named_theorems reads_rules \<open>coroutines that leave the store alone\<close>

definition reads :: "('w \<Rightarrow> store) \<Rightarrow> ('w, 'a) io \<Rightarrow> bool" where
  "reads view m \<longleftrightarrow> (\<forall>w. wp m (\<lambda>_ w'. view w' = view w) (\<lambda>_ w'. view w' = view w) w)"

lemma reads_return [reads_rules]: "reads view (return_io a)"
  by (simp add: reads_def wp_simps)

lemma reads_raise [reads_rules]: "reads view (raise_io e)"
  by (simp add: reads_def wp_simps)

lemma reads_bind [reads_rules]:
  assumes "reads view m" and "\<And>a. reads view (f a)"
  shows "reads view (bind_io m f)"
  unfolding reads_def wp_bind
proof
  fix w
  show "wp m (\<lambda>a. wp (f a) (\<lambda>_ w'. view w' = view w) (\<lambda>_ w'. view w' = view w)) (\<lambda>_ w'. view w' = view w) w"
  proof (rule wp_mono [OF assms(1) [unfolded reads_def, rule_format, of w]])
    fix a w1 assume v: "view w1 = view w"
    show "wp (f a) (\<lambda>_ w'. view w' = view w) (\<lambda>_ w'. view w' = view w) w1"
      using assms(2) [of a, unfolded reads_def, rule_format, of w1] by (simp add: v)
  qed
qed

lemma reads_if [reads_rules]:
  "(b \<Longrightarrow> reads view m) \<Longrightarrow> (\<not> b \<Longrightarrow> reads view n) \<Longrightarrow> reads view (if b then m else n)"
  by simp

lemma reads_case_option [reads_rules]:
  "reads view m \<Longrightarrow> (\<And>a. reads view (f a)) \<Longrightarrow> reads view (case x of None \<Rightarrow> m | Some a \<Rightarrow> f a)"
  by (simp split: option.split)

lemma reads_scalar [reads_rules]: "reads view (scalar_one_or_none xs)"
  by (cases xs rule: scalar_one_or_none.cases) (auto intro: reads_rules)

lemma reads_attempt: "reads view m \<Longrightarrow> reads view (attempt m)"
  by (simp add: reads_def wp_attempt)

lemma reads_call:
  assumes "call view m R" and "\<And>s a s'. R s a s' \<Longrightarrow> s' = s"
  shows "reads view m"
  unfolding reads_def by (intro allI, rule wp_call [OF assms(1)]) (auto dest: assms(2))

lemma reads_keeps_db: "reads view m \<Longrightarrow> keeps_db view m"
  unfolding keeps_db_def reads_def by (auto intro: wp_mono)

lemma reads_tracked:
  "reads view m \<Longrightarrow> tracked (view w) \<Longrightarrow> wp m (\<lambda>_ w'. tracked (view w')) (\<lambda>_ w'. tracked (view w')) w"
  unfolding reads_def by (erule allE [of _ w], erule wp_mono) auto

context services
begin

lemma reads_commands [reads_rules]:
  "reads view (db_where A P)" "reads view (db_page A P off n)" "reads view (db_count A P)"
  "reads view (db_job_logs A i)" "reads view (db_status_counts A)" "reads view (db_avg_seconds A)"
  "reads view (llen A k)" "reads view (zcard A k)"
  by (rule reads_call,
      rule where_law page_law count_law logs_law status_counts_law avg_law llen_law zcard_law,
      auto simp: paged_def job_logs_of_def status_counted_def averaged_def)+

lemma reads_endpoints:
  "reads view (get_job_endpoint A i)" "reads view (list_jobs_endpoint A st ty pr pg psize)" "reads view (get_metrics A)"
  unfolding get_job_endpoint_def get_job_def list_jobs_endpoint_def list_jobs_def get_metrics_def
  by (intro reads_rules)+

lemma evolves_attempt: "evolves view m \<Longrightarrow> evolves view (attempt m)"
  unfolding attempt_def
  by (rule evolves_try_except; (rule evolves_bind)?) (auto intro: evolves_keeps keeps_rules)

lemma evolves_claim: "evolves view (claim_phase A)"
proof -
  have r: "evolves view (requeue_due A jid)" for jid
    unfolding requeue_due_def by (intro evolves_keeps keeps_rules)
  have n: "evolves view (next_job A)"
    unfolding next_job_def by (intro evolves_keeps keeps_rules)
  show ?thesis
    unfolding claim_phase_def
    by (intro evolve_rules r n evolves_keeps [OF keeps_db_queue(7)] evolves_keeps [OF keeps_db_return]
          evolves_keeps [OF keeps_db_metrics(1)])
qed

lemma run_request_evolves:
  assumes "valid_request r" shows "evolves view (run_request A r)"
proof (cases r)
  case (Create limited jc)
  then show ?thesis using assms by (auto intro: evolves_attempt evolves_create_endpoint)
next
  case (Fetch i)
  then show ?thesis by (auto intro: evolves_keeps [OF reads_keeps_db] reads_attempt reads_endpoints)
next
  case (Browse st ty pr pg psize)
  then show ?thesis by (auto intro: evolves_keeps [OF reads_keeps_db] reads_attempt reads_endpoints)
next
  case Metrics
  then show ?thesis by (auto intro: evolves_keeps [OF reads_keeps_db] reads_attempt reads_endpoints)
qed (auto intro: evolves_attempt evolves_cancel_endpoint evolves_claim evolves_run_job evolves_worker_iteration
       evolves_recovery)

end

sublocale services \<subseteq> requests: row_protocol view valid_request "run_request A"
  by unfold_locales (rule run_request_evolves)

context reliable_services
begin

lemma run_request_tracked:
  assumes v: "valid_request r" and t: "tracked (view w)"
  shows "wp (run_request A r) (\<lambda>_ w'. tracked (view w')) (\<lambda>_ w'. tracked (view w')) w"
proof (cases r)
  case (Create limited jc)
  have m: "1 \<le> jc_max_attempts jc" "jc_max_attempts jc \<le> 10" using v Create by simp_all
  have "wp (create_job_endpoint A limited jc) (\<lambda>_ w'. tracked (view w')) (\<lambda>_ w'. tracked (view w')) w"
    unfolding create_job_endpoint_def
    using tracked_create [OF t m]
    by (auto simp: wp_simps t split: option.split intro: wp_mono)
  then show ?thesis by (simp add: Create wp_attempt)
next
  case (Cancel i)
  have "wp (cancel_job_endpoint A i) (\<lambda>_ w'. tracked (view w')) (\<lambda>_ w'. tracked (view w')) w"
    unfolding cancel_job_endpoint_def wp_bind
    by (rule tracked_cancel [OF t]) (auto simp: wp_simps split: option.split)
  then show ?thesis by (simp add: Cancel wp_attempt)
next
  case (Fetch i)
  then show ?thesis using t by (auto intro: reads_tracked reads_attempt reads_endpoints)
next
  case (Browse st ty pr pg psize)
  then show ?thesis using t by (auto intro: reads_tracked reads_attempt reads_endpoints)
next
  case Metrics
  then show ?thesis using t by (auto intro: reads_tracked reads_attempt reads_endpoints)
next
  case WorkerClaim
  then show ?thesis using t by (auto simp: wp_attempt intro: tracked_claim)
next
  case (WorkerRun i c)
  then show ?thesis using t by (auto simp: wp_attempt intro: tracked_run_job)
next
  case WorkerPass
  then show ?thesis using t by (auto intro: tracked_worker_iteration)
next
  case (Recover m)
  then show ?thesis using t by (auto simp: wp_attempt intro: tracked_recovery)
qed

end

sublocale reliable_services \<subseteq> queues: queue_protocol view valid_request "run_request A"
  by unfold_locales (rule run_request_tracked)

interpretation mem_requests: row_protocol mem_view valid_request "run_request (mem_app True)"
  by (rule mem.requests.row_protocol_axioms)

interpretation mem_queues: queue_protocol mem_view valid_request "run_request (mem_app False)"
  by (rule mem_ok.queues.queue_protocol_axioms)

context services
begin

lemmas system_keeps_jobs = requests.runs_keep_jobs

lemma attempt_returns: "wp (run_request A r) (\<lambda>_ _. True) (\<lambda>_ _. False) w"
proof -
  have a: "wp (attempt m) (\<lambda>_ _. True) (\<lambda>_ _. False) v" for m :: "('w, 'a) io" and v
    unfolding wp_attempt by (rule wp_True)
  have i: "wp (worker_iteration A) (\<lambda>_ _. True) (\<lambda>_ _. False) w"
    unfolding worker_iteration_def wp_try_except wp_bind
    by (rule wp_mono [OF wp_True]) (auto intro: wp_count wp_nap)
  show ?thesis by (cases r) (auto intro: a i)
qed

end

context reliable_services
begin

lemmas system_keeps_tracked = queues.runs_tracked

end

subsection \<open>Properties\<close>

text \<open>A table with one job, in the queue or being executed.\<close>

definition busy_mem :: "bool list \<Rightarrow> mem" where
  "busy_mem faults = mem_init\<lparr>m_rows := [(7, sample_row)],
     m_zsets := (m_zsets mem_init)(PRIORITY_KEY := [(str_uuid 7, 0)]), m_faults := faults\<rparr>"

lemma sample_good: "good_table (rows (mem_view (busy_mem fs)))"
proof -
  have "good_row sample_row" unfolding sample_row_def by (rule good_new_job) simp_all
  then show ?thesis
    using sample_unique sample_keyed
    by (auto simp: good_table_def busy_mem_def sample_mem_def split: if_splits)
qed

lemma busy_tracked: "tracked (mem_view (busy_mem fs))"
  using sample_good [of fs]
  by (auto simp: tracked_but_def queued_in_def busy_mem_def mem_init_def sample_row_def split: if_splits)

text \<open>
  C9: Safety of the system. Whatever clients and workers do, in any order and with any
  interleaving of executions, and however the services fail, the table stays well formed:
  identifiers and idempotency keys are unique, every status is one of the five, a queued
  job has attempts left, a processing one is within its limit, a completed one has a result
  and a failed one has used its attempts. No job disappears, no job's request changes and
  no job's attempts fall.
\<close>
theorem system_safety:
  assumes "services A view" and "list_all valid_request rs" and "good_table (rows (view w))"
  shows "wp (for_each (run_request A) rs)
      (\<lambda>_ w'. good_table (rows (view w')) \<and>
         (\<forall>i j. rows (view w) i = Some j \<longrightarrow>
            (\<exists>j'. rows (view w') i = Some j' \<and> same_request j j' \<and> attempts j \<le> attempts j')))
      (\<lambda>_ w'. good_table (rows (view w'))) w"
  by (rule services.system_keeps_jobs [OF assms])

theorem system_safety_witness:
  "wp (for_each (run_request (mem_app True)) [WorkerClaim, Cancel 7, WorkerPass, Recover 10])
      (\<lambda>_ w'. good_table (rows (mem_view w')) \<and>
         (\<forall>i j. rows (mem_view (busy_mem [False, True])) i = Some j \<longrightarrow>
            (\<exists>j'. rows (mem_view w') i = Some j' \<and> same_request j j' \<and> attempts j \<le> attempts j')))
      (\<lambda>_ w'. good_table (rows (mem_view w'))) (busy_mem [False, True])"
  by (rule system_safety [OF mem_services _ sample_good]) simp

text \<open>
  C2: No job is lost. With services that do not fail, whatever clients and workers do in
  any order, every job that is queued has its identifier in one of the three queues, and
  every identifier in a queue is well formed.
\<close>
theorem no_job_lost:
  assumes "reliable_services A view" and "list_all valid_request rs" and "tracked (view w)"
  shows "wp (for_each (run_request A) rs) (\<lambda>_ w'. tracked (view w')) (\<lambda>_ w'. tracked (view w')) w"
  by (rule reliable_services.system_keeps_tracked [OF assms])

theorem no_job_lost_witness:
  "wp (for_each (run_request (mem_app False)) [WorkerClaim, Create None sample_request, Cancel 7, WorkerPass])
      (\<lambda>_ w'. tracked (mem_view w')) (\<lambda>_ w'. tracked (mem_view w')) (busy_mem [])"
  by (rule no_job_lost [OF mem_reliable_services _ busy_tracked]) (simp add: sample_request_def)

end
