(* ===== verification/Outcomes.thy ===== *)
theory Outcomes
  imports System
begin

section \<open>What becomes of a job\<close>

text \<open>
  The functional properties of the worker and of recovery: every branch of
  \<open>handle_failure\<close>, the outcomes of processing one job, the effect of recovery, the number
  of times a job is started; and the behaviours at the edges that the code does not protect
  against.
\<close>

subsection \<open>Processing one job\<close>

text \<open>The outcomes of one attempt at the row \<open>j\<close> under the identifier \<open>i\<close>.\<close>

definition attempted :: "uuid \<Rightarrow> job \<Rightarrow> executor_class \<Rightarrow> store \<Rightarrow> store \<Rightarrow> bool" where
  "attempted i j cls s s' \<longleftrightarrow>
     (\<exists>j'. rows s' = (rows s)(i \<mapsto> j') \<and> same_request j j' \<and> attempts j' = attempts j + 1 \<and>
        lists s' = lists s \<and> (\<forall>k. k \<noteq> RETRY_KEY \<longrightarrow> zsets s' k = zsets s k) \<and>
        (status j' = ''completed'' \<and> (\<exists>r. job_result j' = Some r \<and> result_of cls (payload j) r) \<and>
           zsets s' RETRY_KEY = zsets s RETRY_KEY \<or>
         status j' = ''queued'' \<and> attempts j' < max_attempts j \<and>
           (\<exists>sc. zsets s' RETRY_KEY = (zsets s RETRY_KEY)(str_uuid i \<mapsto> sc)) \<or>
         status j' = ''failed'' \<and> attempts j' = max_attempts j \<and> zsets s' RETRY_KEY = zsets s RETRY_KEY))"

context reliable_services
begin

lemma wp_execution_result:
  assumes "\<And>r w'. view w' = view w \<Longrightarrow> result_of cls pl r \<Longrightarrow> Q r w'" and "\<And>e w'. view w' = view w \<Longrightarrow> X e w'"
  shows "wp (wait_for A secs (execute A cls jid pl)) Q X w"
  unfolding wait_for_def wp_bind
proof (rule wp_deadline)
  fix late w1
  assume v: "view w1 = view w"
  show "wp (if late then raise_io TimeoutError else execute A cls jid pl) Q X w1"
    by (cases late) (auto simp: wp_raise v intro!: wp_mono [OF execute_result] intro: assms)
qed

lemma wp_run_started:
  assumes g: "good_table (rows (view w))" and j: "rows (view w) i = Some j" "status j = ''processing''"
    and c: "get_executor (cj_type c) = Inr cls"
    and complete: "\<And>r t w'. result_of cls (cj_payload c) r \<Longrightarrow>
        rows (view w') = (rows (view w))(i \<mapsto> completed_row j r t) \<Longrightarrow> zsets (view w') = zsets (view w) \<Longrightarrow>
        lists (view w') = lists (view w) \<Longrightarrow> Q () w'"
    and give_up: "\<And>m t w'. max_attempts j \<le> attempts j \<Longrightarrow> rows (view w') = (rows (view w))(i \<mapsto> failed_row j m t) \<Longrightarrow>
        zsets (view w') = zsets (view w) \<Longrightarrow> lists (view w') = lists (view w) \<Longrightarrow> Q () w'"
    and retry: "\<And>m t sc w'. attempts j < max_attempts j \<Longrightarrow> rows (view w') = (rows (view w))(i \<mapsto> retried_row j m t) \<Longrightarrow>
        zsets (view w') = (zsets (view w))(RETRY_KEY := (zsets (view w) RETRY_KEY)(str_uuid i \<mapsto> sc)) \<Longrightarrow>
        lists (view w') = lists (view w) \<Longrightarrow> Q () w'"
  shows "wp (run_job A (str_uuid i) c) Q X w"
  unfolding run_job_def executor_io_def c sum.case wp_bind wp_return wp_try_except
proof (rule wp_record, rule wp_updown, rule wp_now, rule wp_execution_result)
  fix w0 ms0 w1 ms t_start wt r w2
  assume "view w0 = (view w)\<lparr>meters := meters (view w) @ ms0\<rparr>" "view w1 = (view w0)\<lparr>meters := meters (view w0) @ ms\<rparr>"
    and "view wt = view w1" and "view w2 = view wt"
    and r: "result_of cls (cj_payload c) r"
  then have s: "rows (view w2) = rows (view w)" "zsets (view w2) = zsets (view w)" "lists (view w2) = lists (view w)"
    by simp_all
  have "wp (complete_job A (str_uuid i) c r) Q (\<lambda>e. wp (on_failure A cls (str_uuid i) c t_start e) Q X) w3"
    if "rows (view w3) = rows (view w)" "zsets (view w3) = zsets (view w)" "lists (view w3) = lists (view w)" for w3
    by (rule wp_complete_job) (use that g j in \<open>auto intro: complete [OF r]\<close>)
  then show "wp (now_utc A) (\<lambda>t.
       wp (record_io A ''job_processing_duration'' (total_seconds t_start t) [(''job_type'', cj_type c), (''priority'', cj_priority c)])
         (\<lambda>_. wp (record_io A ''worker_executor_duration'' (total_seconds t_start t)
                    [(''job_type'', cj_type c), (''worker_id'', hostname A)])
               (\<lambda>_. wp (complete_job A (str_uuid i) c r) Q (\<lambda>e. wp (on_failure A cls (str_uuid i) c t_start e) Q X))
               (\<lambda>e. wp (on_failure A cls (str_uuid i) c t_start e) Q X))
         (\<lambda>e. wp (on_failure A cls (str_uuid i) c t_start e) Q X))
      (\<lambda>e. wp (on_failure A cls (str_uuid i) c t_start e) Q X) w2"
    using s by (intro wp_now wp_record) simp
next
  fix w0 ms0 w1 ms t_start wt e w2
  assume "view w0 = (view w)\<lparr>meters := meters (view w) @ ms0\<rparr>" "view w1 = (view w0)\<lparr>meters := meters (view w0) @ ms\<rparr>"
    and "view wt = view w1" and "view w2 = view wt"
  then have s: "rows (view w2) = rows (view w)" "zsets (view w2) = zsets (view w)" "lists (view w2) = lists (view w)"
    by simp_all
  have h: "wp (handle_failure A (str_uuid i) msg) Q X w3"
    if v: "rows (view w3) = rows (view w)" "zsets (view w3) = zsets (view w)" "lists (view w3) = lists (view w)" for w3 msg
  proof (rule wp_handle_failure)
    show "good_table (rows (view w3))" using g v by simp
  next
    fix w' assume "rows (view w3) i = None"
    then show "Q () w'" using j v by simp
  next
    fix j2 t w'
    assume "rows (view w3) i = Some j2" "max_attempts j2 \<le> attempts j2"
      "rows (view w') = (rows (view w3))(i \<mapsto> failed_row j2 msg t)" "zsets (view w') = zsets (view w3)"
      "lists (view w') = lists (view w3)"
    then show "Q () w'" using j v by (intro give_up [of w' msg t]) simp_all
  next
    fix j2 r t now w'
    assume "rows (view w3) i = Some j2" "attempts j2 < max_attempts j2"
      "rows (view w') = (rows (view w3))(i \<mapsto> retried_row j2 msg (t + timedelta_us (backoff (attempts j2) MAX_DELAY r)))"
      "zsets (view w') = (zsets (view w3))(RETRY_KEY := (zsets (view w3) RETRY_KEY)(str_uuid i \<mapsto>
         fl (now + backoff (attempts j2) MAX_DELAY r)))" "lists (view w') = lists (view w3)"
    then show "Q () w'"
      using j v by (intro retry [of w' msg "t + timedelta_us (backoff (attempts j) MAX_DELAY r)"
            "fl (now + backoff (attempts j) MAX_DELAY r)"]) simp_all
  qed
  show "wp (on_failure A cls (str_uuid i) c t_start e) Q X w2"
    unfolding on_failure_def wp_if wp_bind using s by (auto intro!: wp_now wp_record wp_count h)
qed

lemma process_attempts:
  assumes g: "good_table (rows (view w))" and j: "rows (view w) i = Some j" "status j = ''queued''"
    and c: "get_executor (job_type j) = Inr cls"
  shows "wp (process_job A (str_uuid i) source) (\<lambda>_ w'. attempted i j cls (view w) (view w')) (\<lambda>_ _. False) w"
  unfolding process_job_def wp_bind
proof (rule wp_start_job [OF g])
  fix w' assume "\<forall>k. rows (view w) i = Some k \<longrightarrow> status k \<noteq> ''queued''"
  then show "wp (case None of None \<Rightarrow> return_io () | Some c \<Rightarrow> run_job A (str_uuid i) c)
      (\<lambda>_ w'. attempted i j cls (view w) (view w')) (\<lambda>_ _. False) w'" using j by simp
next
  fix k t w1
  assume "rows (view w) i = Some k"
    and r1: "rows (view w1) = (rows (view w))(i \<mapsto> started_row k t)" and q1: "zsets (view w1) = zsets (view w)"
      "lists (view w1) = lists (view w)"
  then have k: "k = j" using j by simp
  have g1: "good_table (rows (view w1))"
    using good_table_step [OF table_step.row [where t = "rows (view w)" and i = i, OF j(1) row_steps_of(3) [OF j(2)]] g]
    by (simp add: r1 k)
  have below: "attempts j < max_attempts j" using good_tableD(3) [OF g j(1)] j(2) by (simp add: good_row_def)
  have at: "rows (view w1) i = Some (started_row j t)" "status (started_row j t) = ''processing''"
    by (simp_all add: r1 k started_row_def)
  have s: "attempts (started_row j t) = attempts j + 1" "max_attempts (started_row j t) = max_attempts j"
    "same_request j (started_row j t)" by (simp_all add: started_row_def same_request_def)
  have out: "attempted i j cls (view w) (view w')"
    if "rows (view w') = (rows (view w1))(i \<mapsto> j')" "same_request j j'" "attempts j' = attempts j + 1"
      "lists (view w') = lists (view w1)" "\<forall>k. k \<noteq> RETRY_KEY \<longrightarrow> zsets (view w') k = zsets (view w1) k"
      "status j' = ''completed'' \<and> (\<exists>r. job_result j' = Some r \<and> result_of cls (payload j) r) \<and>
         zsets (view w') RETRY_KEY = zsets (view w1) RETRY_KEY \<or>
       status j' = ''queued'' \<and> attempts j' < max_attempts j \<and>
         (\<exists>sc. zsets (view w') RETRY_KEY = (zsets (view w1) RETRY_KEY)(str_uuid i \<mapsto> sc)) \<or>
       status j' = ''failed'' \<and> attempts j' = max_attempts j \<and> zsets (view w') RETRY_KEY = zsets (view w1) RETRY_KEY"
    for w' j'
    unfolding attempted_def using that by (intro exI [of _ j']) (simp add: r1 q1)
  let ?c = "\<lparr>cj_type = job_type k, cj_payload = payload k, cj_priority = priority k,
      cj_created_at = created_at k, cj_started_at = t\<rparr>"
  have "wp (run_job A (str_uuid i) ?c) (\<lambda>_ w'. attempted i j cls (view w) (view w')) (\<lambda>_ _. False) w1"
  proof (rule wp_run_started [OF g1 at])
    show "get_executor (cj_type ?c) = Inr cls" using c by (simp add: k)
  next
    fix r u w'
    assume "result_of cls (cj_payload ?c) r"
      "rows (view w') = (rows (view w1))(i \<mapsto> completed_row (started_row j t) r u)"
      "zsets (view w') = zsets (view w1)" "lists (view w') = lists (view w1)"
    then show "attempted i j cls (view w) (view w')"
      by (intro out [of _ "completed_row (started_row j t) r u"])
         (simp_all add: k completed_row_def started_row_def same_request_def)
  next
    fix m u w'
    assume "max_attempts (started_row j t) \<le> attempts (started_row j t)"
      "rows (view w') = (rows (view w1))(i \<mapsto> failed_row (started_row j t) m u)"
      "zsets (view w') = zsets (view w1)" "lists (view w') = lists (view w1)"
    then show "attempted i j cls (view w) (view w')"
      using below by (intro out [of _ "failed_row (started_row j t) m u"])
         (simp_all add: failed_row_def started_row_def same_request_def)
  next
    fix m u sc w'
    assume "attempts (started_row j t) < max_attempts (started_row j t)"
      "rows (view w') = (rows (view w1))(i \<mapsto> retried_row (started_row j t) m u)"
      "zsets (view w') = (zsets (view w1))(RETRY_KEY := (zsets (view w1) RETRY_KEY)(str_uuid i \<mapsto> sc))"
      "lists (view w') = lists (view w1)"
    then show "attempted i j cls (view w) (view w')"
      by (intro out [of _ "retried_row (started_row j t) m u"])
         (auto simp: retried_row_def started_row_def same_request_def)
  qed
  then show "wp (case Some ?c of None \<Rightarrow> return_io () | Some c \<Rightarrow> run_job A (str_uuid i) c)
      (\<lambda>_ w'. attempted i j cls (view w) (view w')) (\<lambda>_ _. False) w1" by simp
qed

end

context reliable_services
begin

lemma process_ignores:
  assumes g: "good_table (rows (view w))" and n: "\<forall>j. rows (view w) i = Some j \<longrightarrow> status j \<noteq> ''queued''"
  shows "wp (process_job A (str_uuid i) source) (\<lambda>_ w'. view w' = view w) (\<lambda>_ _. False) w"
  unfolding process_job_def wp_bind
  by (rule wp_start_job [OF g]) (use n in \<open>auto simp: wp_return\<close>)

end

text \<open>Starts of a row along a path of the state machine.\<close>

inductive started_times :: "job \<Rightarrow> nat \<Rightarrow> job \<Rightarrow> bool" where
  none: "started_times j 0 j"
| begin_again: "started_times j n k \<Longrightarrow> row_step k k' \<Longrightarrow> status k' = ''processing'' \<Longrightarrow> started_times j (Suc n) k'"
| other: "started_times j n k \<Longrightarrow> row_step k k' \<Longrightarrow> status k' \<noteq> ''processing'' \<Longrightarrow> started_times j n k'"

lemma started_times_bound:
  assumes "started_times j n k" and "good_row j"
  shows "good_row k \<and> max_attempts k = max_attempts j \<and> attempts j + int n \<le> attempts k \<and>
    (0 < n \<longrightarrow> attempts j + int n \<le> max_attempts j)"
  using assms
proof (induction rule: started_times.induct)
  case (none j)
  then show ?case by simp
next
  case (begin_again j n k k')
  then have k: "good_row k" "max_attempts k = max_attempts j" "attempts j + int n \<le> attempts k" by auto
  have s: "attempts k' = attempts k + 1" using row_step_processing(2) [OF begin_again.hyps(2)] begin_again.hyps(3) by simp
  have g: "good_row k'" using good_row_step [OF begin_again.hyps(2) k(1)] .
  have "attempts k' \<le> max_attempts k'" using g begin_again.hyps(3) by (simp add: good_row_def)
  moreover have "max_attempts k' = max_attempts k"
    using row_step_same_request [OF begin_again.hyps(2)] by (simp add: same_request_def)
  ultimately show ?case using k s g by auto
next
  case (other j n k k')
  then have k: "good_row k" "max_attempts k = max_attempts j" "attempts j + int n \<le> attempts k"
    "0 < n \<longrightarrow> attempts j + int n \<le> max_attempts j" by auto
  have "max_attempts k' = max_attempts k" "attempts k \<le> attempts k'"
    using row_step_same_request [OF other.hyps(2)] by (simp_all add: same_request_def)
  then show ?case using k good_row_step [OF other.hyps(2) k(1)] by auto
qed

subsection \<open>Properties\<close>

definition running_row :: "int \<Rightarrow> job" where
  "running_row n = sample_row\<lparr>status := ''processing'', started_at := Some 0, attempts := n\<rparr>"

definition row_mem :: "job \<Rightarrow> mem" where
  "row_mem j = mem_init\<lparr>m_rows := [(7, j)]\<rparr>"

lemma row_mem_rows: "rows (mem_view (row_mem j)) = [7 \<mapsto> j]"
  by (auto simp: row_mem_def fun_eq_iff)

lemma row_mem_good: "good_row j \<Longrightarrow> job_id j = 7 \<Longrightarrow> good_table (rows (mem_view (row_mem j)))"
  unfolding row_mem_rows good_table_def keyed_by_id_def unique_keys_def by (auto split: if_splits)

lemma sample_row_good: "good_row sample_row" "job_id sample_row = 7" "status sample_row = ''queued''"
    "job_type sample_row = ''email_send''" "attempts sample_row = 0" "max_attempts sample_row = 3"
  by (simp_all add: sample_row_def good_new_job)

lemma running_row_good: "1 \<le> n \<Longrightarrow> n \<le> 3 \<Longrightarrow> good_row (running_row n)" "job_id (running_row n) = 7"
    "attempts (running_row n) = n" "max_attempts (running_row n) = 3" "status (running_row n) = ''processing''"
  by (simp_all add: running_row_def good_row_def sample_row_good status_in_range)

text \<open>
  C10: One attempt. With services that do not fail, processing a queued job of a
  registered type uses exactly one attempt and ends in one of three ways: completed, with a
  result of its executor; queued again, with its identifier in the retry queue and attempts
  left; failed, with all its attempts used. No other row and no other queue changes.
\<close>
theorem process_job_outcome:
  assumes "reliable_services A view" and "good_table (rows (view w))" and "rows (view w) i = Some j"
    and "status j = ''queued''" and "get_executor (job_type j) = Inr cls"
  shows "wp (process_job A (str_uuid i) source) (\<lambda>_ w'. attempted i j cls (view w) (view w')) (\<lambda>_ _. False) w"
  by (rule reliable_services.process_attempts [OF assms])

theorem process_job_outcome_witness:
  "wp (process_job (mem_app False) (str_uuid 7) ''priority'')
     (\<lambda>_ w'. attempted 7 sample_row EmailExecutor (mem_view (row_mem sample_row)) (mem_view w')) (\<lambda>_ _. False)
     (row_mem sample_row)"
  by (rule process_job_outcome [OF mem_reliable_services row_mem_good])
     (simp_all add: sample_row_good row_mem_def get_executor_def EXECUTOR_REGISTRY_def)

text \<open>
  Duplicates are harmless. An identifier whose row is missing, or is not queued, because
  another worker has started it or it was cancelled, is dropped: nothing is executed and
  neither table nor queues change.
\<close>
lemma process_job_skips:
  assumes "reliable_services A view" and "good_table (rows (view w))"
    and "\<forall>j. rows (view w) i = Some j \<longrightarrow> status j \<noteq> ''queued''"
  shows "wp (process_job A (str_uuid i) source) (\<lambda>_ w'. view w' = view w) (\<lambda>_ _. False) w"
  by (rule reliable_services.process_ignores [OF assms])

text \<open>
  C11: Recording a failure. With services that do not fail, \<open>handle_failure\<close> marks a job
  whose attempts are used as failed, with the error and the time, and leaves the queues
  alone. A job with attempts left becomes queued again, with the error, and its identifier
  enters the retry queue: the delay is the backoff of its attempts for the random number that
  is drawn, within half and one and a half of its base, the retry time of the row is the time
  that is read plus the delay, and the score the seconds since the epoch that are read plus the
  delay, rounded. A missing job is ignored. It looks at the number of attempts only.
\<close>
theorem handle_failure_spec:
  assumes "reliable_services A view" and "good_table (rows (view w))"
  shows "wp (handle_failure A (str_uuid i) msg)
      (\<lambda>_ w'. lists (view w') = lists (view w) \<and>
         (case rows (view w) i of
            None \<Rightarrow> rows (view w') = rows (view w) \<and> zsets (view w') = zsets (view w)
          | Some j \<Rightarrow>
              if max_attempts j \<le> attempts j then
                rows (view w') = (rows (view w))(i \<mapsto>
                  j\<lparr>job_error := Some msg, status := ''failed'', completed_at := Some (time_after_load A i w)\<rparr>) \<and>
                zsets (view w') = zsets (view w)
              else
                case retry_readings A i w of (r, t, now) \<Rightarrow>
                  let delay = backoff (attempts j) 3600 r in
                  backoff_base (attempts j) 3600 / 2 \<le> delay \<and> delay \<le> backoff_base (attempts j) 3600 * 3 / 2 \<and>
                  rows (view w') = (rows (view w))(i \<mapsto>
                    j\<lparr>job_error := Some msg, status := ''queued'', next_retry_at := Some (t + timedelta_us delay)\<rparr>) \<and>
                  zsets (view w') = (zsets (view w))(RETRY_KEY :=
                    (zsets (view w) RETRY_KEY)(str_uuid i \<mapsto> fl (now + delay)))))
      (\<lambda>_ _. False) w"
proof (rule reliable_services.wp_handle_failure_at [OF assms])
  fix j :: job and r t now w'
  let ?d = "backoff (attempts j) MAX_DELAY r"
  assume read: "(r, t, now) = retry_readings A i w"
    and j: "rows (view w) i = Some j" "attempts j < max_attempts j" and r: "0 \<le> r" "r \<le> 1 - 1 / 2 ^ 53"
    and w': "rows (view w') = (rows (view w))(i \<mapsto> retried_row j msg (t + timedelta_us ?d))"
      "zsets (view w') = (zsets (view w))(RETRY_KEY := (zsets (view w) RETRY_KEY)(str_uuid i \<mapsto> fl (now + ?d)))"
      "lists (view w') = lists (view w)"
  have "0 \<le> attempts j" using good_tableD(3) [OF assms(2) j(1)] by (simp add: good_row_def)
  then have "backoff_base (attempts j) 3600 / 2 \<le> ?d \<and> ?d \<le> backoff_base (attempts j) 3600 * 3 / 2"
    using backoff_bounds [of "attempts j" 3600 r] r by (simp add: MAX_DELAY_def)
  then show "lists (view w') = lists (view w) \<and>
         (case rows (view w) i of
            None \<Rightarrow> rows (view w') = rows (view w) \<and> zsets (view w') = zsets (view w)
          | Some j \<Rightarrow>
              if max_attempts j \<le> attempts j then
                rows (view w') = (rows (view w))(i \<mapsto>
                  j\<lparr>job_error := Some msg, status := ''failed'', completed_at := Some (time_after_load A i w)\<rparr>) \<and>
                zsets (view w') = zsets (view w)
              else
                case retry_readings A i w of (r, t, now) \<Rightarrow>
                  let delay = backoff (attempts j) 3600 r in
                  backoff_base (attempts j) 3600 / 2 \<le> delay \<and> delay \<le> backoff_base (attempts j) 3600 * 3 / 2 \<and>
                  rows (view w') = (rows (view w))(i \<mapsto>
                    j\<lparr>job_error := Some msg, status := ''queued'', next_retry_at := Some (t + timedelta_us delay)\<rparr>) \<and>
                  zsets (view w') = (zsets (view w))(RETRY_KEY :=
                    (zsets (view w) RETRY_KEY)(str_uuid i \<mapsto> fl (now + delay))))"
    using w' j by (simp add: read [symmetric] Let_def retried_row_def MAX_DELAY_def)
qed (auto simp: failed_row_def)

theorem handle_failure_spec_witness:
  "wp (handle_failure (mem_app False) (str_uuid 7) ''boom'')
      (\<lambda>_ w'. lists (mem_view w') = lists (mem_view (row_mem (running_row 2))) \<and>
         (case rows (mem_view (row_mem (running_row 2))) 7 of
            None \<Rightarrow> rows (mem_view w') = rows (mem_view (row_mem (running_row 2))) \<and> zsets (mem_view w') = zsets (mem_view (row_mem (running_row 2)))
          | Some j \<Rightarrow>
              if max_attempts j \<le> attempts j then
                rows (mem_view w') = (rows (mem_view (row_mem (running_row 2))))(7 \<mapsto>
                  j\<lparr>job_error := Some ''boom'', status := ''failed'', completed_at := Some (time_after_load (mem_app False) 7 (row_mem (running_row 2)))\<rparr>) \<and>
                zsets (mem_view w') = zsets (mem_view (row_mem (running_row 2)))
              else
                case retry_readings (mem_app False) 7 (row_mem (running_row 2)) of (r, t, now) \<Rightarrow>
                  let delay = backoff (attempts j) 3600 r in
                  backoff_base (attempts j) 3600 / 2 \<le> delay \<and> delay \<le> backoff_base (attempts j) 3600 * 3 / 2 \<and>
                  rows (mem_view w') = (rows (mem_view (row_mem (running_row 2))))(7 \<mapsto>
                    j\<lparr>job_error := Some ''boom'', status := ''queued'', next_retry_at := Some (t + timedelta_us delay)\<rparr>) \<and>
                  zsets (mem_view w') = (zsets (mem_view (row_mem (running_row 2))))(RETRY_KEY :=
                    (zsets (mem_view (row_mem (running_row 2))) RETRY_KEY)(str_uuid 7 \<mapsto> fl (now + delay)))))
      (\<lambda>_ _. False)
      (row_mem (running_row 2))"
  by (rule handle_failure_spec [OF mem_reliable_services row_mem_good]) (simp_all add: running_row_good)

text \<open>
  Bounded starts. Along every path of the state machine a job that has not been started
  before is started at most \<open>max_attempts\<close> times.
\<close>
lemma at_most_max_attempts:
  assumes "started_times (new_job i c typ pl prio key maxa) n k" and "1 \<le> maxa" and "maxa \<le> 10"
  shows "int n \<le> maxa"
  using started_times_bound [OF assms(1) good_new_job [OF assms(2,3)]] assms(2) by (cases "n = 0") auto

text \<open>
  C18: The worker survives. No exception, of a service, of an executor or of a malformed
  queue entry, ends the worker's loop: any number of passes run to their end.
\<close>
theorem worker_loop_survives:
  assumes "services A view"
  shows "wp (worker_loop A n) (\<lambda>_ _. True) (\<lambda>_ _. False) w"
proof (induction n arbitrary: w)
  case 0
  then show ?case by (simp add: wp_simps)
next
  case (Suc n)
  have "wp (worker_iteration A) (\<lambda>_ _. True) (\<lambda>_ _. False) w"
    using services.attempt_returns [OF assms, of WorkerPass w] by simp
  then show ?case unfolding worker_loop.simps wp_bind by (rule wp_mono) (simp_all add: Suc)
qed

theorem worker_loop_survives_witness:
  "wp (worker_loop (mem_app True) 5) (\<lambda>_ _. True) (\<lambda>_ _. False) (busy_mem [True, False, True])"
  by (rule worker_loop_survives [OF mem_services])

text \<open>
  C12: Recovery. With services that do not fail, start-up recovery touches exactly the rows
  that have been processing since before its threshold, \<open>m\<close> minutes before the time its clock
  reads when it is called: one whose next attempt would be its last is failed with the crash
  as its error, any other is queued again and enters the retry queue; both count one more
  attempt. Every other row and queue is as before.
\<close>
theorem recovery_spec:
  assumes "reliable_services A view" and "good_table (rows (view w))"
  shows "wp (run_startup_recovery A m)
      (\<lambda>_ w'. recovery_done (fst (clock_now A w) - m * 60 * 10 ^ 6) (view w) (view w') \<and> good_table (rows (view w')))
      (\<lambda>_ _. False) w"
  by (rule reliable_services.wp_recovery_at [OF assms]) simp

theorem recovery_spec_witness:
  "wp (run_startup_recovery (mem_app False) 10)
      (\<lambda>_ w'. recovery_done (10 ^ 10 - 10 * 60 * 10 ^ 6) (mem_view (row_mem (running_row 1))) (mem_view w') \<and>
               good_table (rows (mem_view w'))) (\<lambda>_ _. False) ((row_mem (running_row 1))\<lparr>m_clock := 10 ^ 10\<rparr>)"
proof -
  let ?w = "(row_mem (running_row 1))\<lparr>m_clock := 10 ^ 10\<rparr>"
  have v: "mem_view ?w = mem_view (row_mem (running_row 1))" by (simp add: mem_view_def)
  have n: "fst (clock_now (mem_app False) ?w) = 10 ^ 10" by (simp add: mem_app_def mem_tick_def)
  have "good_table (rows (mem_view ?w))" unfolding v by (rule row_mem_good) (simp_all add: running_row_good)
  from recovery_spec [OF mem_reliable_services this, of 10] show ?thesis unfolding n v .
qed

text \<open>
  C17: Every request implements the state machine. Whatever a client or worker does, and
  however the services fail, the table moves by steps of \<open>table_step\<close>: each row by
  \<open>row_step\<close>, new rows by insertion.
\<close>
theorem requests_refine_lifecycle:
  assumes "services A view" and "valid_request r" and "good_table (rows (view w))"
  shows "wp (run_request A r) (\<lambda>_ w'. table_step\<^sup>*\<^sup>* (rows (view w)) (rows (view w'))) (\<lambda>_ _. False) w"
proof -
  have "wp (run_request A r) (\<lambda>_ w'. table_step\<^sup>*\<^sup>* (rows (view w)) (rows (view w')))
      (\<lambda>_ w'. table_step\<^sup>*\<^sup>* (rows (view w)) (rows (view w'))) w"
    by (rule evolves_wp [OF services.run_request_evolves [OF assms(1,2)], of w]) (rule assms(3))
  from wp_conj [OF this services.attempt_returns [OF assms(1)]]
  show ?thesis by (rule wp_mono) auto
qed

theorem requests_refine_lifecycle_witness:
  "wp (run_request (mem_app True) (Cancel 7))
     (\<lambda>_ w'. table_step\<^sup>*\<^sup>* (rows (mem_view (busy_mem [False, True]))) (rows (mem_view w'))) (\<lambda>_ _. False) (busy_mem [False, True])"
  by (rule requests_refine_lifecycle [OF mem_services _ sample_good]) simp

text \<open>
  Cancelled while executing, then successful: the result is discarded. When the row has
  been cancelled, \<open>complete_job\<close> changes neither the table nor the queues.
\<close>
lemma cancelled_result_discarded:
  assumes "reliable_services A view" and "good_table (rows (view w))"
    and "rows (view w) i = Some j" and "status j = ''cancelled''"
  shows "wp (complete_job A (str_uuid i) c result) (\<lambda>_ w'. data (view w') = data (view w)) (\<lambda>_ _. False) w"
  by (rule reliable_services.wp_complete_job [OF assms(1,2)]) (use assms(3,4) in auto)

definition cancelled_row :: job where
  "cancelled_row = (running_row 1)\<lparr>status := ''cancelled''\<rparr>"

lemma cancelled_row_good: "good_row cancelled_row" "job_id cancelled_row = 7" "status cancelled_row = ''cancelled''"
    "attempts cancelled_row = 1" "max_attempts cancelled_row = 3"
  by (simp_all add: cancelled_row_def running_row_def sample_row_good good_row_def status_in_range)

text \<open>What \<open>run_job\<close> does before it executes, and the answer of the execution.\<close>

definition before_execution :: "'w app \<Rightarrow> claimed_job \<Rightarrow> ('w, datetime) io" where
  "before_execution A c =
     seq_io (record_io A ''job_wait_duration'' (total_seconds (cj_created_at c) (cj_started_at c))
               [(''job_type'', cj_type c), (''priority'', cj_priority c)])
     (seq_io (updown_io A ''jobs_active'' 1 [(''job_type'', cj_type c)]) (now_utc A))"

definition execution_answer :: "'w app \<Rightarrow> executor_class \<Rightarrow> uuid \<Rightarrow> claimed_job \<Rightarrow> 'w \<Rightarrow> exn + json_dict" where
  "execution_answer A cls i c w =
     fst (wait_for A (max_execution_seconds cls) (execute A cls (str_uuid i) (cj_payload c)) (snd (before_execution A c w)))"

context reliable_services
begin

lemma wp_run_answer:
  assumes c: "get_executor (cj_type c) = Inr cls"
    and complete: "\<And>r w'. execution_answer A cls i c w = Inr r \<Longrightarrow> data (view w') = data (view w) \<Longrightarrow>
        wp (complete_job A (str_uuid i) c r) Q (\<lambda>_ _. False) w'"
    and failed: "\<And>e t w'. execution_answer A cls i c w = Inl e \<Longrightarrow> data (view w') = data (view w) \<Longrightarrow>
        wp (on_failure A cls (str_uuid i) c t e) Q X w'"
  shows "wp (run_job A (str_uuid i) c) Q X w"
proof -
  have "wp (before_execution A c) (\<lambda>_ w'. data (view w') = data (view w)) (\<lambda>_ _. False) w"
    unfolding before_execution_def wp_bind by (intro wp_record wp_updown wp_now) simp
  then obtain t w1 where b: "before_execution A c w = (Inr t, w1)" and d1: "data (view w1) = data (view w)"
    by (auto dest: wp_obtain)
  let ?m = "wait_for A (max_execution_seconds cls) (execute A cls (str_uuid i) (cj_payload c))"
  have ans: "fst (?m w1) = execution_answer A cls i c w" by (simp add: execution_answer_def b)
  have v: "wp ?m (\<lambda>_ w'. view w' = view w1) (\<lambda>_ w'. view w' = view w1) w1"
    by (rule wp_execution_result) simp_all
  have after: "wp (bind_io (now_utc A) (\<lambda>t'.
         seq_io (record_io A ''job_processing_duration'' (total_seconds t t')
                   [(''job_type'', cj_type c), (''priority'', cj_priority c)])
         (seq_io (record_io A ''worker_executor_duration'' (total_seconds t t')
                   [(''job_type'', cj_type c), (''worker_id'', hostname A)])
         (complete_job A (str_uuid i) c r)))) Q (\<lambda>_ _. False) w2"
    if "execution_answer A cls i c w = Inr r" "view w2 = view w1" for r w2
    unfolding wp_bind by (intro wp_now wp_record complete [OF that(1)]) (simp add: that(2) d1)
  have "wp (try_except (bind_io ?m (\<lambda>result.
         bind_io (now_utc A) (\<lambda>t'.
         seq_io (record_io A ''job_processing_duration'' (total_seconds t t')
                   [(''job_type'', cj_type c), (''priority'', cj_priority c)])
         (seq_io (record_io A ''worker_executor_duration'' (total_seconds t t')
                   [(''job_type'', cj_type c), (''worker_id'', hostname A)])
         (complete_job A (str_uuid i) c result)))))
        (on_failure A cls (str_uuid i) c t)) Q X w1"
    unfolding wp_try_except wp_bind [of ?m]
    using v ans failed after [THEN wp_mono]
    by (auto simp: wp_def [of ?m] d1 split: prod.splits sum.splits)
  moreover have "run_job A (str_uuid i) c = bind_io (before_execution A c) (\<lambda>t.
      try_except (bind_io ?m (\<lambda>result.
         bind_io (now_utc A) (\<lambda>t'.
         seq_io (record_io A ''job_processing_duration'' (total_seconds t t')
                   [(''job_type'', cj_type c), (''priority'', cj_priority c)])
         (seq_io (record_io A ''worker_executor_duration'' (total_seconds t t')
                   [(''job_type'', cj_type c), (''worker_id'', hostname A)])
         (complete_job A (str_uuid i) c result)))))
        (on_failure A cls (str_uuid i) c t))"
    by (simp add: run_job_def before_execution_def executor_io_def c bind_io_assoc bind_io_return)
  ultimately show ?thesis by (simp add: wp_bind) (simp add: wp_def [of "before_execution A c"] b)
qed

end

text \<open>
  C26: Cancelled while executing. A worker has claimed a job and the row is cancelled before
  the worker is done. If the execution answers, its result is discarded: tables and queues are
  as they were. If it raises or runs out of time, the cancellation is undone: a job with
  attempts left is queued again with its identifier in the retry queue, any other is marked
  failed.
\<close>
theorem cancelled_job_comes_back:
  assumes "reliable_services A view" and "good_table (rows (view w))" and "rows (view w) i = Some j"
    and "status j = ''cancelled''" and "get_executor (cj_type c) = Inr cls"
  shows "wp (run_job A (str_uuid i) c)
     (\<lambda>_ w'. case execution_answer A cls i c w of
         Inr _ \<Rightarrow> data (view w') = data (view w)
       | Inl _ \<Rightarrow> \<exists>j'. rows (view w') = (rows (view w))(i \<mapsto> j') \<and> same_request j j' \<and>
           (if attempts j < max_attempts j then status j' = ''queued'' \<and> str_uuid i \<in> dom (zsets (view w') RETRY_KEY)
            else status j' = ''failed''))
     (\<lambda>_ _. False) w"
proof (rule reliable_services.wp_run_answer [OF assms(1,5)])
  fix r w1
  assume a: "execution_answer A cls i c w = Inr r" and d: "data (view w1) = data (view w)"
  show "wp (complete_job A (str_uuid i) c r) (\<lambda>_ w'. case execution_answer A cls i c w of
         Inr _ \<Rightarrow> data (view w') = data (view w)
       | Inl _ \<Rightarrow> \<exists>j'. rows (view w') = (rows (view w))(i \<mapsto> j') \<and> same_request j j' \<and>
           (if attempts j < max_attempts j then status j' = ''queued'' \<and> str_uuid i \<in> dom (zsets (view w') RETRY_KEY)
            else status j' = ''failed'')) (\<lambda>_ _. False) w1"
    unfolding a sum.case
    by (rule wp_mono [OF cancelled_result_discarded [OF assms(1)]])
       (use assms(2-4) data_eqD [OF d] in \<open>auto simp: d\<close>)
next
  fix e t w1
  assume a: "execution_answer A cls i c w = Inl e" and "data (view w1) = data (view w)"
  note s = data_eqD [OF this(2)]
  have h: "wp (handle_failure A (str_uuid i) msg) (\<lambda>_ w'. \<exists>j'. rows (view w') = (rows (view w))(i \<mapsto> j') \<and> same_request j j' \<and>
           (if attempts j < max_attempts j then status j' = ''queued'' \<and> str_uuid i \<in> dom (zsets (view w') RETRY_KEY)
            else status j' = ''failed'')) (\<lambda>_ _. False) w2" if "data (view w2) = data (view w1)" for w2 msg
    using data_eqD [OF that] s assms(2,3)
    by (intro reliable_services.wp_handle_failure [OF assms(1)])
       (auto simp: failed_row_def retried_row_def same_request_def)
  have sv: "services A view" using assms(1) by (simp add: reliable_services_def)
  show "wp (on_failure A cls (str_uuid i) c t e) (\<lambda>_ w'. case execution_answer A cls i c w of
         Inr _ \<Rightarrow> data (view w') = data (view w)
       | Inl _ \<Rightarrow> \<exists>j'. rows (view w') = (rows (view w))(i \<mapsto> j') \<and> same_request j j' \<and>
           (if attempts j < max_attempts j then status j' = ''queued'' \<and> str_uuid i \<in> dom (zsets (view w') RETRY_KEY)
            else status j' = ''failed'')) (\<lambda>_ _. False) w1"
    unfolding a sum.case on_failure_def wp_bind
  proof (rule services.wp_now [OF sv], rule services.wp_record [OF sv])
    fix t' w2 w3 ms
    assume v: "view w2 = view w1" "view w3 = (view w2)\<lparr>meters := meters (view w2) @ ms\<rparr>"
    show "wp (if e = TimeoutError
        then seq_io (count_io A ''jobs_failed'' 1 [(''job_type'', cj_type c), (''priority'', cj_priority c), (''failure_reason'', ''timeout'')])
               (handle_failure A (str_uuid i) (''Execution timed out after '' @ str_int (max_execution_seconds cls) @ ''s''))
        else seq_io (count_io A ''jobs_failed'' 1 [(''job_type'', cj_type c), (''priority'', cj_priority c), (''failure_reason'', ''executor_error'')])
               (handle_failure A (str_uuid i) (exn_str e)))
      (\<lambda>_ w'. \<exists>j'. rows (view w') = (rows (view w))(i \<mapsto> j') \<and> same_request j j' \<and>
           (if attempts j < max_attempts j then status j' = ''queued'' \<and> str_uuid i \<in> dom (zsets (view w') RETRY_KEY)
            else status j' = ''failed'')) (\<lambda>_ _. False) w3"
      by (cases "e = TimeoutError"; simp only: if_True if_False wp_bind refl simp_thms)
         (rule services.wp_count [OF sv], rule h, simp add: v)+
  qed
qed

text \<open>For running coroutines on a concrete world.\<close>

lemmas run_defs = bind_io_def return_io_def raise_io_def try_except_def read_io_def do_io_def uuid_io_def
  count_io_def updown_io_def record_io_def histogram_setup timed_io_def record_elapsed_def mem_app_def mem_cmd_def mem_matching_def mem_commit_def mem_zrem_def mem_zdel_def
  mem_set_list_def mem_init_def counter_setup updown_setup mem_tick_def mem_time_def mem_random_def
  mem_zrangebyscore_def mem_zpopmin_def mem_brpop_def mem_zadd_def

text \<open>A claim of the sample job, and an execution that will hit its deadline.\<close>

definition sample_claim :: claimed_job where
  "sample_claim = \<lparr>cj_type = ''email_send'', cj_payload = Map.empty, cj_priority = ''high'', cj_created_at = 0, cj_started_at = 0\<rparr>"

theorem cancelled_job_comes_back_witness:
  "wp (run_job (mem_app False) (str_uuid 7) sample_claim)
     (\<lambda>_ w'. \<exists>j'. rows (mem_view w') = [7 \<mapsto> j'] \<and> same_request cancelled_row j' \<and> status j' = ''queued'' \<and>
              str_uuid 7 \<in> dom (zsets (mem_view w') RETRY_KEY))
     (\<lambda>_ _. False) ((row_mem cancelled_row)\<lparr>m_late := [True]\<rparr>)"
proof -
  let ?w = "(row_mem cancelled_row)\<lparr>m_late := [True]\<rparr>"
  have r: "rows (mem_view ?w) = [7 \<mapsto> cancelled_row]" using row_mem_rows [of cancelled_row] by (simp add: mem_view_def)
  have g: "good_table (rows (mem_view ?w))"
    using row_mem_good [of cancelled_row] unfolding r row_mem_rows by (simp add: cancelled_row_good)
  have e: "get_executor (cj_type sample_claim) = Inr EmailExecutor"
    by (simp add: sample_claim_def get_executor_def EXECUTOR_REGISTRY_def)
  have a: "execution_answer (mem_app False) EmailExecutor 7 sample_claim ?w = Inl TimeoutError"
    by (simp add: execution_answer_def before_execution_def wait_for_def mem_deadline_def row_mem_def run_defs
        counter_names_def histogram_names_def)
  have j: "rows (mem_view ?w) 7 = Some cancelled_row" unfolding r by simp
  show ?thesis
    using cancelled_job_comes_back [OF mem_reliable_services g j cancelled_row_good(3) e] unfolding a r sum.case
    by (simp add: cancelled_row_good)
qed

subsection \<open>Where a failing service loses a job\<close>

text \<open>
  A cancellation that fails half-way loses the job. \<open>cancel_job\<close> empties the queues
  before it commits; when the commit fails the row is still queued, but its identifier is
  in no queue any more.
\<close>
lemma cancel_failure_loses_job:
  "tracked (mem_view (busy_mem [False, False, False, False, True])) \<and>
   (case cancel_job (mem_app True) 7 (busy_mem [False, False, False, False, True]) of (r, w') \<Rightarrow>
      r = Inl (OtherError ''connection lost'') \<and> rows (mem_view w') 7 = Some sample_row \<and>
      status sample_row = ''queued'' \<and> \<not> queued_in (mem_view w') (str_uuid 7))"
proof
  show "tracked (mem_view (busy_mem [False, False, False, False, True]))" by (rule busy_tracked)
qed (simp add: cancel_job_def remove_from_queues_def run_defs busy_mem_def sample_row_good queued_in_def)

text \<open>A job that waits in the retry queue, and services of which the third command fails.\<close>

definition waiting_mem :: "bool list \<Rightarrow> mem" where
  "waiting_mem faults = mem_init\<lparr>m_rows := [(7, sample_row)],
     m_zsets := (m_zsets mem_init)(RETRY_KEY := [(str_uuid 7, 0)]), m_faults := faults\<rparr>"

text \<open>
  A failure while draining loses the job. \<open>drain_retry_queue\<close> claims the due
  identifiers before the loop loads their rows; when that fails, the worker goes on with its
  next pass, and the row stays queued with its identifier in no queue. Start-up recovery
  does not find it, since it only looks at processing rows.
\<close>
lemma drain_failure_loses_job:
  "queued_in (mem_view (waiting_mem [False, False, True])) (str_uuid 7) \<and>
   (case worker_iteration (mem_app True) (waiting_mem [False, False, True]) of (r, w') \<Rightarrow>
      r = Inr () \<and> rows (mem_view w') 7 = Some sample_row \<and> status sample_row = ''queued'' \<and>
      \<not> queued_in (mem_view w') (str_uuid 7) \<and> (\<forall>threshold. \<not> stuck threshold sample_row))"
  by (simp add: worker_iteration_def poll_once_def drain_retry_queue_def requeue_due_def run_defs waiting_mem_def
      sample_row_good queued_in_def stuck_def zsorted_def counter_names_def histogram_names_def)

text \<open>
  C31: A crash costs two attempts. The start of a job counts its attempt; when the worker dies
  and recovery finds the row, the same attempt is counted again. So after one start and one
  recovery the job has used two more attempts: a job with three attempts whose second start is
  cut off is failed for good. Between the two anything may happen that leaves the job's row
  alone.
\<close>
theorem recovery_counts_twice:
  assumes "reliable_services A view" and "good_table (rows (view w))"
    and "rows (view w) i = Some j" and "status j = ''queued''"
  shows "wp (start_job A (str_uuid i) source)
     (\<lambda>claim w1. good_table (rows (view w1)) \<and> claim \<noteq> None \<and> cj_started_at (the claim) = time_after_load A i w \<and>
        (\<forall>w2. good_table (rows (view w2)) \<and> rows (view w2) i = rows (view w1) i \<and>
              time_after_load A i w < fst (clock_now A w2) - m * 60 * 10 ^ 6 \<longrightarrow>
           wp (run_startup_recovery A m)
             (\<lambda>_ w3. \<exists>j'. rows (view w3) i = Some j' \<and> same_request j j' \<and> attempts j' = attempts j + 2 \<and>
                status j' = (if max_attempts j \<le> attempts j + 2 then ''failed'' else ''queued'')) (\<lambda>_ _. False) w2))
     (\<lambda>_ _. False) w"
proof (rule reliable_services.wp_start_job_at [OF assms(1,2)])
  fix j0 t w1
  assume t: "t = time_after_load A i w" and "rows (view w) i = Some j0"
    and r1: "rows (view w1) = (rows (view w))(i \<mapsto> started_row j0 t)"
  then have j0: "j0 = j" using assms(3) by simp
  let ?c = "\<lparr>cj_type = job_type j0, cj_payload = payload j0, cj_priority = priority j0, cj_created_at = created_at j0, cj_started_at = t\<rparr>"
  have "wp (run_startup_recovery A m)
      (\<lambda>_ w3. \<exists>j'. rows (view w3) i = Some j' \<and> same_request j j' \<and> attempts j' = attempts j + 2 \<and>
         status j' = (if max_attempts j \<le> attempts j + 2 then ''failed'' else ''queued'')) (\<lambda>_ _. False) w2"
    if g: "good_table (rows (view w2))" and r2: "rows (view w2) i = rows (view w1) i"
      and late: "time_after_load A i w < fst (clock_now A w2) - m * 60 * 10 ^ 6" for w2
  proof (rule reliable_services.wp_recovery_at [OF assms(1) g])
    fix now w3
    assume now: "now = fst (clock_now A w2)" and d: "recovery_done (now - m * 60 * 10 ^ 6) (view w2) (view w3)"
    have row: "rows (view w2) i = Some (started_row j t)" by (simp add: r2 r1 j0)
    have "stuck (now - m * 60 * 10 ^ 6) (started_row j t)" using late by (simp add: stuck_def started_row_def t now)
    then obtain r where "rows (view w3) i = Some r" "recovery_row (started_row j t) r"
      using d [unfolded recovery_done_def, THEN conjunct1, rule_format, of i] row by auto
    then show "\<exists>j'. rows (view w3) i = Some j' \<and> same_request j j' \<and> attempts j' = attempts j + 2 \<and>
         status j' = (if max_attempts j \<le> attempts j + 2 then ''failed'' else ''queued'')"
      by (auto simp: recovery_row_def started_row_def same_request_def split: if_splits)
  qed
  moreover have "good_table (rows (view w1))"
    using good_table_step [OF table_step.row [where t = "rows (view w)" and i = i, OF assms(3) row_steps_of(3) [OF assms(4)]] assms(2)]
    by (simp add: r1 j0)
  ultimately show "good_table (rows (view w1)) \<and> Some ?c \<noteq> None \<and> cj_started_at (the (Some ?c)) = time_after_load A i w \<and>
        (\<forall>w2. good_table (rows (view w2)) \<and> rows (view w2) i = rows (view w1) i \<and>
              time_after_load A i w < fst (clock_now A w2) - m * 60 * 10 ^ 6 \<longrightarrow>
           wp (run_startup_recovery A m)
             (\<lambda>_ w3. \<exists>j'. rows (view w3) i = Some j' \<and> same_request j j' \<and> attempts j' = attempts j + 2 \<and>
                status j' = (if max_attempts j \<le> attempts j + 2 then ''failed'' else ''queued'')) (\<lambda>_ _. False) w2)"
    by (simp add: t)
qed (use assms(3,4) in simp)

text \<open>A job with three attempts, one of them used: its second start is its last.\<close>

definition second_row :: job where
  "second_row = sample_row\<lparr>attempts := 1\<rparr>"

lemma second_row_good: "good_row second_row" "job_id second_row = 7" "status second_row = ''queued''"
    "attempts second_row = 1" "max_attempts second_row = 3"
  by (simp_all add: second_row_def sample_row_good good_row_def status_in_range)

theorem recovery_counts_twice_witness:
  "wp (start_job (mem_app False) (str_uuid 7) ''priority'')
     (\<lambda>_ w1. wp (run_startup_recovery (mem_app False) 10)
          (\<lambda>_ w3. \<exists>j'. rows (mem_view w3) 7 = Some j' \<and> attempts j' = 3 \<and> status j' = ''failed'') (\<lambda>_ _. False)
          (w1\<lparr>m_clock := 10 ^ 10\<rparr>)) (\<lambda>_ _. False) (row_mem second_row)"
proof -
  let ?w = "row_mem second_row"
  have j: "rows (mem_view ?w) 7 = Some second_row" unfolding row_mem_rows by simp
  have t: "time_after_load (mem_app False) 7 ?w = 0"
    by (simp add: time_after_load_def row_mem_def run_defs)
  have late: "0 < fst (clock_now (mem_app False) (w1\<lparr>m_clock := 10 ^ 10\<rparr>)) - 10 * 60 * 10 ^ 6" for w1
    by (simp add: mem_app_def mem_tick_def)
  have v: "mem_view (w1\<lparr>m_clock := 10 ^ 10\<rparr>) = mem_view w1" for w1 by (simp add: mem_view_def)
  note p = recovery_counts_twice [OF mem_reliable_services row_mem_good [OF second_row_good(1,2)] j second_row_good(3), of "''priority''" 10]
  show ?thesis
  proof (rule wp_mono [OF p])
    fix claim w1
    assume h: "good_table (rows (mem_view w1)) \<and> claim \<noteq> None \<and> cj_started_at (the claim) = time_after_load (mem_app False) 7 ?w \<and>
        (\<forall>w2. good_table (rows (mem_view w2)) \<and> rows (mem_view w2) 7 = rows (mem_view w1) 7 \<and>
              time_after_load (mem_app False) 7 ?w < fst (clock_now (mem_app False) w2) - 10 * 60 * 10 ^ 6 \<longrightarrow>
           wp (run_startup_recovery (mem_app False) 10)
             (\<lambda>_ w3. \<exists>j'. rows (mem_view w3) 7 = Some j' \<and> same_request second_row j' \<and> attempts j' = attempts second_row + 2 \<and>
                status j' = (if max_attempts second_row \<le> attempts second_row + 2 then ''failed'' else ''queued'')) (\<lambda>_ _. False) w2)"
    have g: "good_table (rows (mem_view (w1\<lparr>m_clock := 10 ^ 10\<rparr>))) \<and>
        rows (mem_view (w1\<lparr>m_clock := 10 ^ 10\<rparr>)) 7 = rows (mem_view w1) 7 \<and>
        time_after_load (mem_app False) 7 ?w < fst (clock_now (mem_app False) (w1\<lparr>m_clock := 10 ^ 10\<rparr>)) - 10 * 60 * 10 ^ 6"
      unfolding v t using h late by blast
    show "wp (run_startup_recovery (mem_app False) 10)
          (\<lambda>_ w3. \<exists>j'. rows (mem_view w3) 7 = Some j' \<and> attempts j' = 3 \<and> status j' = ''failed'') (\<lambda>_ _. False)
          (w1\<lparr>m_clock := 10 ^ 10\<rparr>)"
      by (rule wp_mono [OF h [THEN conjunct2, THEN conjunct2, THEN conjunct2, rule_format, OF g]])
         (auto simp: second_row_good)
  qed simp
qed

end
