(* ===== verification/Liveness.thy ===== *)
theory Liveness
  imports System
begin

section \<open>Waiting jobs are started\<close>

text \<open>
  The worker does not idle while a job waits. With services that do not fail and no retry
  falling due, a claim takes the first member of the priority queue and starts its job if it is
  still queued (\<open>wp_claim_first\<close>); so as many claims as the queue has members, by any
  number of workers, start every job that waits in it.
\<close>

text \<open>Two tables, the second after every queued job with its identifier in \<open>S\<close> has been started.\<close>

definition started_all :: "string set \<Rightarrow> table \<Rightarrow> table \<Rightarrow> bool" where
  "started_all S t t' \<longleftrightarrow>
     (\<forall>i. case t i of
        None \<Rightarrow> t' i = None
      | Some j \<Rightarrow> if str_uuid i \<in> S \<and> status j = ''queued'' then \<exists>c. t' i = Some (started_row j c) else t' i = Some j)"

lemma started_none: "started_all {} t t"
  by (simp add: started_all_def split: option.split)

lemma started_row_status [simp]: "status (started_row j c) = ''processing''"
  by (simp add: started_row_def)

lemma started_allD:
  assumes "started_all S t t'"
  shows "t i = None \<Longrightarrow> t' i = None"
    and "t i = Some j \<Longrightarrow> str_uuid i \<in> S \<Longrightarrow> status j = ''queued'' \<Longrightarrow> \<exists>c. t' i = Some (started_row j c)"
    and "t i = Some j \<Longrightarrow> \<not> (str_uuid i \<in> S \<and> status j = ''queued'') \<Longrightarrow> t' i = Some j"
  using assms [unfolded started_all_def, rule_format, of i] by auto

lemma started_trans:
  assumes a: "started_all S t u" and b: "started_all S' u v"
  shows "started_all (S \<union> S') t v"
  unfolding started_all_def
proof
  fix i
  show "case t i of None \<Rightarrow> v i = None
      | Some j \<Rightarrow> if str_uuid i \<in> S \<union> S' \<and> status j = ''queued'' then \<exists>c. v i = Some (started_row j c) else v i = Some j"
  proof (cases "t i")
    case None
    then show ?thesis using started_allD(1) [OF b] started_allD(1) [OF a] by simp
  next
    case (Some j)
    show ?thesis
    proof (cases "str_uuid i \<in> S \<and> status j = ''queued''")
      case True
      then obtain c where c: "u i = Some (started_row j c)" using started_allD(2) [OF a Some] by blast
      then have "v i = Some (started_row j c)" by (intro started_allD(3) [OF b]) simp_all
      then show ?thesis using True Some by auto
    next
      case False
      then have u: "u i = Some j" using started_allD(3) [OF a Some] by simp
      show ?thesis using started_allD(2) [OF b u] started_allD(3) [OF b u] False Some by auto
    qed
  qed
qed

lemma started_one:
  assumes "t i = Some j" and "status j = ''queued''"
  shows "started_all {str_uuid i} t (t(i \<mapsto> started_row j c))"
  using assms by (auto simp: started_all_def split: option.split)

lemma started_skip:
  assumes "\<forall>j. t i = Some j \<longrightarrow> status j \<noteq> ''queued''"
  shows "started_all {str_uuid i} t t"
  using assms by (auto simp: started_all_def split: option.split)

text \<open>The clock stays before every retry that waits: none falls due.\<close>

definition none_due :: "'w app \<Rightarrow> ('w \<Rightarrow> store) \<Rightarrow> (string \<Rightarrow> rat option) \<Rightarrow> bool" where
  "none_due A view z \<longleftrightarrow> reading view (clock_time A) (\<lambda>now. \<forall>m sc. z m = Some sc \<longrightarrow> now < sc)"

context reliable_services
begin

lemma wp_drain_nothing:
  assumes "none_due A view (zsets (view w) RETRY_KEY)" and "\<And>w'. data (view w') = data (view w) \<Longrightarrow> Q [] w'"
  shows "wp (drain_retry_queue A n) Q X w"
proof (rule wp_drain_at)
  fix now ids w'
  assume now: "now = fst (clock_time A w)" and d: "drained (zsets (view w) RETRY_KEY) n now ids"
    and v: "data (view w') = zset_drop RETRY_KEY ids (data (view w))"
  have early: "now < sc" if "zsets (view w) RETRY_KEY m = Some sc" for m sc
    using assms(1) that by (auto simp: none_due_def reading_def now)
  obtain ms where ms: "set ms = {m. \<exists>sc. zsets (view w) RETRY_KEY m = Some sc \<and> sc \<le> now}" "ids = take n ms"
    using d by (auto simp: drained_def)
  have "set ms = {}" unfolding ms(1) using early by (force dest: leD)
  then have "ids = []" using ms(2) by simp
  then show "Q ids w'" using assms(2) v by simp
qed

text \<open>A claim with no retry due takes the first of the priority queue.\<close>

lemma wp_claim_first:
  assumes t: "tracked (view w)" and r: "none_due A view (zsets (view w) RETRY_KEY)"
    and p: "zsets (view w) PRIORITY_KEY \<noteq> Map.empty"
    and Q: "\<And>x m w'. tracked (view w') \<Longrightarrow> m \<in> dom (zsets (view w) PRIORITY_KEY) \<Longrightarrow>
      zsets (view w') = (zsets (view w))(PRIORITY_KEY := (zsets (view w) PRIORITY_KEY)(m := None)) \<Longrightarrow>
      started_all {m} (rows (view w)) (rows (view w')) \<Longrightarrow> Q x w'"
  shows "wp (claim_phase A) Q X w"
proof -
  let ?keeps = "\<lambda>_ w'. tracked (view w')"
  have tr: "wp (claim_phase A) ?keeps (\<lambda>_ _. False) w" by (rule tracked_claim [OF t])
  let ?P = "\<lambda>_ w'. \<exists>m \<in> dom (zsets (view w) PRIORITY_KEY).
      zsets (view w') = (zsets (view w))(PRIORITY_KEY := (zsets (view w) PRIORITY_KEY)(m := None)) \<and>
      started_all {m} (rows (view w)) (rows (view w'))"
  have "wp (claim_phase A) ?P (\<lambda>_ _. True) w"
    unfolding claim_phase_def wp_bind
  proof (rule wp_drain_nothing [OF r])
    fix w1
    assume d1: "data (view w1) = data (view w)"
    note e = data_eqD [OF d1]
    show "wp (for_each (requeue_due A) []) (\<lambda>_. wp (next_job A) (\<lambda>nxt. wp (case nxt of
        None \<Rightarrow> seq_io (count_io A ''worker_loop_iterations'' 1 [(''worker_id'', hostname A), (''outcome'', ''no_job'')])
                 (return_io None)
      | Some (jid, source) \<Rightarrow>
          bind_io (start_job A jid source) (\<lambda>claim. return_io (map_option (\<lambda>c. (jid, c)) claim))) ?P (\<lambda>_ _. True))
        (\<lambda>_ _. True)) (\<lambda>_ _. True) w1"
      unfolding for_each.simps wp_return
    proof (rule wp_next_job)
      show "'''' \<notin> dom (zsets (view w1) PRIORITY_KEY)" "'''' \<notin> set (lists (view w1) FIFO_KEY)"
        using tracked_but_no_empty [OF t] by (auto simp: queued_in_def e)
    next
      fix m w2
      assume m: "zfirst (zsets (view w1) PRIORITY_KEY) m" and v2: "data (view w2) = zset_del PRIORITY_KEY m (data (view w1))"
      have mem: "m \<in> dom (zsets (view w) PRIORITY_KEY)" using m by (simp add: zfirst_def e)
      then obtain i where i: "m = str_uuid i" using tracked_but_named [OF t, of m] by (auto simp: queued_in_def)
      have g: "good_table (rows (view w2))" using tracked_but_good [OF t] by (simp add: data_isD [OF v2] e)
      have z: "zsets (view w2) = (zsets (view w))(PRIORITY_KEY := (zsets (view w) PRIORITY_KEY)(m := None))"
        and rw: "rows (view w2) = rows (view w)" by (simp_all add: data_isD [OF v2] e)
      have "wp (start_job A (str_uuid i) ''priority'') (\<lambda>claim. ?P (map_option (\<lambda>c. (str_uuid i, c)) claim)) (\<lambda>_ _. True) w2"
        by (rule wp_start_job [OF g])
           (use mem z in \<open>auto simp: i rw intro!: bexI [of _ "str_uuid i"] started_skip started_one\<close>)
      then show "wp (case Some (m, ''priority'') of
        None \<Rightarrow> seq_io (count_io A ''worker_loop_iterations'' 1 [(''worker_id'', hostname A), (''outcome'', ''no_job'')])
                 (return_io None)
      | Some (jid, source) \<Rightarrow>
          bind_io (start_job A jid source) (\<lambda>claim. return_io (map_option (\<lambda>c. (jid, c)) claim))) ?P (\<lambda>_ _. True) w2"
        unfolding i by (simp add: wp_simps)
    qed (use p in \<open>simp_all add: e\<close>)
  qed
  from wp_conj [OF this tr] show ?thesis by (rule wp_mono) (auto intro: Q)
qed

lemma claims_start_all:
  assumes "tracked (view w)" and "none_due A view (zsets (view w) RETRY_KEY)"
    and "finite (dom (zsets (view w) PRIORITY_KEY))" and "n = card (dom (zsets (view w) PRIORITY_KEY))"
  shows "wp (for_each (run_request A) (replicate n WorkerClaim))
     (\<lambda>_ w'. zsets (view w') PRIORITY_KEY = Map.empty \<and> zsets (view w') RETRY_KEY = zsets (view w) RETRY_KEY \<and>
        started_all (dom (zsets (view w) PRIORITY_KEY)) (rows (view w)) (rows (view w'))) (\<lambda>_ _. False) w"
  using assms
proof (induction n arbitrary: w)
  case 0
  then have "dom (zsets (view w) PRIORITY_KEY) = {}" by simp
  then show ?case by (simp add: wp_simps started_none)
next
  case (Suc n)
  let ?z = "zsets (view w) PRIORITY_KEY"
  have ne: "?z \<noteq> Map.empty" using Suc.prems(4) by auto
  show ?case
    unfolding replicate_Suc for_each.simps wp_bind run_request.simps wp_attempt
  proof (rule wp_claim_first [OF Suc.prems(1,2) ne])
    fix m w1
    assume t1: "tracked (view w1)" and m: "m \<in> dom ?z" and s: "started_all {m} (rows (view w)) (rows (view w1))"
      and z1: "zsets (view w1) = (zsets (view w))(PRIORITY_KEY := ?z(m := None))"
    have d: "dom (zsets (view w1) PRIORITY_KEY) = dom ?z - {m}" by (auto simp: z1)
    have c: "n = card (dom (zsets (view w1) PRIORITY_KEY))" "finite (dom (zsets (view w1) PRIORITY_KEY))"
      unfolding d using m Suc.prems(3,4) by simp_all
    have z: "zsets (view w1) RETRY_KEY = zsets (view w) RETRY_KEY" by (simp add: z1)
    then have r: "none_due A view (zsets (view w1) RETRY_KEY)" using Suc.prems(2) by simp
    have "wp (for_each (run_request A) (replicate n WorkerClaim))
       (\<lambda>_ w'. zsets (view w') PRIORITY_KEY = Map.empty \<and> zsets (view w') RETRY_KEY = zsets (view w1) RETRY_KEY \<and>
          started_all (dom (zsets (view w1) PRIORITY_KEY)) (rows (view w1)) (rows (view w'))) (\<lambda>_ _. False) w1"
      by (rule Suc.IH [OF t1 r c(2,1)])
    moreover have "insert m (dom ?z - {m}) = dom ?z" using m by blast
    ultimately show "wp (for_each (run_request A) (replicate n WorkerClaim))
       (\<lambda>_ w'. zsets (view w') PRIORITY_KEY = Map.empty \<and> zsets (view w') RETRY_KEY = zsets (view w) RETRY_KEY \<and> started_all (dom ?z) (rows (view w)) (rows (view w'))) (\<lambda>_ _. False) w1"
      by (elim wp_mono) (use started_trans [OF s] in \<open>force simp: d z\<close>)+
  qed
qed

end

text \<open>
  C32: Every waiting job is started. With services that do not fail and no retry falling due,
  as many claims as the priority queue has members leave it empty with every job that was
  queued in it marked processing with one more attempt, and no other row and no retry changed.
  (A retry that falls due enters the priority queue and needs a claim of its own.)
\<close>
theorem waiting_jobs_started:
  assumes "reliable_services A view" and "tracked (view w)" and "none_due A view (zsets (view w) RETRY_KEY)"
    and "finite (dom (zsets (view w) PRIORITY_KEY))"
  shows "wp (for_each (run_request A) (replicate (card (dom (zsets (view w) PRIORITY_KEY))) WorkerClaim))
     (\<lambda>_ w'. zsets (view w') PRIORITY_KEY = Map.empty \<and> zsets (view w') RETRY_KEY = zsets (view w) RETRY_KEY \<and>
        started_all (dom (zsets (view w) PRIORITY_KEY)) (rows (view w)) (rows (view w'))) (\<lambda>_ _. False) w"
  by (rule reliable_services.claims_start_all [OF assms refl])

text \<open>The sample job waits, and the retry of a job that is gone is never due.\<close>

definition later_mem :: mem where
  "later_mem = (busy_mem [])\<lparr>m_zsets := (m_zsets (busy_mem []))(RETRY_KEY := [(str_uuid 8, 10 ^ 14)])\<rparr>"

lemma later_tracked: "tracked (mem_view later_mem)"
proof -
  have r: "rows (mem_view later_mem) = rows (mem_view (busy_mem []))" by (simp add: later_mem_def mem_view_def)
  have q: "queued_in (mem_view later_mem) m \<longleftrightarrow> queued_in (mem_view (busy_mem [])) m \<or> m = str_uuid 8" for m
    by (auto simp: queued_in_def later_mem_def busy_mem_def mem_init_def mem_view_def)
  show ?thesis using busy_tracked [of "[]"] unfolding tracked_but_def r q by auto
qed

lemma later_none_due: "none_due (mem_app False) mem_view (zsets (mem_view later_mem) RETRY_KEY)"
  by (auto simp: none_due_def reading_def mem_app_def mem_time_def later_mem_def mem_view_def min_less_iff_disj split: if_splits)

theorem waiting_jobs_started_witness:
  "wp (for_each (run_request (mem_app False)) (replicate (card (dom (zsets (mem_view later_mem) PRIORITY_KEY))) WorkerClaim))
     (\<lambda>_ w'. zsets (mem_view w') PRIORITY_KEY = Map.empty \<and>
        zsets (mem_view w') RETRY_KEY = zsets (mem_view later_mem) RETRY_KEY \<and>
        started_all (dom (zsets (mem_view later_mem) PRIORITY_KEY)) (rows (mem_view later_mem)) (rows (mem_view w')))
     (\<lambda>_ _. False) later_mem"
  by (rule waiting_jobs_started [OF mem_reliable_services later_tracked later_none_due]) (simp add: later_mem_def busy_mem_def)

end
