(* ===== verification/Job_Metrics.thy ===== *)
theory Job_Metrics
  imports Outcomes
begin

section \<open>What an execution adds to the metrics\<close>

text \<open>
  The counters and the gauge of running jobs that the worker updates while it runs a job
  (\<open>run_job\<close> of Worker), as sums over the updates handed to OpenTelemetry. \<open>book\<close> is what the
  proofs follow of a world: the rows, and the total of every instrument. The locale
  \<open>metered_services\<close> adds to \<open>reliable_services\<close> that \<open>setup_telemetry\<close> has run.
\<close>

subsection \<open>Totals\<close>

fun amount :: "string \<Rightarrow> metric \<Rightarrow> int" where
  "amount n (CounterAdd c k _) = (if c = n then int k else 0)"
| "amount n (UpDownAdd c k _) = (if c = n then k else 0)"
| "amount n (HistogramRecord _ _ _) = 0"

definition tally :: "metric list \<Rightarrow> string \<Rightarrow> int" where
  "tally ms n = sum_list (map (amount n) ms)"

lemma tally_append: "tally (ms @ ms') n = tally ms n + tally ms' n"
  by (simp add: tally_def)

abbreviation active_gauge :: string where "active_gauge \<equiv> ''jobqueue_jobs_active''"
abbreviation completed_total :: string where "completed_total \<equiv> ''jobqueue_jobs_completed_total''"
abbreviation failed_total :: string where "failed_total \<equiv> ''jobqueue_jobs_failed_total''"
abbreviation retried_total :: string where "retried_total \<equiv> ''jobqueue_jobs_retried_total''"

text \<open>What the counters gain when an execution leaves the row in a state: completed, failed, retried.\<close>

definition outcome_tally :: "string \<Rightarrow> int \<times> int \<times> int" where
  "outcome_tally st =
     (if st = ''completed'' then (1, 0, 0)
      else if st = ''queued'' then (0, 1, 1)
      else if st = ''failed'' then (0, 2, 0)
      else (0, 0, 0))"

definition book :: "('w \<Rightarrow> store) \<Rightarrow> 'w \<Rightarrow> table \<times> (string \<Rightarrow> int)" where
  "book view w = (rows (view w), tally (meters (view w)))"

definition put :: "string \<Rightarrow> int \<Rightarrow> table \<times> (string \<Rightarrow> int) \<Rightarrow> table \<times> (string \<Rightarrow> int)" where
  "put n k b = (fst b, (snd b)(n := snd b n + k))"

lemma put_sel [simp]:
  "fst (put n k b) = fst b" "snd (put n k b) m = (if m = n then snd b n + k else snd b m)"
  by (simp_all add: put_def)

lemma book_sel [simp]: "fst (book view w) = rows (view w)" "snd (book view w) = tally (meters (view w))"
  by (simp_all add: book_def)

text \<open>The end of an execution that has already counted \<open>failed\<close> failures.\<close>

definition accounted :: "uuid \<Rightarrow> int \<Rightarrow> table \<times> (string \<Rightarrow> int) \<Rightarrow> table \<times> (string \<Rightarrow> int) \<Rightarrow> bool" where
  "accounted i failed b b' \<longleftrightarrow>
     snd b' active_gauge = snd b active_gauge - 1 \<and>
     (\<exists>j. fst b' i = Some j \<and>
       (snd b' completed_total - snd b completed_total, snd b' failed_total - snd b failed_total + failed,
        snd b' retried_total - snd b retried_total) = outcome_tally (status j))"

locale metered_services = reliable_services A view for A :: "'w app" and view :: "'w \<Rightarrow> store" +
  assumes set_up: "\<exists>n e. registry A = setup_telemetry n e telemetry_module"
begin

lemma book_view: "view w' = view w \<Longrightarrow> book view w' = book view w"
  by (simp add: book_def)

lemma wp_now_book: "(\<And>t w'. book view w' = book view w \<Longrightarrow> Q t w') \<Longrightarrow> wp (now_utc A) Q X w"
  by (rule wp_now) (blast dest: book_view)

lemma wp_time_book: "(\<And>t w'. book view w' = book view w \<Longrightarrow> Q t w') \<Longrightarrow> wp (epoch_now A) Q X w"
  by (rule wp_time) (blast dest: book_view)

lemma wp_backoff_book:
  "(\<And>d w'. book view w' = book view w \<Longrightarrow> Q d w') \<Longrightarrow> wp (calculate_backoff_with_jitter A a cap) Q X w"
  by (rule wp_backoff) (blast dest: book_view)

lemma wp_count_book:
  assumes "name \<in> set counter_names"
    and "\<And>w'. book view w' = put (''jobqueue_'' @ name @ ''_total'') (int k) (book view w) \<Longrightarrow> Q () w'"
  shows "wp (count_io A name k attrs) Q X w"
proof -
  obtain n e where r: "registry A = setup_telemetry n e telemetry_module" using set_up by blast
  show ?thesis unfolding count_io_def r counter_setup
    using assms by (simp add: wp_simps book_def metric_law put_def tally_append tally_def fun_eq_iff)
qed

lemma wp_updown_book:
  assumes "\<And>w'. book view w' = put active_gauge k (book view w) \<Longrightarrow> Q () w'"
  shows "wp (updown_io A ''jobs_active'' k attrs) Q X w"
proof -
  obtain n e where r: "registry A = setup_telemetry n e telemetry_module" using set_up by blast
  show ?thesis unfolding updown_io_def r updown_setup
    using assms by (simp add: wp_simps book_def metric_law put_def tally_append tally_def fun_eq_iff)
qed

lemma wp_record_book:
  assumes "\<And>w'. book view w' = book view w \<Longrightarrow> Q () w'"
  shows "wp (record_io A name v attrs) Q X w"
  using assms by (simp add: record_io_def wp_simps book_def metric_law tally_append tally_def fun_eq_iff split: option.split)

lemma wp_commit_book:
  assumes "writable ws (rows (view w))"
    and "\<And>w'. book view w' = (row_writes ws (rows (view w)), tally (meters (view w))) \<Longrightarrow> Q () w'"
  shows "wp (db_commit A ws) Q X w"
  by (rule wp_commit_total [OF assms(1)]) (auto intro!: assms(2) simp: book_def committed_def)

lemma wp_retry_book:
  assumes "\<And>w'. book view w' = book view w \<Longrightarrow> Q () w'"
  shows "wp (enqueue_retry A jid t) Q X w"
proof -
  have "wp (record_elapsed A c t0) Q X w1" if "book view w1 = book view w" for c t0 w1
    unfolding record_elapsed_def wp_case_option wp_bind wp_return wp_do_io
    using that assms
    by (auto simp: book_def metric_law tally_append tally_def fun_eq_iff intro!: wp_perf split: option.split)
  then show ?thesis
    unfolding enqueue_retry_def timed_io_def wp_bind wp_return
    by (intro wp_perf wp_call_total [OF zadd_law redis_total(1)]) (simp add: book_def zset_put_def)
qed

subsection \<open>An execution\<close>

lemma account_failure:
  assumes g: "good_table (rows (view w))" and j: "rows (view w) i = Some j"
    and Q: "\<And>w'. accounted i 1 (book view w) (book view w') \<Longrightarrow> Q () w'"
  shows "wp (handle_failure A (str_uuid i) msg) Q X w"
  unfolding handle_failure_def wp_bind uuid_io_str wp_return
proof (rule wp_call_total [OF get_law query_total(1)])
  fix job w1
  assume "view w1 = view w \<and> job = rows (view w) i"
  then have "view w1 = view w" and job: "job = Some j" using j by simp_all
  note v = book_view [OF this(1)]
  note i = good_tableD(4) [OF g j]
  note writes = write_rows [where t = "rows (view w)" and i = i, OF j i]
  have commit: "wp (db_commit A ws) Q X w'"
    if b: "book view w' = (rows (view w), f)" and ws: "writable ws (rows (view w))"
        "row_writes ws (rows (view w)) = (rows (view w))(i \<mapsto> j')"
      and acc: "accounted i 1 (book view w) ((rows (view w))(i \<mapsto> j'), f)" for ws w' j' f
  proof -
    have r: "rows (view w') = rows (view w)" "tally (meters (view w')) = f" using b by (simp_all add: book_def)
    show ?thesis
    proof (rule wp_commit_book, unfold r ws(2))
      show "writable ws (rows (view w))" by (rule ws(1))
    next
      fix w2 assume "book view w2 = ((rows (view w))(i \<mapsto> j'), f)"
      then show "Q () w2" using acc Q by presburger
    qed
  qed
  show "wp (case job of None \<Rightarrow> return_io ()
     | Some j \<Rightarrow>
         if max_attempts j \<le> attempts j then
           bind_io (now_utc A) (\<lambda>t.
           seq_io (count_io A ''jobs_failed'' 1 [(''job_type'', job_type j), (''priority'', priority j),
                                                  (''failure_reason'', ''max_attempts_exhausted'')])
           (seq_io (updown_io A ''jobs_active'' (- 1) [(''job_type'', job_type j)])
           (db_commit A (fail_writes j msg t))))
         else
           bind_io (calculate_backoff_with_jitter A (attempts j) MAX_DELAY) (\<lambda>delay.
           bind_io (now_utc A) (\<lambda>t.
           bind_io (epoch_now A) (\<lambda>now.
           seq_io (enqueue_retry A (str_uuid i) (fl (now + delay)))
           (seq_io (count_io A ''jobs_retried'' 1 [(''job_type'', job_type j), (''priority'', priority j),
                                                    (''attempt_number'', str_int (attempts j))])
           (seq_io (record_io A ''retry_backoff'' delay [(''job_type'', job_type j), (''attempt_number'', str_int (attempts j))])
           (seq_io (updown_io A ''jobs_active'' (- 1) [(''job_type'', job_type j)])
           (db_commit A (retry_writes j msg t delay))))))))) Q X w1"
  proof (cases "max_attempts j \<le> attempts j")
    case True
    have "wp (db_commit A (fail_writes j msg t)) Q X w'"
      if "book view w' = put active_gauge (- 1) (put failed_total 1 (book view w))" for t w'
      by (rule commit [where j' = "failed_row j msg t" and f = "snd (put active_gauge (- 1) (put failed_total 1 (book view w)))"])
         (use that in \<open>auto simp: writes accounted_def outcome_tally_def failed_row_def prod_eq_iff\<close>)
    then show ?thesis
      unfolding job option.case if_P [OF True] wp_bind
      by (intro wp_now_book wp_count_book wp_updown_book) (simp_all add: counter_names_def v)
  next
    case False
    have "wp (db_commit A (retry_writes j msg t d)) Q X w'"
      if "book view w' = put active_gauge (- 1) (put retried_total 1 (book view w))" for t d w'
      by (rule commit [where j' = "retried_row j msg (t + timedelta_us d)"
            and f = "snd (put active_gauge (- 1) (put retried_total 1 (book view w)))"])
         (use that in \<open>auto simp: writes accounted_def outcome_tally_def retried_row_def prod_eq_iff\<close>)
    then show ?thesis
      unfolding job option.case if_not_P [OF False] wp_bind
      by (intro wp_backoff_book wp_now_book wp_time_book wp_retry_book wp_count_book wp_record_book wp_updown_book)
         (simp_all add: counter_names_def v)
  qed
qed

lemma account_complete:
  assumes g: "good_table (rows (view w))" and j: "rows (view w) i = Some j"
    and Q: "\<And>w'. accounted i 0 (book view w) (book view w') \<Longrightarrow> Q () w'"
  shows "wp (complete_job A (str_uuid i) c result) Q X w"
  unfolding complete_job_def wp_bind uuid_io_str wp_return
proof (rule wp_call_total [OF get_law query_total(1)])
  fix job w1
  assume "view w1 = view w \<and> job = rows (view w) i"
  then have v1: "view w1 = view w" and job: "job = Some j" using j by simp_all
  note writes = write_rows [where t = "rows (view w)" and i = i, OF j good_tableD(4) [OF g j]]
  show "wp (case job of None \<Rightarrow> return_io ()
     | Some j \<Rightarrow>
         if status j = status_value CANCELLED then updown_io A ''jobs_active'' (- 1) [(''job_type'', cj_type c)]
         else
           bind_io (now_utc A) (\<lambda>t.
           seq_io (db_commit A (complete_writes A j result t))
           (seq_io (count_io A ''jobs_completed'' 1 [(''job_type'', cj_type c), (''priority'', cj_priority c)])
           (seq_io (updown_io A ''jobs_active'' (- 1) [(''job_type'', cj_type c)])
           (count_io A ''worker_loop_iterations'' 1 [(''worker_id'', hostname A), (''outcome'', ''job_processed'')]))))) Q X w1"
  proof (cases "status j = status_value CANCELLED")
    case True
    have "accounted i 0 (book view w) (put active_gauge (- 1) (book view w))"
      using True j by (simp add: accounted_def outcome_tally_def)
    then show ?thesis
      unfolding job option.case if_P [OF True]
      by (intro wp_updown_book Q) (simp add: book_view [OF v1])
  next
    case False
    have "accounted i 0 (book view w) (put ''jobqueue_worker_loop_iterations_total'' 1 (put active_gauge (- 1)
        (put completed_total 1 ((rows (view w))(i \<mapsto> completed_row j result t), tally (meters (view w))))))" for t
      by (simp add: accounted_def outcome_tally_def completed_row_def)
    then show ?thesis
      unfolding job option.case if_not_P [OF False] wp_bind
      by (intro wp_now wp_commit_book wp_count_book wp_updown_book Q) (simp_all add: counter_names_def writes v1)
  qed
qed

lemma wp_execution_book:
  assumes "\<And>r w'. book view w' = book view w \<Longrightarrow> Q r w'" and "\<And>e w'. book view w' = book view w \<Longrightarrow> X e w'"
  shows "wp (wait_for A secs (execute A cls jid pl)) Q X w"
  by (rule wp_execution) (blast intro: assms dest: book_view)+

text \<open>Between its start and its end a job is counted once by the gauge.\<close>

lemma wp_run_job_book:
  assumes c: "get_executor (cj_type c) = Inr cls"
    and complete: "\<And>r w1 X. book view w1 = put active_gauge 1 (book view w) \<Longrightarrow> wp (complete_job A jid c r) Q X w1"
    and failure: "\<And>m w1. book view w1 = put failed_total 1 (put active_gauge 1 (book view w)) \<Longrightarrow> wp (handle_failure A jid m) Q X w1"
  shows "wp (run_job A jid c) Q X w"
proof -
  have f: "wp (on_failure A cls jid c t e) Q X w1" if "book view w1 = put active_gauge 1 (book view w)" for t e w1
    unfolding on_failure_def wp_if wp_bind
    using that by (auto intro!: wp_now_book wp_record_book wp_count_book failure simp: counter_names_def)
  show ?thesis
    unfolding run_job_def executor_io_def c sum.case wp_bind wp_return wp_try_except
    by (intro wp_record_book wp_updown_book wp_now_book wp_execution_book complete f) simp_all
qed

lemma account_run_job:
  assumes "good_table (rows (view w))" and "rows (view w) i = Some j" and "get_executor (cj_type c) = Inr cls"
    and Q: "\<And>w'. accounted i 0 (put active_gauge 1 (book view w)) (book view w') \<Longrightarrow> Q () w'"
  shows "wp (run_job A (str_uuid i) c) Q X w"
proof (rule wp_run_job_book [OF assms(3)])
  fix r w1 X'
  assume b: "book view w1 = put active_gauge 1 (book view w)"
  then have "rows (view w1) = rows (view w)" by (metis book_sel(1) put_sel(1))
  then show "wp (complete_job A (str_uuid i) c r) Q X' w1"
    using assms(1,2) b by (intro account_complete Q) simp_all
next
  fix m w1
  assume b: "book view w1 = put failed_total 1 (put active_gauge 1 (book view w))"
  then have "rows (view w1) = rows (view w)" by (metis book_sel(1) put_sel(1))
  moreover have "accounted i 1 (book view w1) b' \<Longrightarrow> accounted i 0 (put active_gauge 1 (book view w)) b'" for b'
    unfolding b accounted_def by simp
  ultimately show "wp (handle_failure A (str_uuid i) m) Q X w1"
    using assms(1,2) by (intro account_failure Q) simp_all
qed

text \<open>A row that has vanished: nothing takes the job off the gauge.\<close>

lemma vanished_run_job:
  assumes "rows (view w) i = None" and "get_executor (cj_type c) = Inr cls"
    and Q: "\<And>w'. snd (book view w') active_gauge = snd (book view w) active_gauge + 1 \<Longrightarrow> Q () w'"
  shows "wp (run_job A (str_uuid i) c) Q X w"
proof (rule wp_run_job_book [OF assms(2)])
  have q: "Q () w'" if "view w' = view w1" "snd (book view w1) active_gauge = snd (book view w) active_gauge + 1" for w' w1
    by (rule Q) (simp only: book_view [OF that(1)] that(2))
  fix r m w1 X'
  have get: "wp (db_get A i) (\<lambda>job. wp (case job of None \<Rightarrow> return_io () | Some j \<Rightarrow> k j) Q X') X' w1"
    if "rows (view w1) = rows (view w)" "snd (book view w1) active_gauge = snd (book view w) active_gauge + 1" for k X' w1
    by (rule wp_call_total [OF get_law query_total(1)]) (use that assms(1) q in \<open>auto simp: wp_return\<close>)
  { assume b: "book view w1 = put active_gauge 1 (book view w)"
    then have "rows (view w1) = rows (view w)" "snd (book view w1) active_gauge = snd (book view w) active_gauge + 1"
      by (metis book_sel(1) put_sel(1), simp)
    then show "wp (complete_job A (str_uuid i) c r) Q X' w1"
      unfolding complete_job_def wp_bind uuid_io_str wp_return by (rule get) }
  { assume b: "book view w1 = put failed_total 1 (put active_gauge 1 (book view w))"
    then have "rows (view w1) = rows (view w)" "snd (book view w1) active_gauge = snd (book view w) active_gauge + 1"
      by (metis book_sel(1) put_sel(1), simp)
    then show "wp (handle_failure A (str_uuid i) m) Q X w1"
      unfolding handle_failure_def wp_bind uuid_io_str wp_return by (rule get) }
qed

text \<open>A type without an executor: the same, and the coroutine raises.\<close>

lemma typeless_run_job:
  assumes "get_executor (cj_type c) = Inl x"
    and X: "\<And>w'. snd (book view w') active_gauge = snd (book view w) active_gauge + 1 \<Longrightarrow> X x w'"
  shows "wp (run_job A jid c) Q X w"
  unfolding run_job_def executor_io_def assms(1) sum.case wp_bind wp_raise
  by (intro wp_record_book wp_updown_book X) simp

end

interpretation mem_metered: metered_services "mem_app False" mem_view
proof unfold_locales
  show "\<exists>n e. registry (mem_app False) = setup_telemetry n e telemetry_module"
    by (intro exI [of _ "''job-queue''"] exI [of _ None]) (simp add: mem_app_def)
qed

lemma metered_servicesI:
  "reliable_services A view \<Longrightarrow> registry A = setup_telemetry n e telemetry_module \<Longrightarrow> metered_services A view"
  by (auto intro!: metered_services.intro metered_services_axioms.intro)

subsection \<open>Properties\<close>

definition gain :: "('w \<Rightarrow> store) \<Rightarrow> 'w \<Rightarrow> 'w \<Rightarrow> string \<Rightarrow> int" where
  "gain view w w' n = tally (meters (view w')) n - tally (meters (view w)) n"

text \<open>What the worker has in hand of a row it has started.\<close>

definition claim_of :: "job \<Rightarrow> claimed_job" where
  "claim_of j = \<lparr>cj_type = job_type j, cj_payload = payload j, cj_priority = priority j, cj_created_at = created_at j,
     cj_started_at = (case started_at j of None \<Rightarrow> 0 | Some t \<Rightarrow> t)\<rparr>"

text \<open>
  C24: The metrics of an execution. When services do not fail, running a job whose row is in
  the table leaves the gauge of running jobs where it was, and the counters agree with the row:
  a completion adds one to the completed jobs, a retry one to the failures and one to the
  retries, a job that has used its attempts adds two to the failures, one for the attempt and
  one for the job, and a job cancelled meanwhile whose result is discarded adds nothing.
\<close>
theorem execution_metrics:
  assumes "reliable_services A view" and "registry A = setup_telemetry n e telemetry_module"
    and "good_table (rows (view w))" and "rows (view w) i = Some j" and "get_executor (cj_type c) = Inr cls"
  shows "wp (run_job A (str_uuid i) c)
     (\<lambda>_ w'. gain view w w' ''jobqueue_jobs_active'' = 0 \<and>
       (\<exists>j'. rows (view w') i = Some j' \<and>
         (gain view w w' ''jobqueue_jobs_completed_total'', gain view w w' ''jobqueue_jobs_failed_total'',
          gain view w w' ''jobqueue_jobs_retried_total'') = outcome_tally (status j')))
     (\<lambda>_ _. False) w"
  by (rule metered_services.account_run_job [OF metered_servicesI [OF assms(1,2)] assms(3-5)])
     (simp add: accounted_def gain_def)

theorem execution_metrics_witness:
  "wp (run_job (mem_app False) (str_uuid 7) (claim_of (running_row 3)))
     (\<lambda>_ w'. gain mem_view (row_mem (running_row 3)) w' ''jobqueue_jobs_active'' = 0 \<and>
       (\<exists>j'. rows (mem_view w') 7 = Some j' \<and>
         (gain mem_view (row_mem (running_row 3)) w' ''jobqueue_jobs_completed_total'',
          gain mem_view (row_mem (running_row 3)) w' ''jobqueue_jobs_failed_total'',
          gain mem_view (row_mem (running_row 3)) w' ''jobqueue_jobs_retried_total'') = outcome_tally (status j')))
     (\<lambda>_ _. False) (row_mem (running_row 3))"
proof (rule execution_metrics [OF mem_reliable_services _ row_mem_good])
  show "registry (mem_app False) = setup_telemetry ''job-queue'' None telemetry_module" by (simp add: mem_app_def)
  show "good_row (running_row 3)" "job_id (running_row 3) = 7" by (simp_all add: running_row_good)
  show "rows (mem_view (row_mem (running_row 3))) 7 = Some (running_row 3)" by (simp add: row_mem_def)
  show "get_executor (cj_type (claim_of (running_row 3))) = Inr EmailExecutor"
    by (simp add: claim_of_def running_row_def sample_row_good get_executor_def EXECUTOR_REGISTRY_def)
qed

text \<open>
  Where the gauge leaks. A worker that finds no row for the job it has executed, or no
  executor for its type, leaves the gauge of running jobs one too high for the rest of the
  process.
\<close>
lemma active_gauge_leaks:
  assumes "reliable_services A view" and "registry A = setup_telemetry n e telemetry_module"
    and "rows (view w) i = None \<or> (\<exists>x. get_executor (cj_type c) = Inl x)"
  shows "wp (run_job A (str_uuid i) c) (\<lambda>_ w'. gain view w w' ''jobqueue_jobs_active'' = 1)
     (\<lambda>_ w'. gain view w w' ''jobqueue_jobs_active'' = 1) w"
  using assms(3)
proof (elim disjE exE)
  note m = metered_servicesI [OF assms(1,2)]
  show ?thesis if "get_executor (cj_type c) = Inl x" for x
    by (rule metered_services.typeless_run_job [OF m that]) (simp add: gain_def)
  assume none: "rows (view w) i = None"
  show ?thesis
  proof (cases "get_executor (cj_type c)")
    case (Inl x)
    show ?thesis by (rule metered_services.typeless_run_job [OF m Inl]) (simp add: gain_def)
  next
    case (Inr cls)
    show ?thesis by (rule metered_services.vanished_run_job [OF m none Inr]) (simp add: gain_def)
  qed
qed

end
