(* ===== verification/Interleave.thy ===== *)
theory Interleave
  imports Job_Queue
begin

section \<open>Several workers drain the retry queue at once\<close>

text \<open>
  Between two \<open>await\<close>s of a coroutine, and between two commands of one process, other
  processes run. A \<open>thread\<close> is a coroutine cut at its commands: finished, or waiting to
  send the next one. \<open>run\<close> executes a thread alone and gives back the coroutine
  (\<open>run_drain\<close>: the thread of \<open>drain_retry_queue\<close> is the model of Job_Queue, cut, not
  another one). \<open>par_step\<close> lets any thread send its next command. The result is why the code
  looks at the answer of \<open>ZREM\<close>: whatever the interleaving, no two workers claim the same
  retry and none is lost between them.
\<close>

subsection \<open>Threads\<close>

datatype ('w, 'a) thread =
    Finished "exn + 'a"
  | Await "'w \<Rightarrow> ('w, 'a) thread \<times> 'w"

primrec run :: "('w, 'a) thread \<Rightarrow> ('w, 'a) io" where
  "run (Finished r) = (\<lambda>w. (r, w))"
| "run (Await f) = (\<lambda>w. case map_prod run id (f w) of (g, w') \<Rightarrow> g w')"

primrec bind_thread :: "('w, 'a) thread \<Rightarrow> ('a \<Rightarrow> ('w, 'b) thread) \<Rightarrow> ('w, 'b) thread" where
  "bind_thread (Finished r) k = (case r of Inl e \<Rightarrow> Finished (Inl e) | Inr a \<Rightarrow> k a)"
| "bind_thread (Await f) k = Await (\<lambda>w. map_prod (\<lambda>t. bind_thread t k) id (f w))"

definition return_thread :: "'a \<Rightarrow> ('w, 'a) thread" where
  "return_thread a = Finished (Inr a)"

text \<open>One command, sent in one go.\<close>

definition atomic :: "('w, 'a) io \<Rightarrow> ('w, 'a) thread" where
  "atomic m = Await (\<lambda>w. map_prod Finished id (m w))"

lemma run_atomic [simp]: "run (atomic m) = m"
  by (simp add: atomic_def fun_eq_iff map_prod_def case_prod_beta)

lemma run_return [simp]: "run (return_thread a) = return_io a"
  by (simp add: return_thread_def fun_eq_iff return_io_def)

lemma run_bind [simp]: "run (bind_thread m k) = bind_io (run m) (\<lambda>a. run (k a))"
proof (induction m)
  case (Finished r)
  then show ?case by (simp add: fun_eq_iff bind_io_def split: sum.split)
next
  case (Await f)
  show ?case
  proof
    fix w
    obtain t w' where f: "f w = (t, w')" by (cases "f w")
    then have "run (bind_thread t k) = bind_io (run t) (\<lambda>a. run (k a))"
      using Await [of "(t, w')" t] by (metis fsts.intros fst_conv rangeI)
    then show "run (bind_thread (Await f) k) w = bind_io (run (Await f)) (\<lambda>a. run (k a)) w"
      by (simp add: f bind_io_def)
  qed
qed

lemma bind_thread_assoc: "bind_thread (bind_thread m f) g = bind_thread m (\<lambda>a. bind_thread (f a) g)"
proof (induction m)
  case (Finished r)
  then show ?case by (simp split: sum.split)
next
  case (Await h)
  show ?case
  proof (simp add: fun_eq_iff, intro allI)
    fix w
    obtain t w' where h: "h w = (t, w')" by (cases "h w")
    then have "bind_thread (bind_thread t f) g = bind_thread t (\<lambda>a. bind_thread (f a) g)"
      using Await [of "(t, w')" t] by (metis fsts.intros fst_conv rangeI)
    then show "map_prod (\<lambda>t. bind_thread t g) id (map_prod (\<lambda>t. bind_thread t f) id (h w)) =
        map_prod (\<lambda>t. bind_thread t (\<lambda>a. bind_thread (f a) g)) id (h w)"
      by (simp add: h)
  qed
qed

lemma bind_return_thread [simp]: "bind_thread (return_thread a) k = k a"
  by (simp add: return_thread_def)

subsection \<open>Any number of threads\<close>

inductive par_step :: "('w, 'a) thread list \<times> 'w \<Rightarrow> ('w, 'a) thread list \<times> 'w \<Rightarrow> bool" where
  "k < length ts \<Longrightarrow> ts ! k = Await f \<Longrightarrow> f w = (t, w') \<Longrightarrow> par_step (ts, w) (ts[k := t], w')"

inductive_cases par_stepE: "par_step (ts, w) c"

text \<open>Every run ends: each command leaves a smaller thread.\<close>

definition rest_of :: "(('w, 'a) thread \<times> ('w, 'a) thread) set" where
  "rest_of = {(t, s). \<exists>f w w'. s = Await f \<and> f w = (t, w')}"

lemma wf_rest_of: "wf rest_of"
proof (rule wfUNIVI)
  fix P :: "('a, 'b) thread \<Rightarrow> bool" and t
  assume step: "\<forall>t. (\<forall>s. (s, t) \<in> rest_of \<longrightarrow> P s) \<longrightarrow> P t"
  show "P t"
  proof (induction t)
    case (Finished r)
    show ?case by (rule step [rule_format]) (simp add: rest_of_def)
  next
    case (Await f)
    show ?case
    proof (rule step [rule_format])
      fix s assume "(s, Await f) \<in> rest_of"
      then obtain w w' where "f w = (s, w')" by (auto simp: rest_of_def)
      then show "P s" using Await [of "(s, w')" s] by (metis fsts.intros fst_conv rangeI)
    qed
  qed
qed

lemma par_step_smaller:
  assumes "par_step c c'" shows "(mset (fst c'), mset (fst c)) \<in> mult1 rest_of"
  using assms
proof (induction rule: par_step.induct)
  case (1 k ts f w t w')
  obtain M where M: "mset ts = add_mset (Await f) M" using 1 by (metis insert_DiffM nth_mem_mset)
  then have "mset (ts[k := t]) = M + {#t#}" using 1 by (simp add: mset_update)
  moreover have "(t, Await f) \<in> rest_of" using 1 by (auto simp: rest_of_def)
  ultimately have "\<exists>a M0 K. mset ts = add_mset a M0 \<and> mset (ts[k := t]) = M0 + K \<and> (\<forall>b. b \<in># K \<longrightarrow> (b, a) \<in> rest_of)"
    using M by (intro exI [of _ "Await f"] exI [of _ M] exI [of _ "{#t#}"]) simp
  then show ?case by (simp add: mult1_def)
qed

lemma runs_end: "\<not> (\<exists>c. c 0 = c0 \<and> (\<forall>n. par_step (c n) (c (Suc n))))"
proof
  assume "\<exists>c. c 0 = c0 \<and> (\<forall>n. par_step (c n) (c (Suc n)))"
  then obtain c where "c 0 = c0" and c: "\<And>n. par_step (c n) (c (Suc n))" by blast
  have "(mset (fst (c (Suc n))), mset (fst (c n))) \<in> mult rest_of" for n
    unfolding mult_def by (intro r_into_trancl par_step_smaller c)
  moreover have "\<not> (\<exists>f. \<forall>n. (f (Suc n), f n) \<in> mult rest_of)"
    using wf_mult [OF wf_rest_of] unfolding wf_iff_no_infinite_down_chain .
  ultimately show False by (auto dest: spec [of _ "\<lambda>n. mset (fst (c n))"])
qed

lemma par_step_length: "par_step c c' \<Longrightarrow> length (fst c') = length (fst c)"
  by (induction rule: par_step.induct) simp

lemma par_steps_length: "par_step\<^sup>*\<^sup>* c c' \<Longrightarrow> length (fst c') = length (fst c)"
  by (induction rule: rtranclp_induct) (simp_all add: par_step_length)

text \<open>A run has ended when no thread waits.\<close>

lemma no_step_finished:
  assumes "\<not> (\<exists>c. par_step (ts, w) c)" and "k < length ts"
  shows "\<exists>r. ts ! k = Finished r"
proof (cases "ts ! k")
  case (Await f)
  then have "par_step (ts, w) (ts[k := fst (f w)], snd (f w))" by (intro par_step.intros [OF assms(2)]) simp_all
  then show ?thesis using assms(1) by blast
qed simp

subsection \<open>The thread of drain_retry_queue\<close>

definition timed_thread :: "'w app \<Rightarrow> string \<Rightarrow> ('w, 'a) io \<Rightarrow> ('w, 'a) thread" where
  "timed_thread A command m =
     bind_thread (atomic (read_io (clock_perf A))) (\<lambda>t.
     bind_thread (atomic m) (\<lambda>result.
     bind_thread (atomic (record_elapsed A command t)) (\<lambda>_.
     return_thread result)))"

primrec claim_thread :: "'w app \<Rightarrow> string list \<Rightarrow> ('w, string list) thread" where
  "claim_thread A [] = return_thread []"
| "claim_thread A (m # ms) =
     bind_thread (atomic (zrem A RETRY_KEY m)) (\<lambda>removed.
     bind_thread (claim_thread A ms) (\<lambda>ys. return_thread (if removed \<noteq> 0 then m # ys else ys)))"

definition drain_thread :: "'w app \<Rightarrow> nat \<Rightarrow> ('w, string list) thread" where
  "drain_thread A limit =
     bind_thread (atomic (epoch_now A)) (\<lambda>now.
     bind_thread (timed_thread A ''zrangebyscore'' (zrangebyscore A RETRY_KEY now 0 limit)) (\<lambda>due.
     bind_thread (claim_thread A due) (\<lambda>claimed.
     bind_thread (atomic (if claimed \<noteq> [] then count_io A ''retry_drain'' (length claimed) [] else return_io ())) (\<lambda>_.
     return_thread claimed))))"

lemma run_claim:
  "run (claim_thread A ms) = filter_each (\<lambda>jid. bind_io (zrem A RETRY_KEY jid) (\<lambda>removed. return_io (removed \<noteq> 0))) ms"
  by (induction ms) (simp_all add: bind_io_assoc bind_io_return)

lemma run_drain: "run (drain_thread A limit) = drain_retry_queue A limit"
  by (simp add: drain_thread_def drain_retry_queue_def timed_thread_def timed_io_def run_claim bind_io_assoc)

text \<open>A command that leaves the queues and the tables alone.\<close>

definition leaves_data :: "('w \<Rightarrow> store) \<Rightarrow> ('w, 'a) io \<Rightarrow> bool" where
  "leaves_data view m \<longleftrightarrow> (\<forall>w. wp m (\<lambda>_ w'. data (view w') = data (view w)) (\<lambda>_ _. False) w)"

subsection \<open>What a draining thread has claimed\<close>

text \<open>
  A thread that has claimed the identifiers \<open>C\<close> so far: it ends with exactly \<open>C\<close>, or each of
  its next commands leaves the retry queue alone, or takes out one more member and claims it.
\<close>

inductive claims :: "('w \<Rightarrow> store) \<Rightarrow> ('w, string list) thread \<Rightarrow> string list \<Rightarrow> bool" for view where
  ended: "claims view (Finished (Inr C)) C"
| next_command: "(\<And>w. zsets (view (snd (f w))) RETRY_KEY = zsets (view w) RETRY_KEY \<and> claims view (fst (f w)) C \<or>
      (\<exists>m. m \<in> dom (zsets (view w) RETRY_KEY) \<and>
           zsets (view (snd (f w))) RETRY_KEY = (zsets (view w) RETRY_KEY)(m := None) \<and>
           claims view (fst (f w)) (C @ [m]))) \<Longrightarrow> claims view (Await f) C"

inductive_cases claims_awaitE: "claims view (Await f) C"
inductive_cases claims_finishedE: "claims view (Finished r) C"

lemma claims_atomic:
  assumes "\<And>w. wp m (\<lambda>a w'. zsets (view w') RETRY_KEY = zsets (view w) RETRY_KEY \<and> claims view (k a) C \<or>
      (\<exists>x. x \<in> dom (zsets (view w) RETRY_KEY) \<and>
           zsets (view w') RETRY_KEY = (zsets (view w) RETRY_KEY)(x := None) \<and> claims view (k a) (C @ [x])))
      (\<lambda>_ _. False) w"
  shows "claims view (bind_thread (atomic m) k) C"
  unfolding atomic_def bind_thread.simps
proof (rule next_command)
  fix w
  obtain a w' where "m w = (Inr a, w')" and
    "zsets (view w') RETRY_KEY = zsets (view w) RETRY_KEY \<and> claims view (k a) C \<or>
      (\<exists>x. x \<in> dom (zsets (view w) RETRY_KEY) \<and>
           zsets (view w') RETRY_KEY = (zsets (view w) RETRY_KEY)(x := None) \<and> claims view (k a) (C @ [x]))"
    using wp_obtain [OF assms [of w]] by blast
  then show "zsets (view (snd (map_prod (\<lambda>t. bind_thread t k) id (map_prod Finished id (m w))))) RETRY_KEY =
        zsets (view w) RETRY_KEY \<and>
      claims view (fst (map_prod (\<lambda>t. bind_thread t k) id (map_prod Finished id (m w)))) C \<or>
      (\<exists>x. x \<in> dom (zsets (view w) RETRY_KEY) \<and>
        zsets (view (snd (map_prod (\<lambda>t. bind_thread t k) id (map_prod Finished id (m w))))) RETRY_KEY =
          (zsets (view w) RETRY_KEY)(x := None) \<and>
        claims view (fst (map_prod (\<lambda>t. bind_thread t k) id (map_prod Finished id (m w)))) (C @ [x]))"
    by simp
qed

lemma claims_quiet:
  assumes "leaves_data view m" and "\<And>a. claims view (k a) C"
  shows "claims view (bind_thread (atomic m) k) C"
  by (rule claims_atomic, rule wp_mono [OF assms(1) [unfolded leaves_data_def, rule_format]])
     (auto dest: data_eqD(1) intro: assms(2))

context reliable_services
begin

lemma quiet_commands:
  "leaves_data view (count_io A n i ats)" "leaves_data view (if b then count_io A n i ats else return_io ())"
  "leaves_data view (record_elapsed A c t)" "leaves_data view (read_io (clock_perf A))" "leaves_data view (epoch_now A)"
  "leaves_data view (now_utc A)" "leaves_data view (priority_score A p)"
  unfolding leaves_data_def
  by (auto simp: wp_return intro!: wp_count wp_elapsed wp_perf wp_time wp_now wp_priority_score)

lemma quiet_range: "leaves_data view (zrangebyscore A k now start num)"
  unfolding leaves_data_def by (intro allI, rule wp_call_total [OF zrangebyscore_law redis_total(3)]) (simp add: zranged_def)

lemma claims_claim:
  assumes "\<And>ys. claims view (K ys) (C @ ys)"
  shows "claims view (bind_thread (claim_thread A ms) K) C"
  using assms
proof (induction ms arbitrary: C K)
  case Nil
  then show ?case using Nil [of "[]"] by simp
next
  case (Cons m ms)
  show ?case
    unfolding claim_thread.simps bind_thread_assoc bind_return_thread
  proof (rule claims_atomic, rule wp_call_total [OF zrem_law redis_total(4)])
    fix w removed w'
    assume z: "zremoved RETRY_KEY m (view w) removed (view w')"
    have skip: "claims view (bind_thread (claim_thread A ms) (\<lambda>ys. K ys)) C"
      by (rule Cons.IH) (rule Cons.prems)
    have take: "claims view (bind_thread (claim_thread A ms) (\<lambda>ys. K (m # ys))) (C @ [m])"
      by (rule Cons.IH) (use Cons.prems [of "m # ys" for ys] in simp)
    have "(zsets (view w) RETRY_KEY)(m := None) = zsets (view w) RETRY_KEY" if "m \<notin> dom (zsets (view w) RETRY_KEY)"
      using that by (auto simp: domIff fun_eq_iff)
    then show "zsets (view w') RETRY_KEY = zsets (view w) RETRY_KEY \<and>
        claims view (bind_thread (claim_thread A ms) (\<lambda>ys. K (if removed \<noteq> 0 then m # ys else ys))) C \<or>
        (\<exists>x. x \<in> dom (zsets (view w) RETRY_KEY) \<and>
          zsets (view w') RETRY_KEY = (zsets (view w) RETRY_KEY)(x := None) \<and>
          claims view (bind_thread (claim_thread A ms) (\<lambda>ys. K (if removed \<noteq> 0 then m # ys else ys))) (C @ [x]))"
      using z skip take by (cases "m \<in> dom (zsets (view w) RETRY_KEY)") (auto simp: zremoved_def)
  qed
qed

lemma claims_drain: "claims view (drain_thread A limit) []"
proof -
  have fin: "claims view (bind_thread (atomic (if ys \<noteq> [] then count_io A ''retry_drain'' (length ys) [] else return_io ()))
      (\<lambda>_. return_thread ys)) ([] @ ys)" for ys
    by (rule claims_quiet [OF quiet_commands(2)]) (simp add: return_thread_def ended)
  show ?thesis
    unfolding drain_thread_def timed_thread_def bind_thread_assoc bind_return_thread
    by (rule claims_quiet [OF quiet_commands(5)], rule claims_quiet [OF quiet_commands(4)],
        rule claims_quiet [OF quiet_range], rule claims_quiet [OF quiet_commands(3)], rule claims_claim, rule fin)
qed

end

text \<open>Each thread has claimed its part; the parts and what is left in the queue share nothing and lose nothing.\<close>

definition split_up :: "('w \<Rightarrow> store) \<Rightarrow> string set \<Rightarrow> ('w, string list) thread list \<times> 'w \<Rightarrow> string list list \<Rightarrow> bool" where
  "split_up view D c Cs \<longleftrightarrow>
     list_all2 (claims view) (fst c) Cs \<and> distinct (concat Cs) \<and>
     set (concat Cs) \<inter> dom (zsets (view (snd c)) RETRY_KEY) = {} \<and>
     set (concat Cs) \<union> dom (zsets (view (snd c)) RETRY_KEY) = D"

lemma mset_concat_add:
  assumes "k < length Cs"
  shows "mset (concat (Cs[k := Cs ! k @ [m]])) = add_mset m (mset (concat Cs))"
proof -
  have "Cs = take k Cs @ Cs ! k # drop (Suc k) Cs" using assms by (simp add: id_take_nth_drop)
  then have "mset (concat Cs) = mset (concat (take k Cs)) + mset (Cs ! k) + mset (concat (drop (Suc k) Cs))"
    by (metis concat.simps(2) concat_append mset_append add.assoc)
  moreover have "mset (concat (Cs[k := Cs ! k @ [m]])) =
      mset (concat (take k Cs)) + mset (Cs ! k @ [m]) + mset (concat (drop (Suc k) Cs))"
    using assms by (simp add: upd_conv_take_nth_drop)
  ultimately show ?thesis by simp
qed

lemma split_up_step:
  assumes "par_step c c'" and "split_up view D c Cs"
  shows "\<exists>Cs'. split_up view D c' Cs'"
  using assms
proof (induction rule: par_step.induct)
  case (1 k ts f w t w')
  have s: "list_all2 (claims view) ts Cs" "distinct (concat Cs)"
    "set (concat Cs) \<inter> dom (zsets (view w) RETRY_KEY) = {}" "set (concat Cs) \<union> dom (zsets (view w) RETRY_KEY) = D"
    using 1(4) by (simp_all add: split_up_def)
  have k: "k < length Cs" using s(1) 1(1) by (simp add: list_all2_lengthD)
  have "claims view (Await f) (Cs ! k)" using list_all2_nthD [OF s(1) 1(1)] 1(2) by simp
  then have "zsets (view w') RETRY_KEY = zsets (view w) RETRY_KEY \<and> claims view t (Cs ! k) \<or>
      (\<exists>m. m \<in> dom (zsets (view w) RETRY_KEY) \<and> zsets (view w') RETRY_KEY = (zsets (view w) RETRY_KEY)(m := None) \<and>
           claims view t (Cs ! k @ [m]))"
    using 1(3) by (elim claims_awaitE) (metis fst_conv snd_conv)
  then show ?case
  proof (elim disjE exE conjE)
    assume z: "zsets (view w') RETRY_KEY = zsets (view w) RETRY_KEY" and t: "claims view t (Cs ! k)"
    have "list_all2 (claims view) (ts[k := t]) (Cs[k := Cs ! k])" using s(1) t by (intro list_all2_update_cong) simp_all
    then show ?thesis using s z by (intro exI [of _ Cs]) (simp add: split_up_def)
  next
    fix m
    assume m: "m \<in> dom (zsets (view w) RETRY_KEY)" and z: "zsets (view w') RETRY_KEY = (zsets (view w) RETRY_KEY)(m := None)"
      and t: "claims view t (Cs ! k @ [m])"
    let ?C = "Cs[k := Cs ! k @ [m]]"
    note ms = mset_concat_add [OF k, of m]
    have "m \<notin> set (concat Cs)" using s(3) m by blast
    then have "distinct (m # concat Cs)" using s(2) by simp
    then have d: "distinct (concat ?C)" using mset_eq_imp_distinct_iff [of "concat ?C" "m # concat Cs"] ms by simp
    have e: "set (concat ?C) = insert m (set (concat Cs))"
      using arg_cong [OF ms, of set_mset] by simp
    have dom: "dom (zsets (view w') RETRY_KEY) = dom (zsets (view w) RETRY_KEY) - {m}" by (auto simp: z)
    have "list_all2 (claims view) (ts[k := t]) ?C" using s(1) t by (intro list_all2_update_cong)
    moreover have "set (concat ?C) \<inter> dom (zsets (view w') RETRY_KEY) = {}" using s(3) unfolding e dom by blast
    moreover have "set (concat ?C) \<union> dom (zsets (view w') RETRY_KEY) = D" using s(4) m unfolding e dom by blast
    ultimately show ?thesis using d unfolding split_up_def by auto
  qed
qed

lemma split_up_steps: "par_step\<^sup>*\<^sup>* c c' \<Longrightarrow> split_up view D c Cs \<Longrightarrow> \<exists>Cs'. split_up view D c' Cs'"
  by (induction rule: rtranclp_induct) (auto dest: split_up_step)

text \<open>A schedule says which thread sends its next command; a thread that has finished passes.\<close>

fun schedule :: "nat list \<Rightarrow> ('w, 'a) thread list \<times> 'w \<Rightarrow> ('w, 'a) thread list \<times> 'w" where
  "schedule [] c = c"
| "schedule (k # ks) (ts, w) =
     (if k < length ts then
        (case ts ! k of
           Finished r \<Rightarrow> schedule ks (ts, w)
         | Await f \<Rightarrow> (case f w of (t, w') \<Rightarrow> schedule ks (ts[k := t], w')))
      else schedule ks (ts, w))"

lemma schedule_steps: "par_step\<^sup>*\<^sup>* c (schedule ks c)"
proof (induction ks c rule: schedule.induct)
  case (2 k ks ts w)
  show ?case
  proof (cases "k < length ts \<and> (\<exists>f. ts ! k = Await f)")
    case True
    then obtain f t w' where f: "k < length ts" "ts ! k = Await f" "f w = (t, w')" by (metis prod.exhaust)
    have "par_step\<^sup>*\<^sup>* (ts[k := t], w') (schedule ks (ts[k := t], w'))" using 2(2) f by simp
    with par_step.intros [OF f] show ?thesis using f by (simp add: converse_rtranclp_into_rtranclp)
  next
    case False
    then show ?thesis using 2(1,3) by (cases "ts ! k") auto
  qed
qed simp

text \<open>
  A retry is claimed once. Let any number of workers drain the retry queue at the same
  time, their commands interleaved in any way, with services that do not fail: every run
  ends, with all of them returned; no identifier is in two of their results or twice in one,
  and together the results are exactly the members that have left the queue.
\<close>
lemma concurrent_drains:
  assumes "reliable_services A view"
  shows "run (drain_thread A limit) = drain_retry_queue A limit \<and>
     \<not> (\<exists>c. c 0 = (replicate n (drain_thread A limit), w) \<and> (\<forall>i. par_step (c i) (c (Suc i)))) \<and>
     (\<forall>ts w'. par_step\<^sup>*\<^sup>* (replicate n (drain_thread A limit), w) (ts, w') \<and> \<not> (\<exists>c. par_step (ts, w') c) \<longrightarrow>
        (\<exists>Cs. ts = map (\<lambda>C. Finished (Inr C)) Cs \<and> length Cs = n \<and> distinct (concat Cs) \<and>
              set (concat Cs) = dom (zsets (view w) RETRY_KEY) - dom (zsets (view w') RETRY_KEY)))"
proof (intro conjI allI impI, goal_cases)
  case 1
  show ?case by (rule run_drain)
next
  case 2
  show ?case by (rule runs_end)
next
  case (3 ts w')
  have "list_all2 (claims view) (replicate n (drain_thread A limit)) (replicate n [])"
    using reliable_services.claims_drain [OF assms] by (simp add: list_all2_conv_all_nth)
  then have "split_up view (dom (zsets (view w) RETRY_KEY)) (replicate n (drain_thread A limit), w) (replicate n [])"
    by (simp add: split_up_def)
  from split_up_steps [OF 3 [THEN conjunct1] this] obtain Cs where
    s: "split_up view (dom (zsets (view w) RETRY_KEY)) (ts, w') Cs" by blast
  then have l: "list_all2 (claims view) ts Cs" by (simp add: split_up_def)
  have len: "length ts = n" using par_steps_length [OF 3 [THEN conjunct1]] by simp
  have "ts ! i = Finished (Inr (Cs ! i))" if "i < length ts" for i
    using no_step_finished [OF 3 [THEN conjunct2] that] list_all2_nthD [OF l that] by (auto elim: claims_finishedE)
  then have "ts = map (\<lambda>C. Finished (Inr C)) Cs" using list_all2_lengthD [OF l] by (auto intro!: nth_equalityI)
  then show ?case using s len by (intro exI [of _ Cs]) (auto simp: split_up_def)
qed

text \<open>Two workers, one retry, their commands alternating.\<close>

definition one_retry :: mem where
  "one_retry = mem_init\<lparr>m_zsets := (m_zsets mem_init)(RETRY_KEY := [(''a'', 0)])\<rparr>"

lemma alternating_drains:
  "\<exists>w'. schedule [0, 1, 0, 1, 0, 1, 0, 1, 0, 1, 0, 1] (replicate 2 (drain_thread (mem_app False) 10), one_retry) =
     (map (\<lambda>C. Finished (Inr C)) [[''a''], []], w') \<and> m_zsets w' RETRY_KEY = []"
  by (simp add: drain_thread_def timed_thread_def atomic_def return_thread_def one_retry_def numeral_2_eq_2
      read_io_def mem_app_def mem_cmd_def mem_zrem_def mem_zdel_def record_elapsed_def histogram_setup histogram_names_def
      count_io_def counter_setup counter_names_def bind_io_def return_io_def do_io_def mem_time_def mem_zrangebyscore_def
      zsorted_def mem_init_def)

end
