(* ===== verification/Rely_Guarantee.thy ===== *)
theory Rely_Guarantee
  imports Interleave
begin

section \<open>Reasoning about interleaved coroutines\<close>

text \<open>
  A rely-guarantee logic for the threads of Interleave. The state is what \<open>view\<close> observes,
  with a ghost component that commands of the proof's choice may change. \<open>sat view R G Q P t\<close>
  says: started where \<open>P\<close> holds, with every step of the others in the rely \<open>R\<close>, each command of
  \<open>t\<close> is in the guarantee \<open>G\<close>, and when \<open>t\<close> ends with outcome \<open>r\<close>, a return or an
  exception, then \<open>Q r\<close> holds. \<open>team_run\<close> is the rule for threads side by side.
\<close>

subsection \<open>Exceptions in a thread\<close>

primrec try_thread :: "('w, 'a) thread \<Rightarrow> (exn \<Rightarrow> ('w, 'a) thread) \<Rightarrow> ('w, 'a) thread" where
  "try_thread (Finished r) h = (case r of Inl e \<Rightarrow> h e | Inr a \<Rightarrow> Finished (Inr a))"
| "try_thread (Await f) h = Await (\<lambda>w. map_prod (\<lambda>t. try_thread t h) id (f w))"

lemma run_try [simp]: "run (try_thread m h) = try_except (run m) (\<lambda>e. run (h e))"
proof (induction m)
  case (Finished r)
  then show ?case by (simp add: fun_eq_iff try_except_def split: sum.split)
next
  case (Await f)
  show ?case
  proof
    fix w
    obtain t w' where f: "f w = (t, w')" by (cases "f w")
    then have "run (try_thread t h) = try_except (run t) (\<lambda>e. run (h e))"
      using Await [of "(t, w')" t] by (metis fsts.intros fst_conv rangeI)
    then show "run (try_thread (Await f) h) w = try_except (run (Await f)) (\<lambda>e. run (h e)) w"
      by (simp add: f try_except_def)
  qed
qed

definition raise_thread :: "exn \<Rightarrow> ('w, 'a) thread" where
  "raise_thread e = Finished (Inl e)"

lemma run_raise [simp]: "run (raise_thread e) = raise_io e"
  by (simp add: raise_thread_def fun_eq_iff raise_io_def)

subsection \<open>The logic\<close>

definition withstands :: "('s \<Rightarrow> bool) \<Rightarrow> ('s \<Rightarrow> 's \<Rightarrow> bool) \<Rightarrow> bool" where
  "withstands P R \<longleftrightarrow> (\<forall>s s'. P s \<longrightarrow> R s s' \<longrightarrow> P s')"

lemma withstandsD: "withstands P R \<Longrightarrow> P s \<Longrightarrow> R s s' \<Longrightarrow> P s'"
  by (simp add: withstands_def)

lemma withstands_and: "withstands P R \<Longrightarrow> withstands (\<lambda>s. F \<and> P s) R"
  by (auto simp: withstands_def)

lemma withstands_ex: "(\<And>x. withstands (P x) R) \<Longrightarrow> withstands (\<lambda>s. \<exists>x. P x s) R"
  by (auto simp: withstands_def)

lemma withstands_or: "withstands P R \<Longrightarrow> withstands P' R \<Longrightarrow> withstands (\<lambda>s. P s \<or> P' s) R"
  by (auto simp: withstands_def)

inductive sat ::
  "('w \<Rightarrow> 'v) \<Rightarrow> ('v \<times> 'g \<Rightarrow> 'v \<times> 'g \<Rightarrow> bool) \<Rightarrow> ('v \<times> 'g \<Rightarrow> 'v \<times> 'g \<Rightarrow> bool) \<Rightarrow>
   (exn + 'a \<Rightarrow> 'v \<times> 'g \<Rightarrow> bool) \<Rightarrow> ('v \<times> 'g \<Rightarrow> bool) \<Rightarrow> ('w, 'a) thread \<Rightarrow> bool"
  for view R G Q where
  sat_finished: "(\<And>s. P s \<Longrightarrow> Q r s) \<Longrightarrow> sat view R G Q P (Finished r)"
| sat_await: "(\<And>w g. P (view w, g) \<Longrightarrow>
      \<exists>g' P'. G (view w, g) (view (snd (f w)), g') \<and> P' (view (snd (f w)), g') \<and> withstands P' R \<and>
              sat view R G Q P' (fst (f w))) \<Longrightarrow> sat view R G Q P (Await f)"

inductive_cases sat_awaitE: "sat view R G Q P (Await f)"
inductive_cases sat_finishedE: "sat view R G Q P (Finished r)"

lemma sat_finishedD: "sat view R G Q P (Finished r) \<Longrightarrow> P s \<Longrightarrow> Q r s"
  by (auto elim: sat_finishedE)

lemma sat_awaitD:
  "sat view R G Q P (Await f) \<Longrightarrow> P (view w, g) \<Longrightarrow> f w = (t, w') \<Longrightarrow>
   \<exists>g' P'. G (view w, g) (view w', g') \<and> P' (view w', g') \<and> withstands P' R \<and> sat view R G Q P' t"
  by (elim sat_awaitE) (metis fst_conv snd_conv)

lemma sat_pre:
  assumes "sat view R G Q P' t" and "\<And>s. P s \<Longrightarrow> P' s"
  shows "sat view R G Q P t"
  using assms(1)
proof cases
  case (sat_finished r)
  then show ?thesis using assms(2) by (auto intro: sat.sat_finished)
next
  case (sat_await f)
  show ?thesis unfolding sat_await(1) by (rule sat.sat_await, rule sat_await(2), rule assms(2))
qed

lemma sat_return: "(\<And>s. P s \<Longrightarrow> Q (Inr a) s) \<Longrightarrow> sat view R G Q P (return_thread a)"
  by (simp add: return_thread_def sat_finished)

lemma sat_raise: "(\<And>s. P s \<Longrightarrow> Q (Inl e) s) \<Longrightarrow> sat view R G Q P (raise_thread e)"
  by (simp add: raise_thread_def sat_finished)

lemma sat_bind:
  assumes "sat view R G Q0 P m" and k: "\<And>a. sat view R G Q (Q0 (Inr a)) (k a)" and e: "\<And>e s. Q0 (Inl e) s \<Longrightarrow> Q (Inl e) s"
  shows "sat view R G Q P (bind_thread m k)"
  using assms(1)
proof (induction rule: sat.induct)
  case (sat_finished P r)
  show ?case
  proof (cases r)
    case (Inl x)
    then show ?thesis using sat_finished e by (auto intro: sat.sat_finished)
  next
    case (Inr a)
    then show ?thesis using sat_finished sat_pre [OF k [of a]] by auto
  qed
next
  case (sat_await P f)
  show ?case
    unfolding bind_thread.simps
  proof (rule sat.sat_await)
    fix w g
    assume "P (view w, g)"
    from sat_await [OF this] show "\<exists>g' P'. G (view w, g) (view (snd (map_prod (\<lambda>t. bind_thread t k) id (f w))), g') \<and>
        P' (view (snd (map_prod (\<lambda>t. bind_thread t k) id (f w))), g') \<and> withstands P' R \<and>
        sat view R G Q P' (fst (map_prod (\<lambda>t. bind_thread t k) id (f w)))"
      by (cases "f w") auto
  qed
qed

lemma sat_try:
  assumes "sat view R G Q0 P m" and h: "\<And>e. sat view R G Q (Q0 (Inl e)) (h e)" and a: "\<And>a s. Q0 (Inr a) s \<Longrightarrow> Q (Inr a) s"
  shows "sat view R G Q P (try_thread m h)"
  using assms(1)
proof (induction rule: sat.induct)
  case (sat_finished P r)
  show ?case
  proof (cases r)
    case (Inl x)
    then show ?thesis using sat_finished sat_pre [OF h [of x]] by auto
  next
    case (Inr b)
    then show ?thesis using sat_finished a by (auto intro: sat.sat_finished)
  qed
next
  case (sat_await P f)
  show ?case
    unfolding try_thread.simps
  proof (rule sat.sat_await)
    fix w g
    assume "P (view w, g)"
    from sat_await [OF this] show "\<exists>g' P'. G (view w, g) (view (snd (map_prod (\<lambda>t. try_thread t h) id (f w))), g') \<and>
        P' (view (snd (map_prod (\<lambda>t. try_thread t h) id (f w))), g') \<and> withstands P' R \<and>
        sat view R G Q P' (fst (map_prod (\<lambda>t. try_thread t h) id (f w)))"
      by (cases "f w") auto
  qed
qed

text \<open>A command: its outcome's assertion holds after it and withstands the others.\<close>

lemma sat_atomic:
  assumes "\<And>w g. P (view w, g) \<Longrightarrow>
      wp m (\<lambda>a w'. \<exists>g'. G (view w, g) (view w', g') \<and> Q (Inr a) (view w', g'))
           (\<lambda>e w'. \<exists>g'. G (view w, g) (view w', g') \<and> Q (Inl e) (view w', g')) w"
    and "\<And>r. withstands (Q r) R"
  shows "sat view R G Q P (atomic m)"
  unfolding atomic_def
proof (rule sat_await)
  fix w g
  assume "P (view w, g)"
  note wp = assms(1) [OF this]
  obtain r w' where m: "m w = (r, w')" by (cases "m w")
  have "\<exists>g'. G (view w, g) (view w', g') \<and> Q r (view w', g')"
    using wp m by (cases r) (simp_all add: wp_def)
  then show "\<exists>g' P'. G (view w, g) (view (snd (map_prod Finished id (m w))), g') \<and>
      P' (view (snd (map_prod Finished id (m w))), g') \<and> withstands P' R \<and>
      sat view R G Q P' (fst (map_prod Finished id (m w)))"
    using m assms(2) [of r] by (auto intro: sat_finished)
qed

text \<open>A command and what follows it.\<close>

lemma sat_command:
  assumes "\<And>w g. P (view w, g) \<Longrightarrow>
      wp m (\<lambda>a w'. \<exists>g'. G (view w, g) (view w', g') \<and> B a (view w', g'))
           (\<lambda>e w'. \<exists>g'. G (view w, g) (view w', g') \<and> Q (Inl e) (view w', g')) w"
    and "\<And>a. withstands (B a) R" and "\<And>e. withstands (Q (Inl e)) R"
    and "\<And>a. sat view R G Q (B a) (k a)"
  shows "sat view R G Q P (bind_thread (atomic m) k)"
proof (rule sat_bind)
  show "sat view R G (\<lambda>r. case r of Inl e \<Rightarrow> Q (Inl e) | Inr a \<Rightarrow> B a) P (atomic m)"
    by (rule sat_atomic) (simp_all add: assms split: sum.split)
qed (simp_all add: assms(4))

text \<open>Assertions that are false, pure facts, disjunctions, or exist.\<close>

lemma sat_any:
  assumes "\<And>s. P s \<Longrightarrow> \<exists>P'. P' s \<and> sat view R G Q P' t"
  shows "sat view R G Q P t"
proof (cases t)
  case (Finished r)
  show ?thesis unfolding Finished by (rule sat_finished) (use assms in \<open>auto simp: Finished dest: sat_finishedD\<close>)
next
  case (Await f)
  show ?thesis
    unfolding Await
  proof (rule sat_await)
    fix w g
    assume "P (view w, g)"
    then obtain P' where p: "P' (view w, g)" and t: "sat view R G Q P' (Await f)" using assms Await by blast
    from t p show "\<exists>g' P'. G (view w, g) (view (snd (f w)), g') \<and> P' (view (snd (f w)), g') \<and> withstands P' R \<and>
        sat view R G Q P' (fst (f w))"
      by (rule sat_awaitD [OF _ _ prod.collapse [symmetric]])
  qed
qed

lemma sat_fact: "(F \<Longrightarrow> sat view R G Q P t) \<Longrightarrow> sat view R G Q (\<lambda>s. F \<and> P s) t"
  by (rule sat_any) auto

lemma sat_disj: "sat view R G Q P t \<Longrightarrow> sat view R G Q P' t \<Longrightarrow> sat view R G Q (\<lambda>s. P s \<or> P' s) t"
  by (rule sat_any) auto

lemma sat_ex: "(\<And>x. sat view R G Q (P x) t) \<Longrightarrow> sat view R G Q (\<lambda>s. \<exists>x. P x s) t"
  by (rule sat_any) auto

subsection \<open>Threads side by side\<close>

text \<open>Thread \<open>k\<close> with rely \<open>R k\<close>, guarantee \<open>G k\<close> and postcondition \<open>Q k\<close>, each at its present assertion.\<close>

definition team ::
  "('w \<Rightarrow> 'v) \<Rightarrow> (nat \<Rightarrow> 'v \<times> 'g \<Rightarrow> 'v \<times> 'g \<Rightarrow> bool) \<Rightarrow> (nat \<Rightarrow> 'v \<times> 'g \<Rightarrow> 'v \<times> 'g \<Rightarrow> bool) \<Rightarrow>
   (nat \<Rightarrow> exn + 'a \<Rightarrow> 'v \<times> 'g \<Rightarrow> bool) \<Rightarrow> 'g \<Rightarrow> ('w, 'a) thread list \<times> 'w \<Rightarrow> bool" where
  "team view R G Q g c \<longleftrightarrow>
     (\<forall>k < length (fst c). \<exists>P. sat view (R k) (G k) (Q k) P (fst c ! k) \<and> withstands P (R k) \<and> P (view (snd c), g))"

lemma team_step:
  assumes "par_step c c'" and "team view R G Q g c"
    and others: "\<And>k l s s'. k \<noteq> l \<Longrightarrow> G l s s' \<Longrightarrow> R k s s'"
  shows "\<exists>g' l. l < length (fst c) \<and> G l (view (snd c), g) (view (snd c'), g') \<and> team view R G Q g' c'"
  using assms(1,2)
proof (induction rule: par_step.induct)
  case (1 l ts f w t w')
  then obtain P where P: "sat view (R l) (G l) (Q l) P (Await f)" "P (view w, g)"
    unfolding team_def by (metis fst_conv snd_conv)
  from sat_awaitD [OF this 1(3)] obtain g' P' where
    g: "G l (view w, g) (view w', g')" "P' (view w', g')" "withstands P' (R l)" "sat view (R l) (G l) (Q l) P' t" by blast
  have "\<exists>P. sat view (R k) (G k) (Q k) P (ts[l := t] ! k) \<and> withstands P (R k) \<and> P (view w', g')" if k: "k < length ts" for k
  proof (cases "k = l")
    case True
    then show ?thesis using g 1(1) by (intro exI [of _ P']) simp
  next
    case False
    obtain P where P: "sat view (R k) (G k) (Q k) P (ts ! k)" "withstands P (R k)" "P (view w, g)"
      using 1(4) k unfolding team_def by auto
    have "P (view w', g')" by (rule withstandsD [OF P(2,3) others [OF False g(1)]])
    then show ?thesis using P False by (intro exI [of _ P]) simp
  qed
  then have "team view R G Q g' (ts[l := t], w')" by (simp add: team_def)
  then show ?case using g(1) 1(1) by auto
qed

lemma team_steps:
  assumes "par_step\<^sup>*\<^sup>* c c'" and "team view R G Q g c" and "\<And>k l s s'. k \<noteq> l \<Longrightarrow> G l s s' \<Longrightarrow> R k s s'"
    and "I (view (snd c), g)" and "\<And>l s s'. I s \<Longrightarrow> G l s s' \<Longrightarrow> I s'"
  shows "\<exists>g'. team view R G Q g' c' \<and> I (view (snd c'), g')"
  using assms(1)
proof (induction rule: rtranclp_induct)
  case base
  show ?case using assms(2,4) by blast
next
  case (step c1 c2)
  then obtain g1 where t: "team view R G Q g1 c1" and i: "I (view (snd c1), g1)" by blast
  have "\<exists>g' l. l < length (fst c1) \<and> G l (view (snd c1), g1) (view (snd c2), g') \<and> team view R G Q g' c2"
    using step(2) t by (rule team_step) (rule assms(3))
  then show ?case using i assms(5) by blast
qed

text \<open>When a run has ended, every thread has its outcome, and its postcondition holds.\<close>

lemma team_ended:
  assumes "team view R G Q g (ts, w)" and "\<not> (\<exists>c. par_step (ts, w) c)" and "k < length ts"
  shows "\<exists>r. ts ! k = Finished r \<and> Q k r (view w, g)"
proof -
  obtain r where r: "ts ! k = Finished r" using no_step_finished [OF assms(2,3)] by blast
  obtain P where "sat view (R k) (G k) (Q k) P (ts ! k)" "P (view w, g)"
    using assms(1,3) unfolding team_def by auto
  then have "Q k r (view w, g)" unfolding r by (rule sat_finishedD)
  with r show ?thesis by blast
qed

text \<open>Every configuration can run to an end.\<close>

lemma some_end: "\<exists>c'. par_step\<^sup>*\<^sup>* c c' \<and> \<not> (\<exists>d. par_step c' d)"
proof -
  have "wf (inv_image (mult rest_of) (mset \<circ> fst))" by (intro wf_inv_image wf_mult wf_rest_of)
  then show ?thesis
  proof (induction c rule: wf_induct_rule)
    case (less c)
    show ?case
    proof (cases "\<exists>d. par_step c d")
      case True
      then obtain d where d: "par_step c d" by blast
      then have "(d, c) \<in> inv_image (mult rest_of) (mset \<circ> fst)"
        by (simp add: mult_def r_into_trancl par_step_smaller)
      from less [OF this] d show ?thesis by (meson converse_rtranclp_into_rtranclp)
    next
      case False
      then show ?thesis by (intro exI [of _ c]) simp
    qed
  qed
qed

end
