(* ===== verification/Op_Threads.thy ===== *)
theory Op_Threads
  imports Rely_Guarantee System
begin

section \<open>The operations as threads\<close>

text \<open>
  Every request of System that changes state, cut at its commands: the claim phase of a
  worker, the execution of a claimed job, recovery, and the two endpoints that write. Each
  thread follows its coroutine line by line, with \<open>bind_thread\<close> for \<open>bind_io\<close>, \<open>try_thread\<close> for
  \<open>try_except\<close> and \<open>atomic\<close> around a command, and each has its \<open>run\<close> equation: executed
  alone it is the coroutine (\<open>run_request_thread\<close>). The body of an executor is one step: it
  touches no queue and no table.
\<close>

subsection \<open>The claim phase\<close>

definition uuid_thread :: "string \<Rightarrow> ('w, uuid) thread" where
  "uuid_thread s = Finished (parse_uuid s)"

primrec each_thread :: "('a \<Rightarrow> ('w, unit) thread) \<Rightarrow> 'a list \<Rightarrow> ('w, unit) thread" where
  "each_thread f [] = return_thread ()"
| "each_thread f (x # xs) = bind_thread (f x) (\<lambda>_. each_thread f xs)"

definition enqueue_priority_thread :: "'w app \<Rightarrow> string \<Rightarrow> string \<Rightarrow> string \<Rightarrow> ('w, unit) thread" where
  "enqueue_priority_thread A jid prio typ =
     bind_thread (atomic (priority_score A prio)) (\<lambda>score.
     bind_thread (timed_thread A ''zadd'' (zadd A PRIORITY_KEY jid score)) (\<lambda>_.
     atomic (count_io A ''enqueue'' 1 [(''queue_name'', ''priority''), (''job_type'', typ), (''priority'', prio)])))"

definition requeue_thread :: "'w app \<Rightarrow> string \<Rightarrow> ('w, unit) thread" where
  "requeue_thread A jid =
     bind_thread (uuid_thread jid) (\<lambda>i.
     bind_thread (atomic (db_get A i)) (\<lambda>job.
     case job of
       None \<Rightarrow> return_thread ()
     | Some j \<Rightarrow> if status j = status_value QUEUED then enqueue_priority_thread A jid (priority j) '''' else return_thread ()))"

definition dequeue_priority_thread :: "'w app \<Rightarrow> ('w, string option) thread" where
  "dequeue_priority_thread A =
     bind_thread (timed_thread A ''zpopmin'' (zpopmin A PRIORITY_KEY)) (\<lambda>result.
     return_thread (case result of [] \<Rightarrow> None | r # _ \<Rightarrow> Some (fst r)))"

definition dequeue_fifo_thread :: "'w app \<Rightarrow> nat \<Rightarrow> ('w, string option) thread" where
  "dequeue_fifo_thread A timeout =
     bind_thread (timed_thread A ''brpop'' (brpop A FIFO_KEY timeout)) (\<lambda>result.
     return_thread (case result of None \<Rightarrow> None | Some r \<Rightarrow> Some (snd r)))"

definition next_thread :: "'w app \<Rightarrow> ('w, (string \<times> string) option) thread" where
  "next_thread A =
     bind_thread (dequeue_priority_thread A) (\<lambda>r.
     if truthy r then return_thread (Some (the r, ''priority''))
     else
       bind_thread (dequeue_fifo_thread A 1) (\<lambda>r'.
       if truthy r' then return_thread (Some (the r', ''fifo'')) else return_thread None))"

definition start_thread :: "'w app \<Rightarrow> string \<Rightarrow> string \<Rightarrow> ('w, claimed_job option) thread" where
  "start_thread A jid source =
     bind_thread (uuid_thread jid) (\<lambda>i.
     bind_thread (atomic (db_get A i)) (\<lambda>job.
     case job of
       None \<Rightarrow> return_thread None
     | Some j \<Rightarrow>
         if status j \<noteq> status_value QUEUED then return_thread None
         else
           bind_thread (atomic (now_utc A)) (\<lambda>t.
           bind_thread (atomic (db_commit A (start_writes j source t))) (\<lambda>_.
           return_thread (Some \<lparr>cj_type = job_type j, cj_payload = payload j, cj_priority = priority j,
                              cj_created_at = created_at j, cj_started_at = t\<rparr>)))))"

definition claim_phase_thread :: "'w app \<Rightarrow> ('w, (string \<times> claimed_job) option) thread" where
  "claim_phase_thread A =
     bind_thread (drain_thread A 10) (\<lambda>due.
     bind_thread (each_thread (requeue_thread A) due) (\<lambda>_.
     bind_thread (next_thread A) (\<lambda>nxt.
     case nxt of
       None \<Rightarrow>
         bind_thread (atomic (count_io A ''worker_loop_iterations'' 1 [(''worker_id'', hostname A), (''outcome'', ''no_job'')])) (\<lambda>_.
         return_thread None)
     | Some (jid, source) \<Rightarrow>
         bind_thread (start_thread A jid source) (\<lambda>claim.
         return_thread (map_option (\<lambda>c. (jid, c)) claim)))))"

text \<open>Run alone, a thread is the coroutine it was cut from.\<close>

lemma run_timed [simp]: "run (timed_thread A command m) = timed_io A command m"
  by (simp add: timed_thread_def timed_io_def)

lemma run_uuid [simp]: "run (uuid_thread s) = uuid_io s"
  by (simp add: uuid_thread_def uuid_io_def return_io_def raise_io_def fun_eq_iff split: sum.split)

lemma run_each: "(\<And>x. run (f x) = g x) \<Longrightarrow> run (each_thread f xs) = for_each g xs"
  by (induction xs) simp_all

lemma run_option: "run (case x of None \<Rightarrow> m | Some a \<Rightarrow> f a) = (case x of None \<Rightarrow> run m | Some a \<Rightarrow> run (f a))"
  by (simp split: option.split)

lemma run_if: "run (if b then m else n) = (if b then run m else run n)"
  by simp

lemma run_requeue: "run (requeue_thread A jid) = requeue_due A jid"
  by (simp add: requeue_thread_def requeue_due_def enqueue_priority_thread_def enqueue_priority_def run_option run_if
      cong: option.case_cong if_cong)

lemma run_next: "run (next_thread A) = next_job A"
proof -
  have "run (dequeue_priority_thread A) = dequeue_priority A"
    unfolding dequeue_priority_thread_def dequeue_priority_def run_bind run_timed run_return
    by (rule bind_io_cong) (simp split: list.split)
  moreover have "run (dequeue_fifo_thread A n) = dequeue_fifo A n" for n
    unfolding dequeue_fifo_thread_def dequeue_fifo_def run_bind run_timed run_return
    by (rule bind_io_cong) (simp split: option.split)
  ultimately show ?thesis by (simp add: next_thread_def next_job_def run_if cong: if_cong)
qed

lemma run_start: "run (start_thread A jid source) = start_job A jid source"
  by (simp add: start_thread_def start_job_def run_option run_if cong: option.case_cong if_cong)

lemma run_claim_phase: "run (claim_phase_thread A) = claim_phase A"
proof -
  have "run (each_thread (requeue_thread A) due) = for_each (requeue_due A) due" for due
    by (rule run_each) (rule run_requeue)
  then show ?thesis
    by (simp add: claim_phase_thread_def claim_phase_def run_drain run_next run_start run_option case_prod_beta
        cong: option.case_cong)
qed


subsection \<open>handle_failure\<close>

definition enqueue_retry_thread :: "'w app \<Rightarrow> string \<Rightarrow> rat \<Rightarrow> ('w, unit) thread" where
  "enqueue_retry_thread A jid run_at_epoch = timed_thread A ''zadd'' (zadd A RETRY_KEY jid run_at_epoch)"

definition failure_thread :: "'w app \<Rightarrow> string \<Rightarrow> string \<Rightarrow> ('w, unit) thread" where
  "failure_thread A jid msg =
     bind_thread (uuid_thread jid) (\<lambda>i.
     bind_thread (atomic (db_get A i)) (\<lambda>job.
     case job of
       None \<Rightarrow> return_thread ()
     | Some j \<Rightarrow>
         if max_attempts j \<le> attempts j then
           bind_thread (atomic (now_utc A)) (\<lambda>t.
           bind_thread (atomic (count_io A ''jobs_failed'' 1 [(''job_type'', job_type j), (''priority'', priority j),
                                                  (''failure_reason'', ''max_attempts_exhausted'')])) (\<lambda>_.
           bind_thread (atomic (updown_io A ''jobs_active'' (- 1) [(''job_type'', job_type j)])) (\<lambda>_.
           atomic (db_commit A (fail_writes j msg t)))))
         else
           bind_thread (atomic (calculate_backoff_with_jitter A (attempts j) MAX_DELAY)) (\<lambda>delay.
           bind_thread (atomic (now_utc A)) (\<lambda>t.
           bind_thread (atomic (epoch_now A)) (\<lambda>now.
           bind_thread (enqueue_retry_thread A jid (fl (now + delay))) (\<lambda>_.
           bind_thread (atomic (count_io A ''jobs_retried'' 1 [(''job_type'', job_type j), (''priority'', priority j),
                                                    (''attempt_number'', str_int (attempts j))])) (\<lambda>_.
           bind_thread (atomic (record_io A ''retry_backoff'' delay
                                  [(''job_type'', job_type j), (''attempt_number'', str_int (attempts j))])) (\<lambda>_.
           bind_thread (atomic (updown_io A ''jobs_active'' (- 1) [(''job_type'', job_type j)])) (\<lambda>_.
           atomic (db_commit A (retry_writes j msg t delay)))))))))))"

lemma run_failure: "run (failure_thread A jid msg) = handle_failure A jid msg"
  by (simp add: failure_thread_def handle_failure_def enqueue_retry_thread_def enqueue_retry_def run_option run_if
      cong: option.case_cong if_cong)

subsection \<open>Execution of a claimed job\<close>

definition complete_thread :: "'w app \<Rightarrow> string \<Rightarrow> claimed_job \<Rightarrow> json_dict \<Rightarrow> ('w, unit) thread" where
  "complete_thread A jid c result =
     bind_thread (uuid_thread jid) (\<lambda>i.
     bind_thread (atomic (db_get A i)) (\<lambda>job.
     case job of
       None \<Rightarrow> return_thread ()
     | Some j \<Rightarrow>
         if status j = status_value CANCELLED then atomic (updown_io A ''jobs_active'' (- 1) [(''job_type'', cj_type c)])
         else
           bind_thread (atomic (now_utc A)) (\<lambda>t.
           bind_thread (atomic (db_commit A (complete_writes A j result t))) (\<lambda>_.
           bind_thread (atomic (count_io A ''jobs_completed'' 1 [(''job_type'', cj_type c), (''priority'', cj_priority c)])) (\<lambda>_.
           bind_thread (atomic (updown_io A ''jobs_active'' (- 1) [(''job_type'', cj_type c)])) (\<lambda>_.
           atomic (count_io A ''worker_loop_iterations'' 1 [(''worker_id'', hostname A), (''outcome'', ''job_processed'')])))))))"

definition on_failure_thread ::
  "'w app \<Rightarrow> executor_class \<Rightarrow> string \<Rightarrow> claimed_job \<Rightarrow> datetime \<Rightarrow> exn \<Rightarrow> ('w, unit) thread" where
  "on_failure_thread A cls jid c t_start e =
     bind_thread (atomic (now_utc A)) (\<lambda>t.
     bind_thread (atomic (record_io A ''job_processing_duration'' (total_seconds t_start t)
               [(''job_type'', cj_type c), (''priority'', cj_priority c)])) (\<lambda>_.
     if e = TimeoutError then
        bind_thread (atomic (count_io A ''jobs_failed'' 1 [(''job_type'', cj_type c), (''priority'', cj_priority c),
                                               (''failure_reason'', ''timeout'')])) (\<lambda>_.
        failure_thread A jid (''Execution timed out after '' @ str_int (max_execution_seconds cls) @ ''s''))
      else
        bind_thread (atomic (count_io A ''jobs_failed'' 1 [(''job_type'', cj_type c), (''priority'', cj_priority c),
                                               (''failure_reason'', ''executor_error'')])) (\<lambda>_.
        failure_thread A jid (exn_str e))))"

definition run_job_thread :: "'w app \<Rightarrow> string \<Rightarrow> claimed_job \<Rightarrow> ('w, unit) thread" where
  "run_job_thread A jid c =
     bind_thread (atomic (record_io A ''job_wait_duration'' (total_seconds (cj_created_at c) (cj_started_at c))
               [(''job_type'', cj_type c), (''priority'', cj_priority c)])) (\<lambda>_.
     bind_thread (atomic (updown_io A ''jobs_active'' 1 [(''job_type'', cj_type c)])) (\<lambda>_.
     bind_thread (atomic (executor_io (cj_type c))) (\<lambda>cls.
     bind_thread (atomic (now_utc A)) (\<lambda>t_start.
      try_thread
        (bind_thread (atomic (wait_for A (max_execution_seconds cls) (execute A cls jid (cj_payload c)))) (\<lambda>result.
         bind_thread (atomic (now_utc A)) (\<lambda>t.
         bind_thread (atomic (record_io A ''job_processing_duration'' (total_seconds t_start t)
                   [(''job_type'', cj_type c), (''priority'', cj_priority c)])) (\<lambda>_.
         bind_thread (atomic (record_io A ''worker_executor_duration'' (total_seconds t_start t)
                   [(''job_type'', cj_type c), (''worker_id'', hostname A)])) (\<lambda>_.
         complete_thread A jid c result)))))
        (on_failure_thread A cls jid c t_start)))))"

lemma run_complete: "run (complete_thread A jid c result) = complete_job A jid c result"
  by (simp add: complete_thread_def complete_job_def run_option run_if cong: option.case_cong if_cong)

lemma run_on_failure: "run (on_failure_thread A cls jid c t_start e) = on_failure A cls jid c t_start e"
  by (simp add: on_failure_thread_def on_failure_def run_failure run_if)

lemma run_run_job: "run (run_job_thread A jid c) = run_job A jid c"
  by (simp add: run_job_thread_def run_job_def run_complete run_on_failure)

subsection \<open>Recovery\<close>

definition recover_one_thread :: "'w app \<Rightarrow> job \<Rightarrow> ('w, db_write list) thread" where
  "recover_one_thread A j =
     (if max_attempts j \<le> attempts j + 1 then
        bind_thread (atomic (now_utc A)) (\<lambda>t.
        bind_thread (atomic (count_io A ''worker_recovery_actions'' 1 [(''action'', ''failed_terminal'')])) (\<lambda>_.
        return_thread (recover_fail_writes j t)))
      else
        bind_thread (atomic (calculate_backoff_with_jitter A (attempts j + 1) MAX_DELAY)) (\<lambda>delay.
        bind_thread (atomic (now_utc A)) (\<lambda>t.
        bind_thread (atomic (epoch_now A)) (\<lambda>now.
        bind_thread (enqueue_retry_thread A (str_uuid (job_id j)) (fl (now + delay))) (\<lambda>_.
        bind_thread (atomic (count_io A ''worker_recovery_actions'' 1 [(''action'', ''requeued'')])) (\<lambda>_.
        return_thread (recover_retry_writes j t delay)))))))"

primrec recover_each_thread :: "'w app \<Rightarrow> job list \<Rightarrow> ('w, db_write list) thread" where
  "recover_each_thread A [] = return_thread []"
| "recover_each_thread A (j # js) =
     bind_thread (recover_one_thread A j) (\<lambda>ws.
     bind_thread (recover_each_thread A js) (\<lambda>ws'. return_thread (ws @ ws')))"

definition recovery_thread :: "'w app \<Rightarrow> int \<Rightarrow> ('w, unit) thread" where
  "recovery_thread A threshold_minutes =
     bind_thread (atomic (now_utc A)) (\<lambda>t.
     bind_thread (atomic (db_where A (stuck (t - threshold_minutes * 60 * 10 ^ 6)))) (\<lambda>stuck_jobs.
     if stuck_jobs = [] then return_thread ()
     else bind_thread (recover_each_thread A stuck_jobs) (\<lambda>ws. atomic (db_commit A ws))))"

lemma run_recover_each: "run (recover_each_thread A js) = recover_each A js"
proof -
  have "run (recover_one_thread A j) = recover_one A j" for j
    by (simp add: recover_one_thread_def recover_one_def enqueue_retry_thread_def enqueue_retry_def)
  then show ?thesis by (induction js) simp_all
qed

lemma run_recovery: "run (recovery_thread A m) = run_startup_recovery A m"
  by (simp add: recovery_thread_def run_startup_recovery_def run_recover_each run_if cong: if_cong)

subsection \<open>Creation\<close>

definition lookup_thread :: "'w app \<Rightarrow> job_create \<Rightarrow> ('w, job option) thread" where
  "lookup_thread A jc =
     (if truthy (jc_idempotency_key jc) then
        bind_thread (atomic (db_where A (\<lambda>j. idempotency_key j = jc_idempotency_key jc))) (\<lambda>existing.
        bind_thread (atomic (scalar_one_or_none existing)) (\<lambda>row.
        case row of
          None \<Rightarrow> return_thread None
        | Some r \<Rightarrow>
            bind_thread (atomic (count_io A ''idempotency_hits'' 1 [(''job_type'', job_type r)])) (\<lambda>_. return_thread (Some r))))
      else return_thread None)"

definition create_new_thread :: "'w app \<Rightarrow> job_create \<Rightarrow> ('w, job \<times> bool) thread" where
  "create_new_thread A jc =
     bind_thread (atomic (read_io (trace_parent A))) (\<lambda>tp.
     bind_thread (atomic (read_io (rnd_uuid4 A))) (\<lambda>i.
     try_thread
       (bind_thread (atomic (db_flush_new A (new_job i 0 (jc_type jc) (payload_with_trace (jc_payload jc) tp)
                                  (jc_priority jc) (jc_idempotency_key jc) (jc_max_attempts jc)))) (\<lambda>job.
        bind_thread (enqueue_priority_thread A (str_uuid (job_id job)) (priority job) '''') (\<lambda>_.
        bind_thread (atomic (db_commit A [InsertJob job])) (\<lambda>_.
        bind_thread (atomic (count_io A ''jobs_created'' 1 [(''job_type'', job_type job), (''priority'', priority job)])) (\<lambda>_.
        return_thread (job, True))))))
       (\<lambda>e. if is_integrity e then
              bind_thread (atomic (db_rollback A)) (\<lambda>_.
              bind_thread (atomic (db_where A (\<lambda>j. idempotency_key j = jc_idempotency_key jc))) (\<lambda>existing.
              bind_thread (atomic (scalar_one existing)) (\<lambda>row.
              bind_thread (atomic (count_io A ''idempotency_hits'' 1 [(''job_type'', job_type row)])) (\<lambda>_.
              return_thread (row, False)))))
            else raise_thread e)))"

definition create_thread :: "'w app \<Rightarrow> job_create \<Rightarrow> ('w, job \<times> bool) thread" where
  "create_thread A jc =
     bind_thread (lookup_thread A jc) (\<lambda>row.
     case row of Some r \<Rightarrow> return_thread (r, False) | None \<Rightarrow> create_new_thread A jc)"

lemma run_enqueue_priority: "run (enqueue_priority_thread A jid p typ) = enqueue_priority A jid p typ"
  by (simp add: enqueue_priority_thread_def enqueue_priority_def)

lemma run_create: "run (create_thread A jc) = create_job A jc"
  by (simp add: create_thread_def create_job_def get_or_create_job_def lookup_thread_def lookup_existing_def
      create_new_thread_def create_new_def run_enqueue_priority run_option run_if cong: option.case_cong if_cong)

definition create_endpoint_thread :: "'w app \<Rightarrow> exn option \<Rightarrow> job_create \<Rightarrow> ('w, job_read response) thread" where
  "create_endpoint_thread A limited jc =
     (case limited of
        Some e \<Rightarrow> raise_thread e
      | None \<Rightarrow>
          if jc_type jc \<notin> VALID_TYPES then
            raise_thread (HTTPException 422 (''Unknown job type '' @ [CHR 0x27] @ jc_type jc @ [CHR 0x27] @ ''. Valid types: '' @
              repr_list (sort (map fst EXECUTOR_REGISTRY))))
          else if jc_priority jc \<notin> VALID_PRIORITIES then
            raise_thread (HTTPException 422 (''Invalid priority '' @ [CHR 0x27] @ jc_priority jc @ [CHR 0x27] @
              ''. Must be one of: high, medium, low''))
          else
            bind_thread (create_thread A jc) (\<lambda>(job, is_new).
            return_thread \<lparr>status_code = (if is_new then 201 else 200),
                       headers = (if is_new then [] else [(''X-Idempotency-Replay'', ''true'')]),
                       body = job_read_of job\<rparr>))"

lemma run_create_endpoint: "run (create_endpoint_thread A limited jc) = create_job_endpoint A limited jc"
  by (cases limited) (simp_all add: create_endpoint_thread_def create_job_endpoint_def run_create case_prod_unfold)

subsection \<open>Cancellation\<close>

definition remove_thread :: "'w app \<Rightarrow> string \<Rightarrow> ('w, unit) thread" where
  "remove_thread A jid =
     bind_thread (atomic (lrem_all A FIFO_KEY jid)) (\<lambda>_.
     bind_thread (atomic (zrem A PRIORITY_KEY jid)) (\<lambda>_.
     bind_thread (atomic (zrem A RETRY_KEY jid)) (\<lambda>_.
     return_thread ())))"

definition cancel_thread :: "'w app \<Rightarrow> uuid \<Rightarrow> ('w, job option) thread" where
  "cancel_thread A i =
     bind_thread (atomic (db_where A (\<lambda>j. job_id j = i))) (\<lambda>result.
     bind_thread (atomic (scalar_one_or_none result)) (\<lambda>job.
     case job of
       None \<Rightarrow> return_thread None
     | Some j \<Rightarrow>
         if status j \<noteq> status_value QUEUED \<and> status j \<noteq> status_value PROCESSING then return_thread (Some j)
         else
           bind_thread (remove_thread A (str_uuid i)) (\<lambda>_.
           bind_thread (atomic (db_commit A [UpdateJob i (\<lambda>r. r\<lparr>status := status_value CANCELLED\<rparr>)])) (\<lambda>_.
           return_thread (Some (j\<lparr>status := status_value CANCELLED\<rparr>))))))"

definition cancel_endpoint_thread :: "'w app \<Rightarrow> uuid \<Rightarrow> ('w, job_read response) thread" where
  "cancel_endpoint_thread A i =
     bind_thread (cancel_thread A i) (\<lambda>job.
     case job of
       None \<Rightarrow> raise_thread (HTTPException 404 ''Job not found'')
     | Some j \<Rightarrow>
         if status j \<notin> {status_value QUEUED, status_value PROCESSING, status_value CANCELLED} then
           raise_thread (HTTPException 409 (''Cannot cancel job in status '' @ [CHR 0x27] @ status j @ [CHR 0x27]))
         else return_thread \<lparr>status_code = 200, headers = [], body = job_read_of j\<rparr>)"

lemma run_cancel: "run (cancel_thread A i) = cancel_job A i"
  by (simp add: cancel_thread_def cancel_job_def remove_thread_def remove_from_queues_def run_option run_if
      cong: option.case_cong if_cong)

lemma run_cancel_endpoint: "run (cancel_endpoint_thread A i) = cancel_job_endpoint A i"
  by (simp add: cancel_endpoint_thread_def cancel_job_endpoint_def run_cancel run_option run_if cong: option.case_cong if_cong)

subsection \<open>Requests\<close>

text \<open>\<open>attempt\<close>, and the requests; those that only read are one step, since they change nothing.\<close>

definition attempt_thread :: "('w, 'a) thread \<Rightarrow> ('w, unit) thread" where
  "attempt_thread m = try_thread (bind_thread m (\<lambda>_. return_thread ())) (\<lambda>_. return_thread ())"

definition pass_thread :: "'w app \<Rightarrow> ('w, unit) thread" where
  "pass_thread A =
     try_thread
       (bind_thread (claim_phase_thread A) (\<lambda>r. case r of None \<Rightarrow> return_thread () | Some (jid, c) \<Rightarrow> run_job_thread A jid c))
       (\<lambda>e. bind_thread (atomic (count_io A ''worker_loop_iterations'' 1 [(''worker_id'', hostname A), (''outcome'', ''error'')])) (\<lambda>_.
             atomic (do_io (nap A 1))))"

fun request_thread :: "'w app \<Rightarrow> request \<Rightarrow> ('w, unit) thread" where
  "request_thread A (Create limited jc) = attempt_thread (create_endpoint_thread A limited jc)"
| "request_thread A (Cancel i) = attempt_thread (cancel_endpoint_thread A i)"
| "request_thread A WorkerClaim = attempt_thread (claim_phase_thread A)"
| "request_thread A (WorkerRun i c) = attempt_thread (run_job_thread A (str_uuid i) c)"
| "request_thread A WorkerPass = pass_thread A"
| "request_thread A (Recover m) = attempt_thread (recovery_thread A m)"
| "request_thread A r = atomic (run_request A r)"

lemma run_attempt: "run (attempt_thread m) = attempt (run m)"
  by (simp add: attempt_thread_def attempt_def)

lemma run_pass: "run (pass_thread A) = worker_iteration A"
  by (simp add: pass_thread_def worker_iteration_def poll_once_phases run_claim_phase run_run_job run_option case_prod_beta
      cong: option.case_cong)

lemma run_request_thread: "run (request_thread A r) = run_request A r"
  by (cases r) (simp_all add: run_attempt run_create_endpoint run_cancel_endpoint run_claim_phase run_run_job run_pass run_recovery)

text \<open>For running threads on a concrete world.\<close>

lemmas claim_thread_defs = claim_phase_thread_def requeue_thread_def next_thread_def start_thread_def
  dequeue_priority_thread_def dequeue_fifo_thread_def uuid_thread_def drain_thread_def timed_thread_def
  atomic_def return_thread_def

end
