(* ===== verification/Cut_Off.thy ===== *)
theory Cut_Off
  imports Op_Threads
begin

section \<open>Threads that are cut off\<close>

text \<open>
  A process can be killed at any await of a coroutine. \<open>run_among\<close> is the run of one thread up
  to any point, with the others' steps in between: a crash is a run that is not continued.
  \<open>delivers\<close> is the logic of Rely_Guarantee with an invariant \<open>I\<close> that holds after each command
  and after each exception, and the locale \<open>cut_off\<close> has its rules for an invariant that the
  others keep; so \<open>I\<close> holds wherever the thread is cut off.
\<close>

subsection \<open>Runs that stop anywhere\<close>

inductive run_among ::
  "('w \<Rightarrow> 'v) \<Rightarrow> ('v \<Rightarrow> 'v \<Rightarrow> bool) \<Rightarrow> ('w, 'a) thread \<times> 'w \<Rightarrow> ('w, 'a) thread \<times> 'w \<Rightarrow> bool"
  for view others c where
  here: "run_among view others c c"
| own: "run_among view others c (Await f, w) \<Longrightarrow> f w = (t, w') \<Longrightarrow> run_among view others c (t, w')"
| other: "run_among view others c (t, w) \<Longrightarrow> others (view w) (view w') \<Longrightarrow> run_among view others c (t, w')"

text \<open>What a thread's guarantee keeps holds wherever the thread is cut off.\<close>

lemma run_among_sat:
  assumes "run_among view others (t, w) c" and "sat view R G Q P t" and "P (view w, g)" and "withstands P R"
    and "I (view w, g)" and "\<And>s s'. I s \<Longrightarrow> G s s' \<Longrightarrow> I s'" and "\<And>s s'. I s \<Longrightarrow> R s s' \<Longrightarrow> I s'"
    and "\<And>v v' g. others v v' \<Longrightarrow> R (v, g) (v', g)"
  shows "\<exists>P' g'. sat view R G Q P' (fst c) \<and> withstands P' R \<and> P' (view (snd c), g') \<and> I (view (snd c), g')"
  using assms(1)
proof (induction rule: run_among.induct)
  case here
  show ?case using assms(2-5) by auto
next
  case (own f u t' u')
  then obtain P' g' where s: "sat view R G Q P' (Await f)" "P' (view u, g')" and i: "I (view u, g')" by auto
  from sat_awaitD [OF s own(2)] obtain g2 P2 where
    "G (view u, g') (view u', g2)" "P2 (view u', g2)" "withstands P2 R" "sat view R G Q P2 t'" by blast
  then show ?case using assms(6) [OF i] by auto
next
  case (other t' u u')
  then obtain P' g' where s: "sat view R G Q P' t'" "withstands P' R" "P' (view u, g')" and i: "I (view u, g')" by auto
  have r: "R (view u, g') (view u', g')" by (rule assms(8) [OF other(2)])
  then have "P' (view u', g')" "I (view u', g')" using withstandsD [OF s(2,3)] assms(7) [OF i] by blast+
  then show ?case using s by auto
qed

text \<open>A thread that runs alone for a number of commands.\<close>

fun advance :: "nat \<Rightarrow> ('w, 'a) thread \<times> 'w \<Rightarrow> ('w, 'a) thread \<times> 'w" where
  "advance 0 c = c"
| "advance (Suc n) (Finished r, w) = (Finished r, w)"
| "advance (Suc n) (Await f, w) = advance n (f w)"

lemma advance_among: "run_among view others c0 c \<Longrightarrow> run_among view others c0 (advance n c)"
proof (induction n c rule: advance.induct)
  case (3 n f w)
  then show ?case by (cases "f w") (auto intro: run_among.own)
qed simp_all

subsection \<open>An invariant at every command\<close>

definition delivers ::
  "('w \<Rightarrow> 'v) \<Rightarrow> ('v \<Rightarrow> 'v \<Rightarrow> bool) \<Rightarrow> ('v \<Rightarrow> bool) \<Rightarrow> ('a \<Rightarrow> 'v \<Rightarrow> bool) \<Rightarrow> ('v \<Rightarrow> bool) \<Rightarrow> ('w, 'a) thread \<Rightarrow> bool" where
  "delivers view R I E P t \<longleftrightarrow>
     sat view (\<lambda>s s'. R (fst s) (fst s')) (\<lambda>_ s'. I (fst s'))
       (\<lambda>r s. case r of Inl _ \<Rightarrow> I (fst s) | Inr a \<Rightarrow> E a (fst s)) (\<lambda>s :: 'v \<times> unit. P (fst s)) t"

text \<open>An assertion that entails the invariant and that the others leave true.\<close>

definition stands :: "('v \<Rightarrow> 'v \<Rightarrow> bool) \<Rightarrow> ('v \<Rightarrow> bool) \<Rightarrow> ('v \<Rightarrow> bool) \<Rightarrow> bool" where
  "stands R I P \<longleftrightarrow> (\<forall>s. P s \<longrightarrow> I s) \<and> (\<forall>s s'. P s \<longrightarrow> R s s' \<longrightarrow> P s')"

text \<open>A command that does no more than the others may.\<close>

definition moves_as :: "('w \<Rightarrow> 'v) \<Rightarrow> ('v \<Rightarrow> 'v \<Rightarrow> bool) \<Rightarrow> ('w, 'a) io \<Rightarrow> bool" where
  "moves_as view R m \<longleftrightarrow> (\<forall>w. wp m (\<lambda>_ w'. R (view w) (view w')) (\<lambda>_ w'. R (view w) (view w')) w)"

lemma delivers_return: "(\<And>s. P s \<Longrightarrow> E a s) \<Longrightarrow> delivers view R I E P (return_thread a)"
  unfolding delivers_def by (rule sat_return) simp

lemma delivers_raise: "(\<And>s. P s \<Longrightarrow> I s) \<Longrightarrow> delivers view R I E P (raise_thread e)"
  unfolding delivers_def by (rule sat_raise) simp

lemma delivers_pre: "delivers view R I E P' t \<Longrightarrow> (\<And>s. P s \<Longrightarrow> P' s) \<Longrightarrow> delivers view R I E P t"
  unfolding delivers_def by (erule sat_pre) simp

lemma delivers_bind:
  "delivers view R I F P m \<Longrightarrow> (\<And>a. delivers view R I E (F a) (k a)) \<Longrightarrow> delivers view R I E P (bind_thread m k)"
  unfolding delivers_def by (erule sat_bind) simp_all

lemma delivers_try:
  "delivers view R I E P m \<Longrightarrow> (\<And>e. delivers view R I E I (h e)) \<Longrightarrow> delivers view R I E P (try_thread m h)"
  unfolding delivers_def by (erule sat_try) simp_all

lemma delivers_fact: "(F \<Longrightarrow> delivers view R I E P t) \<Longrightarrow> delivers view R I E (\<lambda>s. F \<and> P s) t"
  unfolding delivers_def by (rule sat_fact)

lemma delivers_never: "(\<And>s. \<not> P s) \<Longrightarrow> delivers view R I E P t"
  unfolding delivers_def by (rule sat_any) simp

lemma delivers_if: "(b \<Longrightarrow> delivers view R I E P m) \<Longrightarrow> (\<not> b \<Longrightarrow> delivers view R I E P n) \<Longrightarrow> delivers view R I E P (if b then m else n)"
  by simp

locale cut_off =
  fixes view :: "'w \<Rightarrow> 'v" and R :: "'v \<Rightarrow> 'v \<Rightarrow> bool" and I :: "'v \<Rightarrow> bool"
  assumes steady: "I s \<Longrightarrow> R s s' \<Longrightarrow> I s'"
begin

lemma stands_inv: "stands R I I"
  using steady by (simp add: stands_def)

lemma command:
  assumes "\<And>w. P (view w) \<Longrightarrow> wp m (\<lambda>a w'. B a (view w')) (\<lambda>_ w'. I (view w')) w"
    and "\<And>a. stands R I (B a)" and "\<And>a. delivers view R I E (B a) (k a)"
  shows "delivers view R I E P (bind_thread (atomic m) k)"
  unfolding delivers_def
proof (rule sat_command [where B = "\<lambda>a s. B a (fst s)"])
  fix w and g :: unit
  assume "P (fst (view w, g))"
  then have "wp m (\<lambda>a w'. B a (view w')) (\<lambda>_ w'. I (view w')) w" by (intro assms(1)) simp
  then show "wp m (\<lambda>a w'. \<exists>g'. I (fst (view w', g')) \<and> B a (fst (view w', g')))
      (\<lambda>e w'. \<exists>g'. I (fst (view w', g')) \<and> (case Inl e of Inl _ \<Rightarrow> I (fst (view w', g')) | Inr a \<Rightarrow> E a (fst (view w', g')))) w"
    by (rule wp_mono) (use assms(2) in \<open>auto simp: stands_def\<close>)
next
  show "withstands (\<lambda>s. B a (fst s)) (\<lambda>s s'. R (fst s) (fst s'))" for a
    using assms(2) by (auto simp: withstands_def stands_def)
  show "withstands (\<lambda>s. case Inl e of Inl _ \<Rightarrow> I (fst s) | Inr a \<Rightarrow> E a (fst s)) (\<lambda>s s'. R (fst s) (fst s'))" for e
    by (auto simp: withstands_def intro: steady)
qed (use assms(3) in \<open>simp add: delivers_def\<close>)

lemma last_command:
  assumes "\<And>w. P (view w) \<Longrightarrow> wp m (\<lambda>a w'. E a (view w')) (\<lambda>_ w'. I (view w')) w" and "\<And>a. stands R I (E a)"
  shows "delivers view R I E P (atomic m)"
proof -
  have "delivers view R I E P (bind_thread (atomic m) return_thread)"
    by (rule command [OF assms]) (assumption | rule delivers_return)+
  moreover have "bind_thread (atomic m) return_thread = atomic m"
    by (auto simp: atomic_def return_thread_def map_prod_def fun_eq_iff split: prod.split sum.split)
  ultimately show ?thesis by simp
qed

text \<open>Commands that do no more than the others may.\<close>

lemma move_keeps:
  assumes "moves_as view R m" and "stands R I P" and "P (view w)"
  shows "wp m (\<lambda>_ w'. P (view w')) (\<lambda>_ w'. I (view w')) w"
  by (rule wp_mono [OF assms(1) [unfolded moves_as_def, rule_format]]) (use assms(2,3) in \<open>auto simp: stands_def\<close>)

lemma move:
  assumes "moves_as view R m" and "stands R I P" and "\<And>a. delivers view R I E P (k a)"
  shows "delivers view R I E P (bind_thread (atomic m) k)"
  by (rule command [OF move_keeps [OF assms(1,2)] assms(2,3)])

lemma last_move: "moves_as view R m \<Longrightarrow> stands R I P \<Longrightarrow> delivers view R I (\<lambda>_. P) P (atomic m)"
  by (rule last_command [OF move_keeps])

lemma last_move_inv: "moves_as view R m \<Longrightarrow> stands R I P \<Longrightarrow> delivers view R I (\<lambda>_. I) P (atomic m)"
  by (rule delivers_pre [OF last_move [OF _ stands_inv]]) (auto simp: stands_def)

text \<open>Wherever the thread is cut off, the invariant holds.\<close>

lemma anywhere:
  assumes "delivers view R I E P t" and "stands R I P" and "P (view w)" and "run_among view R (t, w) c"
  shows "I (view (snd c))"
proof -
  let ?R = "\<lambda>s s' :: 'v \<times> unit. R (fst s) (fst s')" and ?I = "\<lambda>s :: 'v \<times> unit. I (fst s)"
  have "\<exists>P' g'. sat view ?R (\<lambda>_. ?I) (\<lambda>r s. case r of Inl _ \<Rightarrow> I (fst s) | Inr a \<Rightarrow> E a (fst s)) P' (fst c) \<and>
      withstands P' ?R \<and> P' (view (snd c), g') \<and> ?I (view (snd c), g')"
    by (rule run_among_sat [OF assms(4,1) [unfolded delivers_def], where g = "()"])
       (use assms(2,3) in \<open>auto simp: withstands_def stands_def intro: steady\<close>)
  then show ?thesis by auto
qed

end

end
