(* ===== verification/Concurrent_System.thy ===== *)
theory Concurrent_System
  imports Op_Threads Outcomes
begin

section \<open>All requests at once\<close>

text \<open>
  Every request of System, in any number and with their commands interleaved in any way, with
  services that may fail at any command. Sessions then work on rows they have read before
  others wrote them, so the bounds of the state machine of Lifecycle are not kept (see
  \<open>stale_start\<close> in Races); what is kept is \<open>sound_table\<close>: rows stay under their identifiers,
  idempotency keys stay unique, states stay in the enumeration, no job disappears and no job's
  request changes; and no pass of a worker ends with an exception.
\<close>

subsection \<open>What every command keeps\<close>

definition sound_table :: "table \<Rightarrow> bool" where
  "sound_table t \<longleftrightarrow> keyed_by_id t \<and> unique_keys t \<and> (\<forall>j \<in> ran t. status j \<in> range status_value)"

definition persists :: "table \<Rightarrow> table \<Rightarrow> bool" where
  "persists t t' \<longleftrightarrow> (\<forall>i j. t i = Some j \<longrightarrow> (\<exists>j'. t' i = Some j' \<and> same_request j j'))"

definition upkeep :: "store \<times> unit \<Rightarrow> store \<times> unit \<Rightarrow> bool" where
  "upkeep s s' \<longleftrightarrow>
     (sound_table (rows (fst s)) \<longrightarrow> sound_table (rows (fst s'))) \<and> persists (rows (fst s)) (rows (fst s'))"

lemma good_sound: "good_table t \<Longrightarrow> sound_table t"
  by (auto simp: good_table_def sound_table_def good_row_def)

lemma persists_refl [simp]: "persists t t"
  by (auto simp: persists_def same_request_def)

lemma same_request_trans: "same_request a b \<Longrightarrow> same_request b c \<Longrightarrow> same_request a c"
  by (simp add: same_request_def)

lemma persists_trans: "persists t u \<Longrightarrow> persists u v \<Longrightarrow> persists t v"
  unfolding persists_def by (meson same_request_trans)

text \<open>A write whose values do not depend on the columns that must stay.\<close>

fun benign :: "db_write \<Rightarrow> bool" where
  "benign (InsertJob j) \<longleftrightarrow> status j \<in> range status_value"
| "benign (UpdateJob i f) \<longleftrightarrow> (\<forall>j. same_request j (f j) \<and> status (f j) \<in> range status_value)"
| "benign (AddLog i l m) \<longleftrightarrow> True"

lemma benign_write:
  assumes "benign x" and "writable (x # xs) t"
  shows "(sound_table t \<longrightarrow> sound_table (row_write x t)) \<and> persists t (row_write x t)"
proof (cases x)
  case (InsertJob j)
  then have "\<not> insert_conflicts j t" using assms(2) by simp
  moreover have "persists t (t(job_id j \<mapsto> j))"
    using calculation by (auto simp: persists_def insert_conflicts_def same_request_def domIff)
  ultimately show ?thesis
    using InsertJob assms(1)
    by (auto simp: sound_table_def keyed_by_id_insert unique_keys_insert ran_def split: if_splits)
next
  case (UpdateJob i f)
  then obtain j where j: "t i = Some j" using assms(2) by auto
  have f: "same_request r (f r)" "status (f r) \<in> range status_value" for r using assms(1) UpdateJob by simp_all
  have "sound_table (t(i \<mapsto> f j))" if "sound_table t"
  proof -
    have "job_id (f j) = i" using that j f(1) [of j] by (auto simp: sound_table_def same_request_def dest: keyed_by_idD)
    moreover have "idempotency_key (f j) = idempotency_key j" using f(1) [of j] by (simp add: same_request_def)
    ultimately show ?thesis
      using that j f(2)
      by (auto simp: sound_table_def keyed_by_id_insert ran_def intro!: unique_keys_update split: if_splits)
  qed
  moreover have "persists t (t(i \<mapsto> f j))" using j f(1) by (auto simp: persists_def same_request_def)
  ultimately show ?thesis using UpdateJob j by simp
qed simp

lemma benign_writes:
  assumes "list_all benign ws" and "writable ws t"
  shows "(sound_table t \<longrightarrow> sound_table (row_writes ws t)) \<and> persists t (row_writes ws t)"
  using assms
proof (induction ws arbitrary: t)
  case (Cons x xs)
  have "writable xs (row_write x t)" using Cons.prems(2) by (cases x) simp_all
  with Cons.IH [OF _ this] benign_write [OF _ Cons.prems(2)] Cons.prems(1) show ?case
    by (auto intro: persists_trans)
qed simp

lemma status_value_range [simp]: "status_value s \<in> range status_value"
  by simp

lemma benign_lists:
  "list_all benign (fail_writes j msg t)" "list_all benign (retry_writes j msg t d)"
  "list_all benign (start_writes j source t)" "list_all benign (complete_writes A j r t)"
  "list_all benign (recover_fail_writes j t)" "list_all benign (recover_retry_writes j t d)"
  "list_all benign [UpdateJob i (\<lambda>r. r\<lparr>status := status_value CANCELLED\<rparr>)]"
  unfolding fail_writes_def retry_writes_def start_writes_def complete_writes_def recover_fail_writes_def
    recover_retry_writes_def
  by (simp_all add: same_request_def status_in_range)

subsection \<open>Threads that keep it\<close>

named_theorems safe_rules \<open>threads whose commands keep the table sound\<close>

text \<open>Every command of the thread is in \<open>upkeep\<close>, and its outcome is one of \<open>F\<close>.\<close>

definition safe :: "('w \<Rightarrow> store) \<Rightarrow> (exn + 'a \<Rightarrow> bool) \<Rightarrow> ('w, 'a) thread \<Rightarrow> bool" where
  "safe view F t \<longleftrightarrow> sat view upkeep upkeep (\<lambda>r _. F r) (\<lambda>_. True) t"

abbreviation any_outcome :: "exn + 'a \<Rightarrow> bool" where
  "any_outcome \<equiv> \<lambda>_. True"

lemma safe_return [safe_rules]: "F (Inr a) \<Longrightarrow> safe view F (return_thread a)"
  unfolding safe_def by (rule sat_return)

lemma safe_raise [safe_rules]: "F (Inl e) \<Longrightarrow> safe view F (raise_thread e)"
  unfolding safe_def by (rule sat_raise)

lemma safe_bind:
  assumes "safe view E m" and "\<And>a. E (Inr a) \<Longrightarrow> safe view F (k a)" and "\<And>e. E (Inl e) \<Longrightarrow> F (Inl e)"
  shows "safe view F (bind_thread m k)"
  unfolding safe_def
proof (rule sat_bind)
  show "sat view upkeep upkeep (\<lambda>r _. E r) (\<lambda>_. True) m" using assms(1) by (simp add: safe_def)
  have "sat view upkeep upkeep (\<lambda>r _. F r) (\<lambda>s. E (Inr a) \<and> True) (k a)" for a
    using assms(2) unfolding safe_def by (rule sat_fact)
  then show "sat view upkeep upkeep (\<lambda>r _. F r) (\<lambda>_. E (Inr a)) (k a)" for a by simp
qed (rule assms(3))

lemma safe_try:
  assumes "safe view E m" and "\<And>e. E (Inl e) \<Longrightarrow> safe view F (h e)" and "\<And>a. E (Inr a) \<Longrightarrow> F (Inr a)"
  shows "safe view F (try_thread m h)"
  unfolding safe_def
proof (rule sat_try)
  show "sat view upkeep upkeep (\<lambda>r _. E r) (\<lambda>_. True) m" using assms(1) by (simp add: safe_def)
  have "sat view upkeep upkeep (\<lambda>r _. F r) (\<lambda>s. E (Inl e) \<and> True) (h e)" for e
    using assms(2) unfolding safe_def by (rule sat_fact)
  then show "sat view upkeep upkeep (\<lambda>r _. F r) (\<lambda>_. E (Inl e)) (h e)" for e by simp
qed (rule assms(3))

lemmas safe_bind_any [safe_rules] = safe_bind [where E = any_outcome and F = any_outcome, OF _ _ TrueI]
lemmas safe_try_any [safe_rules] = safe_try [where E = any_outcome and F = any_outcome, OF _ _ TrueI]

lemma safe_if [safe_rules]: "(b \<Longrightarrow> safe view F m) \<Longrightarrow> (\<not> b \<Longrightarrow> safe view F n) \<Longrightarrow> safe view F (if b then m else n)"
  by simp

lemma safe_case_option [safe_rules]:
  "safe view F m \<Longrightarrow> (\<And>a. safe view F (f a)) \<Longrightarrow> safe view F (case x of None \<Rightarrow> m | Some a \<Rightarrow> f a)"
  by (simp split: option.split)

lemma safe_case_prod [safe_rules]: "(\<And>a b. safe view F (f a b)) \<Longrightarrow> safe view F (case x of (a, b) \<Rightarrow> f a b)"
  by (simp split: prod.split)

lemma safe_atomic:
  assumes "\<And>w. wp m (\<lambda>a w'. upkeep (view w, ()) (view w', ()) \<and> F (Inr a)) (\<lambda>e w'. upkeep (view w, ()) (view w', ()) \<and> F (Inl e)) w"
  shows "safe view F (atomic m)"
  unfolding safe_def by (rule sat_atomic) (auto simp: withstands_def intro: wp_mono [OF assms])

lemma safe_keeps: "keeps_db view m \<Longrightarrow> safe view any_outcome (atomic m)"
  by (rule safe_atomic) (auto simp: upkeep_def elim!: wp_keeps_db)

lemma safe_uuid [safe_rules]: "safe view any_outcome (uuid_thread s)"
  unfolding safe_def uuid_thread_def by (rule sat_finished) simp

lemma safe_each [safe_rules]: "(\<And>x. safe view any_outcome (f x)) \<Longrightarrow> safe view any_outcome (each_thread f xs)"
  by (induction xs) (auto intro: safe_rules)

lemma keeps_scalar [keeps_rules]: "keeps_db view (scalar_one_or_none xs)" "keeps_db view (scalar_one xs)"
  by (cases xs rule: scalar_one_or_none.cases; auto intro: keeps_rules)+

lemma keeps_executor_io [keeps_rules]: "keeps_db view (executor_io ty)"
  unfolding executor_io_def by (cases "get_executor ty") (auto intro: keeps_rules)

context services
begin

lemma safe_commit [safe_rules]: "list_all benign ws \<Longrightarrow> safe view any_outcome (atomic (db_commit A ws))"
  by (rule safe_atomic, rule wp_commit) (auto simp: upkeep_def committed_def dest: benign_writes)

lemma keeps_elapsed [keeps_rules]: "keeps_db view (record_elapsed A c t)"
  unfolding keeps_db_def by (auto intro!: wp_elapsed dest: data_eqD)

lemma keeps_execution [keeps_rules]: "keeps_db view (wait_for A secs (execute A cls jid pl))"
  unfolding keeps_db_def using executor.wp_wait_for [OF deadline_law] by (auto intro: wp_mono)

lemma keeps_backoff [keeps_rules]: "keeps_db view (calculate_backoff_with_jitter A a m)"
  unfolding calculate_backoff_with_jitter_def by (intro keeps_rules)

end

definition queued_result :: "exn + job \<Rightarrow> bool" where
  "queued_result r \<longleftrightarrow> (\<forall>j. r = Inr j \<longrightarrow> status j = ''queued'')"

definition benign_result :: "exn + db_write list \<Rightarrow> bool" where
  "benign_result r \<longleftrightarrow> (\<forall>ws. r = Inr ws \<longrightarrow> list_all benign ws)"

context services
begin

lemma safe_timed [safe_rules]: "keeps_db view m \<Longrightarrow> safe view any_outcome (timed_thread A c m)"
  unfolding timed_thread_def by ((rule safe_rules TrueI | assumption | rule safe_keeps, intro keeps_rules | erule safe_keeps)+)

lemma safe_enqueue [safe_rules]: "safe view any_outcome (enqueue_priority_thread A jid p typ)"
  unfolding enqueue_priority_thread_def priority_score_def
  by ((rule safe_rules TrueI keeps_rules | rule safe_keeps, intro keeps_rules)+)

lemma safe_enqueue_retry [safe_rules]: "safe view any_outcome (enqueue_retry_thread A jid u)"
  unfolding enqueue_retry_thread_def by (intro safe_rules keeps_rules)

lemma safe_claim_thread [safe_rules]: "safe view any_outcome (claim_thread A ms)"
proof (induction ms)
  case (Cons m ms)
  then show ?case
    by (auto intro!: safe_bind_any intro: safe_rules safe_keeps keeps_rules)
qed (auto intro: safe_rules)

lemma safe_claim_phase: "safe view any_outcome (claim_phase_thread A)"
  unfolding claim_phase_thread_def drain_thread_def requeue_thread_def next_thread_def dequeue_priority_thread_def
    dequeue_fifo_thread_def start_thread_def
  by ((rule safe_rules TrueI keeps_rules benign_lists | rule safe_keeps, intro keeps_rules)+)

lemma safe_failure [safe_rules]: "safe view any_outcome (failure_thread A jid msg)"
  unfolding failure_thread_def
  by ((rule safe_rules TrueI benign_lists | rule safe_keeps, intro keeps_rules)+)

lemma safe_run_job: "safe view any_outcome (run_job_thread A jid c)"
  unfolding run_job_thread_def complete_thread_def on_failure_thread_def
  by ((rule safe_rules TrueI benign_lists | rule safe_keeps, intro keeps_rules)+)

lemma safe_cancel: "safe view any_outcome (cancel_thread A i)"
  unfolding cancel_thread_def remove_thread_def
  by ((rule safe_rules TrueI benign_lists | rule safe_keeps, intro keeps_rules)+)

lemma safe_recover_one: "safe view benign_result (recover_one_thread A j)"
  unfolding recover_one_thread_def
  by ((rule safe_bind [where E = any_outcome] safe_if safe_enqueue_retry | rule safe_return |
       rule safe_keeps, intro keeps_rules | simp add: benign_result_def benign_lists)+)

lemma safe_recover_each: "safe view benign_result (recover_each_thread A js)"
proof (induction js)
  case Nil
  then show ?case by (auto simp: benign_result_def intro: safe_rules)
next
  case (Cons j js)
  show ?case
    unfolding recover_each_thread.simps
    by (rule safe_bind [OF safe_recover_one], rule safe_bind [OF Cons]) (auto simp: benign_result_def intro: safe_rules)
qed

lemma safe_recovery: "safe view any_outcome (recovery_thread A m)"
proof -
  have each: "safe view any_outcome (bind_thread (recover_each_thread A js) (\<lambda>ws. atomic (db_commit A ws)))" for js
    by (rule safe_bind [OF safe_recover_each]) (simp_all add: benign_result_def safe_commit)
  show ?thesis
    unfolding recovery_thread_def
    by ((rule each safe_bind_any safe_if safe_return TrueI | assumption | rule safe_keeps, intro keeps_rules)+)
qed

lemma safe_flush: "status r = ''queued'' \<Longrightarrow> safe view queued_result (atomic (db_flush_new A r))"
  by (rule safe_atomic, rule wp_flush) (auto simp: upkeep_def queued_result_def)

lemma safe_create_new: "safe view any_outcome (create_new_thread A jc)"
proof -
  have body: "safe view any_outcome
      (bind_thread (atomic (db_flush_new A (new_job i 0 (jc_type jc) (payload_with_trace (jc_payload jc) tp)
                                  (jc_priority jc) (jc_idempotency_key jc) (jc_max_attempts jc)))) (\<lambda>job.
        bind_thread (enqueue_priority_thread A (str_uuid (job_id job)) (priority job) '''') (\<lambda>_.
        bind_thread (atomic (db_commit A [InsertJob job])) (\<lambda>_.
        bind_thread (atomic (count_io A ''jobs_created'' 1 [(''job_type'', job_type job), (''priority'', priority job)])) (\<lambda>_.
        return_thread (job, True))))))" for i tp
  proof (rule safe_bind [OF safe_flush])
    fix job
    assume "queued_result (Inr job)"
    then have ins: "list_all benign [InsertJob job]" by (simp add: queued_result_def status_in_range)
    show "safe view any_outcome
       (bind_thread (enqueue_priority_thread A (str_uuid (job_id job)) (priority job) '''') (\<lambda>_.
        bind_thread (atomic (db_commit A [InsertJob job])) (\<lambda>_.
        bind_thread (atomic (count_io A ''jobs_created'' 1 [(''job_type'', job_type job), (''priority'', priority job)])) (\<lambda>_.
        return_thread (job, True)))))"
      by ((rule safe_bind_any safe_enqueue safe_commit [OF ins] safe_return TrueI | rule safe_keeps, intro keeps_rules)+)
  qed simp_all
  show ?thesis
    unfolding create_new_thread_def
    by ((rule body safe_bind_any safe_try_any safe_return safe_raise safe_if TrueI | rule safe_keeps, intro keeps_rules)+)
qed

lemma safe_create: "safe view any_outcome (create_thread A jc)"
  unfolding create_thread_def lookup_thread_def
  by ((rule safe_rules TrueI safe_create_new | rule safe_keeps, intro keeps_rules)+)

lemma safe_attempt:
  assumes "safe view any_outcome m" shows "safe view (\<lambda>r. r = Inr ()) (attempt_thread m)"
  unfolding attempt_thread_def
proof (rule safe_try [where E = any_outcome])
  show "safe view any_outcome (bind_thread m (\<lambda>_. return_thread ()))" by (intro safe_bind_any assms safe_return TrueI)
qed (auto intro: safe_return)

lemma safe_read:
  assumes "reads view m" shows "safe view (\<lambda>r. r = Inr ()) (atomic (attempt m))"
proof (rule safe_atomic)
  fix w
  have "wp (attempt m) (\<lambda>_ w'. view w' = view w) (\<lambda>_ _. False) w"
    using assms unfolding wp_attempt reads_def by (auto intro: wp_mono)
  then show "wp (attempt m) (\<lambda>a w'. upkeep (view w, ()) (view w', ()) \<and> Inr a = Inr ())
      (\<lambda>e w'. upkeep (view w, ()) (view w', ()) \<and> Inl e = Inr ()) w"
    by (rule wp_mono) (auto simp: upkeep_def)
qed

lemma safe_request: "safe view (\<lambda>r. r = Inr ()) (request_thread A r)"
proof -
  have quiet: "safe view (\<lambda>r. r = Inr ()) (atomic (count_io A n i ats))" "safe view (\<lambda>r. r = Inr ()) (atomic (do_io (nap A d)))" for n i ats d
    by (rule safe_atomic, rule wp_count wp_nap, simp add: upkeep_def)+
  show ?thesis
  proof (cases r)
    case (Create limited jc)
    have "safe view any_outcome (create_endpoint_thread A limited jc)"
      unfolding create_endpoint_thread_def by ((rule safe_rules TrueI safe_create)+)
    then show ?thesis by (simp add: Create safe_attempt)
  next
    case (Cancel i)
    have "safe view any_outcome (cancel_endpoint_thread A i)"
      unfolding cancel_endpoint_thread_def by ((rule safe_rules TrueI safe_cancel)+)
    then show ?thesis by (simp add: Cancel safe_attempt)
  next
    case WorkerPass
    have "safe view any_outcome (bind_thread (claim_phase_thread A)
        (\<lambda>r. case r of None \<Rightarrow> return_thread () | Some (jid, c) \<Rightarrow> run_job_thread A jid c))"
      by ((rule safe_rules TrueI safe_claim_phase safe_run_job)+)
    then show ?thesis
      unfolding WorkerPass request_thread.simps pass_thread_def
      by (rule safe_try) (auto intro!: safe_bind [OF quiet(1)] quiet(2))
  qed (simp_all add: safe_attempt safe_claim_phase safe_run_job safe_recovery safe_read reads_endpoints)
qed

end

text \<open>Requests side by side.\<close>

lemma requests_upkeep:
  assumes "services A view" and "sound_table (rows (view w))"
    and "par_step\<^sup>*\<^sup>* (map (request_thread A) rs, w) (ts, w')"
  shows "sound_table (rows (view w')) \<and> persists (rows (view w)) (rows (view w')) \<and>
     (\<forall>k < length ts. \<forall>e. ts ! k \<noteq> Finished (Inl e))"
proof -
  let ?R = "\<lambda>_. upkeep" and ?Q = "\<lambda>_ r _. r = Inr ()"
  let ?I = "\<lambda>s. sound_table (rows (fst s)) \<and> persists (rows (view w)) (rows (fst s))"
  have "team view ?R ?R ?Q () (map (request_thread A) rs, w)"
    using services.safe_request [OF assms(1)] by (auto simp: team_def safe_def withstands_def intro!: exI [of _ "\<lambda>_. True"])
  then have "\<exists>g. team view ?R ?R ?Q g (ts, w') \<and> ?I (view (snd (ts, w')), g)"
    by (rule team_steps [OF assms(3)]) (auto simp: assms(2) upkeep_def intro: persists_trans)
  then have team: "team view ?R ?R ?Q () (ts, w')" and i: "?I (view w', ())" by auto
  have "ts ! k \<noteq> Finished (Inl e)" if k: "k < length ts" for k e
  proof
    assume e: "ts ! k = Finished (Inl e)"
    obtain P where "sat view upkeep upkeep (\<lambda>r _. r = Inr ()) P (ts ! k)" "P (view w', ())"
      using team [unfolded team_def fst_conv snd_conv] k by blast
    then show False unfolding e by (auto dest: sat_finishedD)
  qed
  with i show ?thesis by auto
qed

subsection \<open>Properties\<close>

text \<open>
  C8: The table under any interleaving. Let any requests run at once, creations,
  cancellations, claims, executions, whole passes of workers, recoveries and reads, their
  commands interleaved in any way, with services that may fail at every command. Every run
  ends. At every moment of it the rows are keyed by their identifiers, no two share an
  idempotency key, every status is one of the five, and each job that was there is there, with
  its request unchanged; and no pass of a worker has ended with an exception (those of the
  other requests are taken by their callers, as in System).
\<close>
theorem concurrent_requests:
  assumes "services A view" and "sound_table (rows (view w))"
  shows "(\<forall>r. run (request_thread A r) = run_request A r) \<and>
     \<not> (\<exists>c. c 0 = (map (request_thread A) rs, w) \<and> (\<forall>i. par_step (c i) (c (Suc i)))) \<and>
     (\<forall>ts w'. par_step\<^sup>*\<^sup>* (map (request_thread A) rs, w) (ts, w') \<longrightarrow>
        sound_table (rows (view w')) \<and> persists (rows (view w)) (rows (view w')) \<and>
        (\<forall>k < length ts. \<forall>e. ts ! k \<noteq> Finished (Inl e)))"
proof (intro conjI allI impI, goal_cases)
  case (1 r)
  show ?case by (rule run_request_thread)
next
  case 2
  show ?case by (rule runs_end)
next
  case (3 ts w')
  then show ?case using requests_upkeep [OF assms] by blast
next
  case (4 ts w')
  then show ?case using requests_upkeep [OF assms] by blast
next
  case (5 ts w' k e)
  then show ?case using requests_upkeep [OF assms] by blast
qed

theorem concurrent_requests_witness:
  "\<exists>ts w' j. par_step\<^sup>*\<^sup>* (map (request_thread (mem_app True)) [WorkerPass, Cancel 7, Recover 5], busy_mem [False, True])
       (ts, w') \<and> \<not> (\<exists>d. par_step (ts, w') d) \<and> (\<forall>k < length ts. \<forall>e. ts ! k \<noteq> Finished (Inl e)) \<and>
     sound_table (rows (mem_view w')) \<and> rows (mem_view w') 7 = Some j \<and> same_request sample_row j"
proof -
  let ?c = "(map (request_thread (mem_app True)) [WorkerPass, Cancel 7, Recover 5], busy_mem [False, True])"
  obtain ts w' where run: "par_step\<^sup>*\<^sup>* ?c (ts, w')" and fin: "\<not> (\<exists>d. par_step (ts, w') d)"
    using some_end [of ?c] by auto
  have kept: "sound_table (rows (mem_view w')) \<and> persists (rows (mem_view (busy_mem [False, True]))) (rows (mem_view w')) \<and>
      (\<forall>k < length ts. \<forall>e. ts ! k \<noteq> Finished (Inl e))"
    by (rule concurrent_requests [OF mem_services good_sound [OF sample_good], THEN conjunct2, THEN conjunct2, rule_format, OF run])
  have "rows (mem_view (busy_mem [False, True])) 7 = Some sample_row" by (simp add: busy_mem_def)
  then obtain j where "rows (mem_view w') 7 = Some j" "same_request sample_row j"
    using kept unfolding persists_def by blast
  then show ?thesis using run fin kept by blast
qed

end
