(* ===== verification/Clients.thy ===== *)
theory Clients
  imports Config
begin

section \<open>app/db/session.py and app/queue/client.py: the connections of a process\<close>

text \<open>
  The engine, the session factory, the Redis pool and the settings are created on first use
  and kept in module variables: the record \<open>clients\<close>. What SQLAlchemy and redis-py do is an
  event; \<open>fails\<close> says which of these calls raise, and an object is identified by the
  position of the event that made it. \<open>clients_ok\<close> is the invariant: at most one engine and
  one factory are ever made, and a Redis pool is made only when the one before it is closed.
\<close>

datatype client_event =
    Settings_Read
  | Engine_Created string bool nat nat
  | Factory_Created nat
  | Pool_Created string bool nat
  | Pool_Closed nat
  | Session_Opened nat
  | Session_Closed nat
  | Engine_Disposed nat

record clients =
  settings_cache :: "settings option"
  db_engine :: "nat option"
  session_factory :: "nat option"
  redis_pool :: "nat option"
  client_events :: "client_event list"

definition no_clients :: clients where
  "no_clients = \<lparr>settings_cache = None, db_engine = None, session_factory = None, redis_pool = None, client_events = []\<rparr>"

text \<open>The libraries: what pydantic finds in the environment, and which calls raise.\<close>

record libraries =
  environment :: "nat \<Rightarrow> setting_sources"
  fails :: "client_event \<Rightarrow> nat \<Rightarrow> exn option"

definition happen :: "libraries \<Rightarrow> client_event \<Rightarrow> (clients, nat) io" where
  "happen L e C =
     (case fails L e (length (client_events C)) of
        Some x \<Rightarrow> (Inl x, C)
      | None \<Rightarrow> (Inr (length (client_events C)), C\<lparr>client_events := client_events C @ [e]\<rparr>))"

subsection \<open>The operations\<close>

text \<open>\<open>@lru_cache\<close>: a raised exception is not cached.\<close>

definition get_settings :: "libraries \<Rightarrow> (clients, settings) io" where
  "get_settings L C =
     (case settings_cache C of
        Some S \<Rightarrow> (Inr S, C)
      | None \<Rightarrow>
          (case Settings_init (environment L (length (client_events C))) of
             Inl e \<Rightarrow> (Inl e, C)
           | Inr S \<Rightarrow> (Inr S, C\<lparr>settings_cache := Some S, client_events := client_events C @ [Settings_Read]\<rparr>)))"

definition get_engine :: "libraries \<Rightarrow> (clients, nat) io" where
  "get_engine L C =
     (case db_engine C of
        Some h \<Rightarrow> (Inr h, C)
      | None \<Rightarrow>
          bind_io (get_settings L) (\<lambda>S.
          bind_io (happen L (Engine_Created (database_url S) True 10 20)) (\<lambda>h.
          seq_io (do_io (\<lambda>C. C\<lparr>db_engine := Some h\<rparr>)) (return_io h))) C)"

definition get_session_factory :: "libraries \<Rightarrow> (clients, nat) io" where
  "get_session_factory L C =
     (case session_factory C of
        Some h \<Rightarrow> (Inr h, C)
      | None \<Rightarrow>
          bind_io (get_engine L) (\<lambda>e.
          bind_io (happen L (Factory_Created e)) (\<lambda>h.
          seq_io (do_io (\<lambda>C. C\<lparr>session_factory := Some h\<rparr>)) (return_io h))) C)"

text \<open>
  \<open>async with AsyncSessionLocal() as session: block\<close>, inside a coroutine whose state has the
  module variables as one part. \<open>get_db\<close> is the same for FastAPI's dependency, whose block is
  the request's handler.
\<close>

definition async_session_local ::
  "('v \<Rightarrow> clients) \<Rightarrow> (clients \<Rightarrow> 'v \<Rightarrow> 'v) \<Rightarrow> libraries \<Rightarrow> (nat \<Rightarrow> ('v, 'a) io) \<Rightarrow> ('v, 'a) io" where
  "async_session_local part put L block =
     bind_io (on_part part put (get_session_factory L)) (\<lambda>factory.
     bind_io (on_part part put (happen L (Session_Opened factory))) (\<lambda>session.
     try_finally (block session) (seq_io (on_part part put (happen L (Session_Closed session))) (return_io ()))))"

definition get_db ::
  "('v \<Rightarrow> clients) \<Rightarrow> (clients \<Rightarrow> 'v \<Rightarrow> 'v) \<Rightarrow> libraries \<Rightarrow> (nat \<Rightarrow> ('v, 'a) io) \<Rightarrow> ('v, 'a) io" where
  "get_db part put L handler =
     bind_io (on_part part put (get_session_factory L)) (\<lambda>factory.
     bind_io (on_part part put (happen L (Session_Opened factory))) (\<lambda>session.
     try_finally (handler session) (seq_io (on_part part put (happen L (Session_Closed session))) (return_io ()))))"

definition get_redis_pool :: "libraries \<Rightarrow> (clients, nat) io" where
  "get_redis_pool L C =
     (case redis_pool C of
        Some h \<Rightarrow> (Inr h, C)
      | None \<Rightarrow>
          bind_io (get_settings L) (\<lambda>S.
          bind_io (happen L (Pool_Created (redis_url S) True 20)) (\<lambda>h.
          seq_io (do_io (\<lambda>C. C\<lparr>redis_pool := Some h\<rparr>)) (return_io h))) C)"

definition close_redis_pool :: "libraries \<Rightarrow> (clients, unit) io" where
  "close_redis_pool L C =
     (case redis_pool C of
        None \<Rightarrow> (Inr (), C)
      | Some h \<Rightarrow> seq_io (happen L (Pool_Closed h)) (do_io (\<lambda>C. C\<lparr>redis_pool := None\<rparr>)) C)"

definition get_redis :: "libraries \<Rightarrow> (clients, nat) io" where
  "get_redis L = get_redis_pool L"

subsection \<open>The invariant\<close>

fun is_engine :: "client_event \<Rightarrow> bool" where
  "is_engine (Engine_Created _ _ _ _) = True"
| "is_engine _ = False"

fun is_factory :: "client_event \<Rightarrow> bool" where
  "is_factory (Factory_Created _) = True"
| "is_factory _ = False"

text \<open>The positions of the events of a kind.\<close>

fun made :: "(client_event \<Rightarrow> bool) \<Rightarrow> nat \<Rightarrow> client_event list \<Rightarrow> nat list" where
  "made p n [] = []"
| "made p n (e # es) = (if p e then n # made p (Suc n) es else made p (Suc n) es)"

text \<open>The pools that were made and not closed.\<close>

fun open_pools :: "nat \<Rightarrow> client_event list \<Rightarrow> nat list \<Rightarrow> nat list" where
  "open_pools n [] ps = ps"
| "open_pools n (e # es) ps = open_pools (Suc n) es
     (case e of Pool_Created _ _ _ \<Rightarrow> n # ps | Pool_Closed h \<Rightarrow> removeAll h ps | _ \<Rightarrow> ps)"

text \<open>The sessions that were opened and not closed.\<close>

fun open_sessions :: "nat \<Rightarrow> client_event list \<Rightarrow> nat list \<Rightarrow> nat list" where
  "open_sessions n [] ss = ss"
| "open_sessions n (e # es) ss = open_sessions (Suc n) es
     (case e of Session_Opened _ \<Rightarrow> n # ss | Session_Closed h \<Rightarrow> removeAll h ss | _ \<Rightarrow> ss)"

definition live :: "clients \<Rightarrow> nat list" where
  "live C = open_sessions 0 (client_events C) []"

definition held :: "nat option \<Rightarrow> nat list" where
  "held x = (case x of None \<Rightarrow> [] | Some h \<Rightarrow> [h])"

definition clients_ok :: "clients \<Rightarrow> bool" where
  "clients_ok C \<longleftrightarrow>
     made is_engine 0 (client_events C) = held (db_engine C) \<and>
     made is_factory 0 (client_events C) = held (session_factory C) \<and>
     open_pools 0 (client_events C) [] = held (redis_pool C)"

lemma held_simps [simp]: "held None = []" "held (Some h) = [h]"
  by (simp_all add: held_def)

lemma made_append: "made p n (es @ [e]) = made p n es @ (if p e then [n + length es] else [])"
  by (induction es arbitrary: n) auto

lemma open_pools_append:
  "open_pools n (es @ [e]) ps = (case e of Pool_Created _ _ _ \<Rightarrow> (n + length es) # open_pools n es ps
     | Pool_Closed h \<Rightarrow> removeAll h (open_pools n es ps) | _ \<Rightarrow> open_pools n es ps)"
  by (induction es arbitrary: n ps) (auto split: client_event.split)

lemma open_sessions_append:
  "open_sessions n (es @ [e]) ss = (case e of Session_Opened _ \<Rightarrow> (n + length es) # open_sessions n es ss
     | Session_Closed h \<Rightarrow> removeAll h (open_sessions n es ss) | _ \<Rightarrow> open_sessions n es ss)"
  by (induction es arbitrary: n ss) (auto split: client_event.split)

lemma live_append:
  "live (C\<lparr>client_events := client_events C @ [e]\<rparr>) = (case e of Session_Opened _ \<Rightarrow> length (client_events C) # live C
     | Session_Closed h \<Rightarrow> removeAll h (live C) | _ \<Rightarrow> live C)"
  by (simp add: live_def open_sessions_append split: client_event.split)

lemma live_sel [simp]:
  "live (C\<lparr>settings_cache := x\<rparr>) = live C" "live (C\<lparr>db_engine := y\<rparr>) = live C"
  "live (C\<lparr>session_factory := y\<rparr>) = live C" "live (C\<lparr>redis_pool := y\<rparr>) = live C"
  by (simp_all add: live_def)

lemma open_sessions_below: "h \<in> set (open_sessions n es ss) \<Longrightarrow> h \<in> set ss \<or> h < n + length es"
  by (induction es arbitrary: n ss) (fastforce split: client_event.splits)+

lemma live_below: "h \<in> set (live C) \<Longrightarrow> h < length (client_events C)"
  using open_sessions_below [of h 0 "client_events C" "[]"] by (simp add: live_def)

lemma clients_start: "clients_ok no_clients"
  by (simp add: clients_ok_def no_clients_def)

text \<open>The contract of each operation: the invariant, and what it hands out is what is held.\<close>

lemmas event_simps = clients_ok_def made_append open_pools_append live_def open_sessions_append

lemma happen_cases:
  "wp (happen L e) Q X C \<longleftrightarrow>
     (case fails L e (length (client_events C)) of Some x \<Rightarrow> X x C
      | None \<Rightarrow> Q (length (client_events C)) (C\<lparr>client_events := client_events C @ [e]\<rparr>))"
  by (simp add: wp_def happen_def split: option.split)

lemma wp_get_settings:
  assumes "clients_ok C" and "\<And>S C'. clients_ok C' \<Longrightarrow> settings_cache C' = Some S \<Longrightarrow> db_engine C' = db_engine C \<Longrightarrow>
      session_factory C' = session_factory C \<Longrightarrow> redis_pool C' = redis_pool C \<Longrightarrow>
      live C' = live C \<Longrightarrow> Q S C'"
    and "\<And>e. X e C"
  shows "wp (get_settings L) Q X C"
  unfolding wp_def get_settings_def using assms
  by (auto simp: event_simps split: option.split sum.split)

lemma wp_get_engine:
  assumes "clients_ok C" and "\<And>h C'. clients_ok C' \<Longrightarrow> db_engine C' = Some h \<Longrightarrow> (db_engine C \<noteq> None \<Longrightarrow> C' = C) \<Longrightarrow>
      session_factory C' = session_factory C \<Longrightarrow> redis_pool C' = redis_pool C \<Longrightarrow>
      live C' = live C \<Longrightarrow> Q h C'"
    and "\<And>e C'. clients_ok C' \<Longrightarrow> db_engine C' = db_engine C \<Longrightarrow> session_factory C' = session_factory C \<Longrightarrow>
      redis_pool C' = redis_pool C \<Longrightarrow> live C' = live C \<Longrightarrow> X e C'"
  shows "wp (get_engine L) Q X C"
proof (cases "db_engine C")
  case (Some h)
  then show ?thesis using assms(1,2) by (simp add: wp_def get_engine_def)
next
  case None
  have "wp (bind_io (get_settings L) (\<lambda>S.
          bind_io (happen L (Engine_Created (database_url S) True 10 20)) (\<lambda>h.
          seq_io (do_io (\<lambda>C. C\<lparr>db_engine := Some h\<rparr>)) (return_io h)))) Q X C"
    unfolding wp_bind
    by (rule wp_get_settings [OF assms(1)])
       (use None in \<open>auto simp: happen_cases wp_simps event_simps intro!: assms(2,3) assms(1) split: option.split\<close>)
  then show ?thesis using None by (simp add: wp_def get_engine_def)
qed

lemma wp_get_session_factory:
  assumes "clients_ok C" and "\<And>h C'. clients_ok C' \<Longrightarrow> session_factory C' = Some h \<Longrightarrow>
      (session_factory C \<noteq> None \<Longrightarrow> C' = C) \<Longrightarrow> redis_pool C' = redis_pool C \<Longrightarrow>
      live C' = live C \<Longrightarrow> Q h C'"
    and "\<And>e C'. clients_ok C' \<Longrightarrow> session_factory C' = session_factory C \<Longrightarrow> redis_pool C' = redis_pool C \<Longrightarrow>
      live C' = live C \<Longrightarrow> X e C'"
  shows "wp (get_session_factory L) Q X C"
proof (cases "session_factory C")
  case (Some h)
  then show ?thesis using assms(1,2) by (simp add: wp_def get_session_factory_def)
next
  case None
  have "wp (bind_io (get_engine L) (\<lambda>e.
          bind_io (happen L (Factory_Created e)) (\<lambda>h.
          seq_io (do_io (\<lambda>C. C\<lparr>session_factory := Some h\<rparr>)) (return_io h)))) Q X C"
    unfolding wp_bind
    by (rule wp_get_engine [OF assms(1)])
       (use None in \<open>auto simp: happen_cases wp_simps event_simps intro!: assms(2,3) split: option.split\<close>)
  then show ?thesis using None by (simp add: wp_def get_session_factory_def)
qed

lemma wp_get_redis_pool:
  assumes "clients_ok C" and "\<And>h C'. clients_ok C' \<Longrightarrow> redis_pool C' = Some h \<Longrightarrow> (redis_pool C \<noteq> None \<Longrightarrow> C' = C) \<Longrightarrow>
      db_engine C' = db_engine C \<Longrightarrow> session_factory C' = session_factory C \<Longrightarrow> Q h C'"
    and "\<And>e C'. clients_ok C' \<Longrightarrow> redis_pool C' = redis_pool C \<Longrightarrow> X e C'"
  shows "wp (get_redis_pool L) Q X C"
proof (cases "redis_pool C")
  case (Some h)
  then show ?thesis using assms(1,2) by (simp add: wp_def get_redis_pool_def)
next
  case None
  have "wp (bind_io (get_settings L) (\<lambda>S.
          bind_io (happen L (Pool_Created (redis_url S) True 20)) (\<lambda>h.
          seq_io (do_io (\<lambda>C. C\<lparr>redis_pool := Some h\<rparr>)) (return_io h)))) Q X C"
    unfolding wp_bind
    by (rule wp_get_settings [OF assms(1)])
       (use None in \<open>auto simp: happen_cases wp_simps event_simps intro!: assms(2,3) assms(1) split: option.split\<close>)
  then show ?thesis using None by (simp add: wp_def get_redis_pool_def)
qed

lemma wp_close_redis_pool:
  assumes "clients_ok C" and "\<And>C'. clients_ok C' \<Longrightarrow> redis_pool C' = None \<Longrightarrow>
      db_engine C' = db_engine C \<Longrightarrow> session_factory C' = session_factory C \<Longrightarrow> Q () C'"
    and "\<And>e. redis_pool C \<noteq> None \<Longrightarrow> X e C"
  shows "wp (close_redis_pool L) Q X C"
proof (cases "redis_pool C")
  case None
  then show ?thesis using assms(1,2) by (simp add: wp_def close_redis_pool_def)
next
  case (Some h)
  have "wp (seq_io (happen L (Pool_Closed h)) (do_io (\<lambda>C. C\<lparr>redis_pool := None\<rparr>))) Q X C"
    using assms(1) Some
    by (auto simp: happen_cases wp_simps event_simps intro!: assms(2,3) split: option.split)
  then show ?thesis using Some by (simp add: wp_def close_redis_pool_def)
qed

text \<open>A session is closed on every way out of its block.\<close>

lemma async_session_closed:
  assumes "\<And>x n. fails L (Session_Closed x) n = None" and C: "clients_ok C"
    and block: "\<And>s C'. clients_ok C' \<Longrightarrow>
      wp (block s) (\<lambda>_ C''. clients_ok C'' \<and> live C'' = live C') (\<lambda>_ C''. clients_ok C'' \<and> live C'' = live C') C'"
  shows "wp (async_session_local id (\<lambda>C _. C) L block) (\<lambda>_ C'. clients_ok C' \<and> live C' = live C)
     (\<lambda>_ C'. clients_ok C' \<and> live C' = live C) C"
  unfolding async_session_local_def on_part_whole wp_bind
proof (rule wp_get_session_factory [OF C])
  fix h C1
  assume c1: "clients_ok C1" and l1: "live C1 = live C"
  let ?n = "length (client_events C1)"
  let ?C2 = "C1\<lparr>client_events := client_events C1 @ [Session_Opened h]\<rparr>"
  have l2: "live ?C2 = ?n # live C1" and c2: "clients_ok ?C2"
    using c1 by (simp_all add: event_simps)
  have drop: "removeAll ?n (live C1) = live C" using live_below [of ?n C1] l1 by (auto intro: removeAll_id)
  have close: "wp (seq_io (happen L (Session_Closed ?n)) (return_io ())) (\<lambda>_ C'. clients_ok C' \<and> live C' = live C) X C''"
    if "clients_ok C''" "live C'' = live ?C2" for C'' X
  proof -
    have "live (C''\<lparr>client_events := client_events C'' @ [Session_Closed ?n]\<rparr>) = live C"
      by (simp add: live_append that(2) l2 drop)
    moreover have "clients_ok (C''\<lparr>client_events := client_events C'' @ [Session_Closed ?n]\<rparr>)"
      using that(1) by (simp add: clients_ok_def made_append open_pools_append)
    ultimately show ?thesis by (simp add: wp_simps happen_cases assms(1))
  qed
  show "wp (happen L (Session_Opened h)) (\<lambda>a. wp (try_finally (block a)
         (seq_io (happen L (Session_Closed a)) (return_io ()))) (\<lambda>_ C'. clients_ok C' \<and> live C' = live C)
         (\<lambda>_ C'. clients_ok C' \<and> live C' = live C)) (\<lambda>_ C'. clients_ok C' \<and> live C' = live C) C1"
    unfolding happen_cases
    using c1 l1 by (auto simp: wp_try_finally intro!: wp_mono [OF block [OF c2]] close split: option.split)
qed (auto simp: C)

subsection \<open>Any use of the connections\<close>

datatype client_op = Use_Settings | Use_Engine | Use_Factory | Use_Redis | Close_Redis

fun run_client :: "libraries \<Rightarrow> client_op \<Rightarrow> (clients, unit) io" where
  "run_client L Use_Settings = seq_io (get_settings L) (return_io ())"
| "run_client L Use_Engine = seq_io (get_engine L) (return_io ())"
| "run_client L Use_Factory = seq_io (get_session_factory L) (return_io ())"
| "run_client L Use_Redis = seq_io (get_redis_pool L) (return_io ())"
| "run_client L Close_Redis = close_redis_pool L"

lemma run_client_ok:
  assumes "clients_ok C"
  shows "wp (try_except (run_client L op) (\<lambda>_. return_io ())) (\<lambda>_. clients_ok) (\<lambda>_ _. False) C"
  using assms
  by (cases op) (auto simp: wp_simps intro!: wp_get_settings wp_get_engine wp_get_session_factory wp_get_redis_pool
      wp_close_redis_pool)

text \<open>
  One engine, one pool. However often and in whatever order a process asks for its
  settings, engine, sessions and Redis client, closes the pool, and whichever of these calls
  raise, it never makes a second engine or session factory, at most one Redis pool is open
  at a time, and the module variables hold exactly the live objects.
\<close>
lemma clients_singletons:
  "wp (for_each (\<lambda>op. try_except (run_client L op) (\<lambda>_. return_io ())) ops)
     (\<lambda>_ C. length (made is_engine 0 (client_events C)) \<le> 1 \<and> length (made is_factory 0 (client_events C)) \<le> 1 \<and>
            length (open_pools 0 (client_events C) []) \<le> 1 \<and> clients_ok C)
     (\<lambda>_ _. False) no_clients"
proof -
  have "wp (for_each (\<lambda>op. try_except (run_client L op) (\<lambda>_. return_io ())) ops) (\<lambda>_. clients_ok) (\<lambda>_ _. False) no_clients"
    by (rule wp_for_each [where Inv = "\<lambda>_. clients_ok"]) (auto intro: run_client_ok clients_start)
  then show ?thesis by (rule wp_mono) (auto simp: clients_ok_def held_def split: option.split)
qed

end
