(* ===== verification/Gauges.thy ===== *)
theory Gauges
  imports Api
begin

section \<open>The background tasks that feed the gauges (app/main.py, app/worker/main.py)\<close>

text \<open>
  The API process polls the queues and the database pool in two tasks, the worker polls both
  in one. \<open>poll_queue_depths\<close>, \<open>poll_db_pool\<close> and \<open>poll_queues_and_pools\<close> are one pass of
  each loop. They write the module state of the telemetry, which stands beside the world of
  the services in \<open>metered\<close>. The figures of SQLAlchemy's pool are a parameter, \<open>pool_api\<close>:
  reading them does not touch Redis or the database, and may raise.
\<close>

record 'w metered =
  telemetry_state :: telemetry
  rest :: 'w

abbreviation rest_io :: "('w, 'a) io \<Rightarrow> ('w metered, 'a) io" where
  "rest_io \<equiv> on_part rest (\<lambda>w s. s\<lparr>rest := w\<rparr>)"

definition set_gauge_io :: "string \<Rightarrow> attrs \<Rightarrow> rat \<Rightarrow> ('w metered, unit) io" where
  "set_gauge_io metric attrs v s =
     (case set_gauge metric attrs v (telemetry_state s) of
        Inl e \<Rightarrow> (Inl e, s)
      | Inr T \<Rightarrow> (Inr (), s\<lparr>telemetry_state := T\<rparr>))"

record 'w pool_api =
  pool_of_engine :: "('w, unit) io"
  checked_out :: "('w, int) io"
  checked_in :: "('w, int) io"
  overflow :: "('w, int) io"

text \<open>\<open>float(n)\<close>\<close>

definition py_float :: "int \<Rightarrow> rat" where
  "py_float n = fl (of_int n)"

subsection \<open>app/main.py\<close>

definition poll_queue_depths :: "'w app \<Rightarrow> ('w metered, unit) io" where
  "poll_queue_depths A =
     seq_io
       (try_except
          (bind_io (rest_io (zcard A PRIORITY_KEY)) (\<lambda>priority_depth.
           bind_io (rest_io (llen A FIFO_KEY)) (\<lambda>fifo_depth.
           bind_io (rest_io (zcard A RETRY_KEY)) (\<lambda>retry_depth.
           seq_io (set_gauge_io ''queue_depth'' [(''queue_name'', ''priority'')] (py_float (int priority_depth)))
           (seq_io (set_gauge_io ''queue_depth'' [(''queue_name'', ''fifo'')] (py_float (int fifo_depth)))
           (set_gauge_io ''queue_depth'' [(''queue_name'', ''retry'')] (py_float (int retry_depth))))))))
          (\<lambda>_. return_io ()))
       (rest_io (do_io (nap A 15)))"

definition poll_db_pool :: "'w app \<Rightarrow> 'w pool_api \<Rightarrow> ('w metered, unit) io" where
  "poll_db_pool A P =
     seq_io
       (try_except
          (seq_io (rest_io (pool_of_engine P))
          (bind_io (rest_io (checked_out P)) (\<lambda>out.
           bind_io (rest_io (checked_in P)) (\<lambda>inn.
           bind_io (rest_io (overflow P)) (\<lambda>over.
           seq_io (set_gauge_io ''db_pool_size'' [(''state'', ''checked_out'')] (py_float out))
           (seq_io (set_gauge_io ''db_pool_size'' [(''state'', ''checked_in'')] (py_float inn))
           (set_gauge_io ''db_pool_size'' [(''state'', ''overflow'')] (py_float (max over 0)))))))))
          (\<lambda>_. return_io ()))
       (rest_io (do_io (nap A 15)))"

subsection \<open>app/worker/main.py\<close>

definition worker_queue_gauges :: "'w app \<Rightarrow> ('w metered, unit) io" where
  "worker_queue_gauges A =
     seq_io (bind_io (rest_io (zcard A PRIORITY_KEY)) (\<lambda>n.
       set_gauge_io ''queue_depth'' [(''queue_name'', ''priority'')] (py_float (int n))))
     (seq_io (bind_io (rest_io (llen A FIFO_KEY)) (\<lambda>n.
       set_gauge_io ''queue_depth'' [(''queue_name'', ''fifo'')] (py_float (int n))))
     (bind_io (rest_io (zcard A RETRY_KEY)) (\<lambda>n.
       set_gauge_io ''queue_depth'' [(''queue_name'', ''retry'')] (py_float (int n)))))"

definition worker_pool_gauges :: "'w pool_api \<Rightarrow> ('w metered, unit) io" where
  "worker_pool_gauges P =
     seq_io (rest_io (pool_of_engine P))
     (seq_io (bind_io (rest_io (checked_out P)) (\<lambda>n.
       set_gauge_io ''db_pool_size'' [(''state'', ''checked_out'')] (py_float n)))
     (seq_io (bind_io (rest_io (checked_in P)) (\<lambda>n.
       set_gauge_io ''db_pool_size'' [(''state'', ''checked_in'')] (py_float n)))
     (bind_io (rest_io (overflow P)) (\<lambda>n.
       set_gauge_io ''db_pool_size'' [(''state'', ''overflow'')] (py_float (max n 0))))))"

definition poll_queues_and_pools :: "'w app \<Rightarrow> 'w pool_api \<Rightarrow> ('w metered, unit) io" where
  "poll_queues_and_pools A P =
     seq_io (try_except (worker_queue_gauges A) (\<lambda>_. return_io ()))
     (seq_io (try_except (worker_pool_gauges P) (\<lambda>_. return_io ()))
     (rest_io (do_io (nap A 15))))"

subsection \<open>What a poll leaves in the gauges\<close>

text \<open>The entry of one metric in the module state.\<close>

abbreviation gauge_of :: "string \<Rightarrow> 'w metered \<Rightarrow> (attrs \<times> rat \<times> attrs) list option" where
  "gauge_of metric s \<equiv> map_of (gauge_state (telemetry_state s)) metric"

lemma wp_set_gauge:
  assumes "gauge_of metric s = Some g"
    and "\<And>s'. rest s' = rest s \<Longrightarrow> gauge_of metric s' = Some (AList.update (sort attrs) (v, attrs) g) \<Longrightarrow>
      (\<forall>m. m \<noteq> metric \<longrightarrow> gauge_of m s' = gauge_of m s) \<Longrightarrow> Q () s'"
  shows "wp (set_gauge_io metric attrs v) Q X s"
  using assms by (simp add: wp_def set_gauge_io_def set_gauge_def update_conv')

definition depth_entry :: "string \<Rightarrow> nat \<Rightarrow> attrs \<times> rat \<times> attrs" where
  "depth_entry q n = ([(''queue_name'', q)], py_float (int n), [(''queue_name'', q)])"

definition put_entry :: "attrs \<times> rat \<times> attrs \<Rightarrow> (attrs \<times> rat \<times> attrs) list \<Rightarrow> (attrs \<times> rat \<times> attrs) list" where
  "put_entry e g = AList.update (fst e) (snd e) g"

text \<open>The three depths of a store, put into a gauge one after the other.\<close>

definition put_depths :: "store \<Rightarrow> (attrs \<times> rat \<times> attrs) list \<Rightarrow> (attrs \<times> rat \<times> attrs) list" where
  "put_depths st g =
     put_entry (depth_entry ''retry'' (card (dom (zsets st RETRY_KEY))))
       (put_entry (depth_entry ''fifo'' (length (lists st FIFO_KEY)))
         (put_entry (depth_entry ''priority'' (card (dom (zsets st PRIORITY_KEY)))) g))"

lemmas depth_simps = put_depths_def put_entry_def depth_entry_def

context reliable_services
begin

lemmas wp_zcard_total = wp_call_total [OF zcard_law redis_total(5)]
lemmas wp_llen_total = wp_call_total [OF llen_law redis_total(9)]

lemma wp_poll_queue_depths:
  assumes g: "gauge_of ''queue_depth'' s = Some g"
    and Q: "\<And>s'. gauge_of ''queue_depth'' s' = Some (put_depths (view (rest s)) g) \<Longrightarrow>
      view (rest s') = view (rest s) \<Longrightarrow> Q () s'"
  shows "wp (poll_queue_depths A) Q X s"
  unfolding poll_queue_depths_def wp_bind wp_try_except wp_on_part wp_do_io
  by (rule wp_zcard_total, rule wp_llen_total, rule wp_zcard_total, rule wp_set_gauge [where g = g],
      simp add: g, rule wp_set_gauge, simp, rule wp_set_gauge, simp, rule Q)
     (simp_all add: depth_simps nap_law)

end

text \<open>The figures of the connection pool leave the services alone, whether they are read or raise.\<close>

definition leaves :: "('w \<Rightarrow> store) \<Rightarrow> ('w, 'a) io \<Rightarrow> bool" where
  "leaves view m \<longleftrightarrow> (\<forall>w. wp m (\<lambda>_ w'. view w' = view w) (\<lambda>_ w'. view w' = view w) w)"

definition pool_leaves :: "('w \<Rightarrow> store) \<Rightarrow> 'w pool_api \<Rightarrow> bool" where
  "pool_leaves view P \<longleftrightarrow>
     leaves view (pool_of_engine P) \<and> leaves view (checked_out P) \<and> leaves view (checked_in P) \<and> leaves view (overflow P)"

text \<open>A gauge and a store that a coroutine keeps, on both outcomes.\<close>

definition keeps_gauge :: "string \<Rightarrow> ('w \<Rightarrow> store) \<Rightarrow> ('w metered, 'a) io \<Rightarrow> bool" where
  "keeps_gauge k view m \<longleftrightarrow>
     (\<forall>s. wp m (\<lambda>_ s'. gauge_of k s' = gauge_of k s \<and> view (rest s') = view (rest s))
              (\<lambda>_ s'. gauge_of k s' = gauge_of k s \<and> view (rest s') = view (rest s)) s)"

lemma keeps_gauge_bind:
  assumes "keeps_gauge k view m" and "\<And>a. keeps_gauge k view (f a)" shows "keeps_gauge k view (bind_io m f)"
  unfolding keeps_gauge_def wp_bind
proof
  fix s
  show "wp m (\<lambda>a. wp (f a) (\<lambda>_ s'. gauge_of k s' = gauge_of k s \<and> view (rest s') = view (rest s))
        (\<lambda>_ s'. gauge_of k s' = gauge_of k s \<and> view (rest s') = view (rest s)))
      (\<lambda>_ s'. gauge_of k s' = gauge_of k s \<and> view (rest s') = view (rest s)) s"
    by (rule wp_mono [OF assms(1) [unfolded keeps_gauge_def, rule_format, of s]])
       (auto intro: wp_mono [OF assms(2) [unfolded keeps_gauge_def, rule_format]])
qed

lemma keeps_gauge_set: "metric \<noteq> k \<Longrightarrow> keeps_gauge k view (set_gauge_io metric attrs v)"
  by (auto simp: keeps_gauge_def wp_def set_gauge_io_def set_gauge_def update_conv' split: option.split)

lemma keeps_gauge_rest: "leaves view m \<Longrightarrow> keeps_gauge k view (rest_io m)"
  by (simp add: keeps_gauge_def leaves_def wp_on_part)

lemma wp_keeps_gauge:
  assumes "keeps_gauge k view m"
    and "\<And>a s'. gauge_of k s' = gauge_of k s \<Longrightarrow> view (rest s') = view (rest s) \<Longrightarrow> Q a s'"
    and "\<And>e s'. gauge_of k s' = gauge_of k s \<Longrightarrow> view (rest s') = view (rest s) \<Longrightarrow> X e s'"
  shows "wp m Q X s"
  by (rule wp_mono [OF assms(1) [unfolded keeps_gauge_def, rule_format]]) (auto intro: assms(2,3))

context reliable_services
begin

lemma wp_poll_queues_and_pools:
  assumes P: "pool_leaves view P" and g: "gauge_of ''queue_depth'' s = Some g"
    and Q: "\<And>s'. gauge_of ''queue_depth'' s' = Some (put_depths (view (rest s)) g) \<Longrightarrow>
      view (rest s') = view (rest s) \<Longrightarrow> Q () s'"
  shows "wp (poll_queues_and_pools A P) Q X s"
proof -
  have k: "keeps_gauge ''queue_depth'' view (worker_pool_gauges P)"
    unfolding worker_pool_gauges_def
    using P by (intro keeps_gauge_bind keeps_gauge_rest keeps_gauge_set) (auto simp: pool_leaves_def)
  have pool: "wp (worker_pool_gauges P) (\<lambda>_ s'. Q () (s'\<lparr>rest := nap A 15 (rest s')\<rparr>))
      (\<lambda>_ s'. Q () (s'\<lparr>rest := nap A 15 (rest s')\<rparr>)) s1"
    if "gauge_of ''queue_depth'' s1 = Some (put_depths (view (rest s)) g)" "view (rest s1) = view (rest s)" for s1
    by (rule wp_keeps_gauge [OF k]) (auto intro!: Q simp: that nap_law)
  show ?thesis
    unfolding poll_queues_and_pools_def worker_queue_gauges_def wp_bind wp_try_except wp_on_part wp_do_io wp_return
    by (rule wp_zcard_total, rule wp_set_gauge [where g = g], simp add: g, rule wp_llen_total, rule wp_set_gauge, simp,
        rule wp_zcard_total, rule wp_set_gauge, simp, rule pool) (simp_all add: depth_simps)
qed

end

text \<open>With failing services the API's poll is all or nothing: it reads all depths before it sets a gauge.\<close>

context services
begin

lemma wp_depth:
  assumes "\<And>w'. view w' = view w \<Longrightarrow> Q (card (dom (zsets (view w) k))) w'" and "\<And>e w'. view w' = view w \<Longrightarrow> X e w'"
  shows "wp (zcard A k) Q X w"
  by (rule wp_call [OF zcard_law]) (auto intro: assms)

lemma wp_length:
  assumes "\<And>w'. view w' = view w \<Longrightarrow> Q (length (lists (view w) k)) w'" and "\<And>e w'. view w' = view w \<Longrightarrow> X e w'"
  shows "wp (llen A k) Q X w"
  by (rule wp_call [OF llen_law]) (auto intro: assms)

lemma poll_all_or_nothing:
  assumes g: "gauge_of ''queue_depth'' s = Some g"
  shows "wp (poll_queue_depths A)
     (\<lambda>_ s'. gauge_of ''queue_depth'' s' = Some g \<or> gauge_of ''queue_depth'' s' = Some (put_depths (view (rest s)) g))
     (\<lambda>_ _. False) s"
proof -
  let ?Q = "\<lambda>s'. gauge_of ''queue_depth'' s' = Some g \<or> gauge_of ''queue_depth'' s' = Some (put_depths (view (rest s)) g)"
  have sets: "wp (set_gauge_io ''queue_depth'' [(''queue_name'', ''priority'')] (py_float (int (card (dom (zsets (view (rest s)) PRIORITY_KEY))))))
      (\<lambda>_. wp (set_gauge_io ''queue_depth'' [(''queue_name'', ''fifo'')] (py_float (int (length (lists (view (rest s)) FIFO_KEY)))))
        (\<lambda>_. wp (set_gauge_io ''queue_depth'' [(''queue_name'', ''retry'')] (py_float (int (card (dom (zsets (view (rest s)) RETRY_KEY))))))
            (\<lambda>_. ?Q) X1) X2) X3 s1"
    if "gauge_of ''queue_depth'' s1 = Some g" for s1 X1 X2 X3
    by (rule wp_set_gauge [OF that], rule wp_set_gauge, simp, rule wp_set_gauge, simp) (simp add: depth_simps)
  show ?thesis
    unfolding poll_queue_depths_def wp_bind wp_try_except wp_on_part wp_do_io wp_return
    by (intro wp_depth wp_length) (simp_all add: g sets)
qed

end

text \<open>What the callback of the gauge then reports.\<close>

definition queue_names :: "attrs set" where
  "queue_names = {[(''queue_name'', ''priority'')], [(''queue_name'', ''fifo'')], [(''queue_name'', ''retry'')]}"

definition depth_observations :: "store \<Rightarrow> (rat \<times> attrs) set" where
  "depth_observations st =
     {(py_float (int (card (dom (zsets st PRIORITY_KEY)))), [(''queue_name'', ''priority'')]),
      (py_float (int (length (lists st FIFO_KEY))), [(''queue_name'', ''fifo'')]),
      (py_float (int (card (dom (zsets st RETRY_KEY)))), [(''queue_name'', ''retry'')])}"

lemma ran_three:
  assumes "dom m \<subseteq> {a, b, c}" and "a \<noteq> b" "a \<noteq> c" "b \<noteq> c"
  shows "ran (m(a \<mapsto> x, b \<mapsto> y, c \<mapsto> z)) = {x, y, z}"
proof -
  have "m(a \<mapsto> x, b \<mapsto> y, c \<mapsto> z) = [a \<mapsto> x, b \<mapsto> y, c \<mapsto> z]"
    using assms(1) by (auto simp: fun_eq_iff domIff)
  then show ?thesis using assms(2-4) by (auto simp: ran_def)
qed

lemma put_depths_observed:
  assumes "distinct (map fst g)" and "fst ` set g \<subseteq> queue_names"
  shows "snd ` set (put_depths st g) = depth_observations st"
proof -
  have d: "distinct (map fst (put_depths st g))" unfolding depth_simps by (intro distinct_update assms(1))
  have "dom (map_of g) \<subseteq> queue_names" using assms(2) by (simp add: dom_map_of_conv_image_fst)
  then have "ran (map_of (put_depths st g)) = depth_observations st"
    unfolding depth_simps update_conv' fst_conv snd_conv depth_observations_def queue_names_def
    by (rule ran_three) simp_all
  then show ?thesis using ran_distinct [OF d] by simp
qed

text \<open>
  The gauges tell the truth. With services that do not fail, one poll of the API process
  and one poll of the worker process leave the queue-depth gauge reporting exactly the same:
  for each of the three queues the number of its entries, whatever was reported before.
\<close>
lemma gauges_polled:
  assumes "reliable_services A view" and "pool_leaves view P" and "gauge_of ''queue_depth'' s = Some g"
    and "distinct (map fst g)" and "fst ` set g \<subseteq> queue_names"
  shows "wp (poll_queue_depths A)
       (\<lambda>_ s'. set (queue_depth_callback (telemetry_state s')) = depth_observations (view (rest s))) (\<lambda>_ _. False) s \<and>
     wp (poll_queues_and_pools A P)
       (\<lambda>_ s'. set (queue_depth_callback (telemetry_state s')) = depth_observations (view (rest s))) (\<lambda>_ _. False) s"
proof -
  have o: "set (queue_depth_callback (telemetry_state s')) = depth_observations (view (rest s))"
    if "gauge_of ''queue_depth'' s' = Some (put_depths (view (rest s)) g)" for s'
    using put_depths_observed [OF assms(4,5)] that by (simp add: queue_depth_callback_def observations_def)
  show ?thesis
    by (intro conjI reliable_services.wp_poll_queue_depths [OF assms(1,3)]
          reliable_services.wp_poll_queues_and_pools [OF assms(1,2,3)] o)
qed

end
