(* ===== verification/Request_Log.thy ===== *)
theory Request_Log
  imports Api
begin

section \<open>app/core/logging.py, app/middleware/logging.py, app/utils/uuid.py\<close>

text \<open>
  What identifies a log line: the request identifier that \<open>RequestIDMiddleware\<close> binds in
  the context variables of the log while a request is handled and returns in a header, and
  the trace and span identifiers that \<open>otel_context_processor\<close> puts into every event.
  \<open>configure_logging\<close> is the set-up of the loggers. Starlette's dispatch is a parameter: the
  handler \<open>call_next\<close>; so is the current span of OpenTelemetry.
\<close>

subsection \<open>The request identifier\<close>

definition uuid4_str :: "'w app \<Rightarrow> ('w, string) io" where
  "uuid4_str A = bind_io (read_io (rnd_uuid4 A)) (\<lambda>u. return_io (str_uuid u))"

text \<open>The world with the context variables of \<open>structlog\<close> beside it, and a request with its \<open>state\<close>.\<close>

record 'w scope =
  context_vars :: "string \<Rightarrow> string option"
  outside :: 'w

record 'r http_request =
  request_content :: 'r
  request_id :: "string option"

abbreviation outside_io :: "('w, 'a) io \<Rightarrow> ('w scope, 'a) io" where
  "outside_io \<equiv> on_part outside (\<lambda>w s. s\<lparr>outside := w\<rparr>)"

definition bind_contextvar :: "string \<Rightarrow> string \<Rightarrow> ('w scope, unit) io" where
  "bind_contextvar k v = do_io (\<lambda>s. s\<lparr>context_vars := (context_vars s)(k \<mapsto> v)\<rparr>)"

definition unbind_contextvar :: "string \<Rightarrow> ('w scope, unit) io" where
  "unbind_contextvar k = do_io (\<lambda>s. s\<lparr>context_vars := (context_vars s)(k := None)\<rparr>)"

definition dispatch ::
  "'w app \<Rightarrow> 'r http_request \<Rightarrow> ('r http_request \<Rightarrow> ('w scope, 'a response) io) \<Rightarrow> ('w scope, 'a response) io" where
  "dispatch A request call_next =
     bind_io (outside_io (uuid4_str A)) (\<lambda>rid.
     seq_io (bind_contextvar ''request_id'' rid)
     (bind_io (try_finally (call_next (request\<lparr>request_id := Some rid\<rparr>)) (unbind_contextvar ''request_id''))
        (\<lambda>response.
     return_io (response\<lparr>headers := AList.update ''X-Request-ID'' rid (headers response)\<rparr>))))"

subsection \<open>The trace of a log event\<close>

record span_context =
  trace_id :: "128 word"
  span_id :: "64 word"
  is_valid :: bool

text \<open>The current span's context; \<open>None\<close> when the package cannot be imported.\<close>

definition otel_context_processor :: "span_context option \<Rightarrow> (string \<times> string) list \<Rightarrow> (string \<times> string) list" where
  "otel_context_processor current event =
     (case current of
        Some ctx \<Rightarrow>
          if is_valid ctx then
            AList.update ''span_id'' (hex_pad 16 (unat (span_id ctx)))
              (AList.update ''trace_id'' (hex_pad 32 (unat (trace_id ctx))) event)
          else
            AList.update ''span_id'' (replicate 16 (CHR ''0'')) (AList.update ''trace_id'' (replicate 32 (CHR ''0'')) event)
      | None \<Rightarrow>
          AList.update ''span_id'' (replicate 16 (CHR ''0'')) (AList.update ''trace_id'' (replicate 32 (CHR ''0'')) event))"

subsection \<open>configure_logging\<close>

text \<open>
  \<open>getattr(logging, name.upper(), logging.INFO)\<close>: the module's level constants; its one
  other upper-case attribute, \<open>BASIC_FORMAT\<close>, is a string, which \<open>setLevel\<close> refuses.
\<close>

definition upper_char :: "char \<Rightarrow> char" where
  "upper_char c = (let v = of_char c :: nat in if 97 \<le> v \<and> v \<le> 122 then char_of (v - 32) else c)"

definition level_constants :: "(string \<times> int) list" where
  "level_constants =
     [(''CRITICAL'', 50), (''FATAL'', 50), (''ERROR'', 40), (''WARNING'', 30), (''WARN'', 30),
      (''INFO'', 20), (''DEBUG'', 10), (''NOTSET'', 0)]"

record logging_state =
  root_handlers :: "string list"
  root_level :: int
  logger_levels :: "string \<Rightarrow> int option"
  processors :: "string list"

text \<open>\<open>basicConfig\<close> adds its handler, then sets the level; it does nothing when the root logger has handlers.\<close>

definition configure_logging :: "string \<Rightarrow> logging_state \<Rightarrow> exn option \<times> logging_state" where
  "configure_logging name L =
     (let level = (case map_of level_constants (map upper_char name) of
                     Some n \<Rightarrow> Some n
                   | None \<Rightarrow> if map upper_char name = ''BASIC_FORMAT'' then None else Some 20);
          L' = L\<lparr>logger_levels := (logger_levels L)(''sqlalchemy.engine'' \<mapsto> 30, ''asyncpg'' \<mapsto> 30),
                 processors := [''filter_by_level'', ''add_logger_name'', ''add_log_level'',
                   ''PositionalArgumentsFormatter'', ''TimeStamper'', ''_otel_context_processor'',
                   ''StackInfoRenderer'', ''format_exc_info'', ''UnicodeDecoder'', ''JSONRenderer'']\<rparr>
      in if root_handlers L \<noteq> [] then (None, L')
         else case level of
           None \<Rightarrow> (Some (ValueError (''Unknown level: '' @ [CHR 0x27] @ ''%(levelname)s:%(name)s:%(message)s'' @ [CHR 0x27])),
                     L\<lparr>root_handlers := [''%(message)s'']\<rparr>)
         | Some n \<Rightarrow> (None, L'\<lparr>root_handlers := [''%(message)s''], root_level := n\<rparr>))"

subsection \<open>Lemmas\<close>

context services
begin

lemma wp_uuid4_str:
  assumes "\<And>u w'. view w' = view w \<Longrightarrow> Q (str_uuid u) w'"
  shows "wp (uuid4_str A) Q X w"
  unfolding uuid4_str_def wp_bind wp_return by (rule wp_uuid4) (auto intro: assms)

text \<open>The handler runs with the identifier bound; after it the identifier is unbound and in the header.\<close>

lemma wp_dispatch:
  assumes "\<And>u s'. context_vars s' = (context_vars s)(''request_id'' \<mapsto> str_uuid u) \<Longrightarrow>
      view (outside s') = view (outside s) \<Longrightarrow>
      wp (call_next (request\<lparr>request_id := Some (str_uuid u)\<rparr>))
         (\<lambda>r s''. Q (r\<lparr>headers := AList.update ''X-Request-ID'' (str_uuid u) (headers r)\<rparr>)
                     (s''\<lparr>context_vars := (context_vars s'')(''request_id'' := None)\<rparr>))
         (\<lambda>e s''. X e (s''\<lparr>context_vars := (context_vars s'')(''request_id'' := None)\<rparr>)) s'"
  shows "wp (dispatch A request call_next) Q X s"
  unfolding dispatch_def bind_contextvar_def unbind_contextvar_def wp_simps
  by (rule wp_uuid4_str) (auto intro: assms)

end

text \<open>Every event has both identifiers in their fixed widths, and they read back.\<close>

lemma hex_go_zeros: "hex_go 0 (replicate n (CHR ''0'')) = Some 0"
proof -
  have c: "hex_char 0 = CHR ''0''" by code_simp
  have "hex_pad n 0 = replicate n (CHR ''0'')"
    by (induction n) (auto simp: c replicate_append_same)
  then show ?thesis using hex_go_pad [of 0 n 0] by simp
qed

lemma otel_ids_read_back:
  obtains t s where "map_of (otel_context_processor current event) = (map_of event)(''trace_id'' \<mapsto> t, ''span_id'' \<mapsto> s)"
    and "length t = 32" and "length s = 16"
    and "hex_go 0 t = Some (case current of Some c \<Rightarrow> if is_valid c then unat (trace_id c) else 0 | None \<Rightarrow> 0)"
    and "hex_go 0 s = Some (case current of Some c \<Rightarrow> if is_valid c then unat (span_id c) else 0 | None \<Rightarrow> 0)"
proof -
  have w: "unat (t :: 128 word) < 16 ^ 32" "unat (s :: 64 word) < 16 ^ 16" for t s
    using unsigned_less [of t, where 'a = nat] unsigned_less [of s, where 'a = nat] by simp_all
  show ?thesis
  proof (cases "\<exists>c. current = Some c \<and> is_valid c")
    case True
    then obtain c where c: "current = Some c" "is_valid c" by blast
    show ?thesis
      by (rule that [of "hex_pad 32 (unat (trace_id c))" "hex_pad 16 (unat (span_id c))"])
         (simp_all add: otel_context_processor_def c update_conv' hex_go_pad [OF w(1)] hex_go_pad [OF w(2)] del: hex_pad.simps)
  next
    case False
    then show ?thesis
      by (intro that [of "replicate 32 (CHR ''0'')" "replicate 16 (CHR ''0'')"])
         (auto simp: otel_context_processor_def update_conv' hex_go_zeros split: option.split)
  qed
qed

subsection \<open>Property\<close>

text \<open>
  C39: One identifier per request. While a request is handled its fresh identifier is bound
  in the context of the log and stored on the request; the response that comes back is the
  handler's, with that identifier added as \<open>X-Request-ID\<close>; an exception of the handler
  passes through; and on both ways the identifier is unbound afterwards.
\<close>
theorem request_id_scoped:
  assumes "services A view"
    and "\<And>u s'. context_vars s' ''request_id'' = Some (str_uuid u) \<Longrightarrow>
      wp (call_next (request\<lparr>request_id := Some (str_uuid u)\<rparr>)) (\<lambda>r _. P u r) (\<lambda>e _. E u e) s'"
  shows "wp (dispatch A request call_next)
      (\<lambda>r s'. context_vars s' ''request_id'' = None \<and>
         (\<exists>u r0. P u r0 \<and> r = r0\<lparr>headers := AList.update ''X-Request-ID'' (str_uuid u) (headers r0)\<rparr>))
      (\<lambda>e s'. context_vars s' ''request_id'' = None \<and> (\<exists>u. E u e)) s"
  by (rule services.wp_dispatch [OF assms(1)], rule wp_mono [OF assms(2)]) auto

theorem request_id_scoped_witness:
  "wp (dispatch (mem_app True) \<lparr>request_content = (), request_id = None\<rparr>
        (\<lambda>q. return_io \<lparr>status_code = 200, headers = [], body = request_id q\<rparr>))
      (\<lambda>r s'. context_vars s' ''request_id'' = None \<and>
         (\<exists>u r0. body r0 = Some (str_uuid u) \<and>
            r = r0\<lparr>headers := AList.update ''X-Request-ID'' (str_uuid u) (headers r0)\<rparr>))
      (\<lambda>e s'. context_vars s' ''request_id'' = None \<and> (\<exists>u :: uuid. False))
      \<lparr>context_vars = Map.empty, outside = mem_init\<rparr>"
  by (rule request_id_scoped [OF mem_services]) (simp add: wp_simps)

end
