(* ===== verification/Startup.thy ===== *)
theory Startup
  imports Cut_Off Concurrent_System Clients Gauges Request_Log
begin

section \<open>app/worker/main.py and app/main.py: the two processes\<close>

text \<open>
  A process is its module state (connections, telemetry, logging, log context), the tasks and
  threads it has started, and the world of the services: \<open>process\<close>. \<open>worker_main\<close> and
  \<open>lifespan\<close> follow \<open>main\<close> and \<open>lifespan\<close> call by call. A background task is started and
  cancelled here; what one of its passes does is in \<open>Gauges\<close>. The worker's loop has no exit
  of its own: the only way out of \<open>await worker_loop(redis)\<close> is a cancellation of the task,
  which asyncio delivers at whatever await the loop has reached. So \<open>worker_main\<close> runs the
  first \<open>n\<close> passes of the loop, cut at their commands as in Op_Threads, up to the command
  \<open>k\<close>, and raises \<open>CancelledError\<close> there. It is no \<open>Exception\<close>: no handler of a pass takes it,
  and the \<open>finally\<close> clauses of a pass release a session, a span and the log context, which are
  not part of the services' state. A cancellation while a command is under way is one before
  or after it, as the server has carried it out or not.
\<close>

record 'w process =
  module_clients :: clients
  module_telemetry :: telemetry
  module_logging :: logging_state
  log_context :: "string \<Rightarrow> string option"
  instrumented_engines :: "nat list"
  metrics_server :: "int option"
  signal_handlers :: "(string \<times> string) list"
  shutdown_event :: bool
  running_tasks :: "string list"
  services_world :: 'w

abbreviation put_clients :: "clients \<Rightarrow> 'w process \<Rightarrow> 'w process" where
  "put_clients C p \<equiv> p\<lparr>module_clients := C\<rparr>"

abbreviation clients_io :: "(clients, 'a) io \<Rightarrow> ('w process, 'a) io" where
  "clients_io \<equiv> on_part module_clients put_clients"

text \<open>A coroutine of the services, under the process's instruments.\<close>

definition world_io :: "'w app \<Rightarrow> ('w app \<Rightarrow> ('w, 'a) io) \<Rightarrow> ('w process, 'a) io" where
  "world_io A m p =
     on_part services_world (\<lambda>w p. p\<lparr>services_world := w\<rparr>) (m (A\<lparr>registry := module_telemetry p\<rparr>)) p"

definition logging_io :: "libraries \<Rightarrow> ('w process, unit) io" where
  "logging_io L =
     bind_io (clients_io (get_settings L)) (\<lambda>S p.
     case configure_logging (log_level S) (module_logging p) of
       (None, l) \<Rightarrow> (Inr (), p\<lparr>module_logging := l\<rparr>)
     | (Some e, l) \<Rightarrow> (Inl e, p\<lparr>module_logging := l\<rparr>))"

definition setup_telemetry_io :: "string \<Rightarrow> string option \<Rightarrow> ('w process, unit) io" where
  "setup_telemetry_io name otlp = do_io (\<lambda>p. p\<lparr>module_telemetry := setup_telemetry name otlp (module_telemetry p)\<rparr>)"

definition setup_sqlalchemy_instrumentation :: "nat \<Rightarrow> ('w process, unit) io" where
  "setup_sqlalchemy_instrumentation engine =
     do_io (\<lambda>p. p\<lparr>instrumented_engines := instrumented_engines p @ [engine]\<rparr>)"

definition start_worker_metrics_server :: "int \<Rightarrow> ('w process, unit) io" where
  "start_worker_metrics_server port = do_io (\<lambda>p. p\<lparr>metrics_server := Some port\<rparr>)"

definition create_task :: "string \<Rightarrow> ('w process, unit) io" where
  "create_task t = do_io (\<lambda>p. p\<lparr>running_tasks := t # running_tasks p\<rparr>)"

definition cancel_task :: "string \<Rightarrow> ('w process, unit) io" where
  "cancel_task t = do_io (\<lambda>p. p\<lparr>running_tasks := remove1 t (running_tasks p)\<rparr>)"

definition CancelledError :: exn where
  "CancelledError = OtherError ''CancelledError''"

subsection \<open>The worker\<close>

definition handle_sigterm :: "'w process \<Rightarrow> 'w process" where
  "handle_sigterm p = p\<lparr>shutdown_event := True\<rparr>"

text \<open>The loop's passes, cut at their commands; a thread that is cancelled at its command \<open>k\<close>.\<close>

primrec loop_thread :: "'w app \<Rightarrow> nat \<Rightarrow> ('w, unit) thread" where
  "loop_thread A 0 = return_thread ()"
| "loop_thread A (Suc n) = bind_thread (pass_thread A) (\<lambda>_. loop_thread A n)"

lemma run_loop: "run (loop_thread A n) = worker_loop A n"
  by (induction n) (simp_all add: run_pass)

definition cancelled_at :: "nat \<Rightarrow> ('w, 'a) thread \<Rightarrow> ('w, 'a) io" where
  "cancelled_at k t w =
     (case advance k (t, w) of
        (Finished r, w') \<Rightarrow> (r, w')
      | (Await f, w') \<Rightarrow> (Inl CancelledError, w'))"

definition worker_main :: "'w app \<Rightarrow> libraries \<Rightarrow> nat \<Rightarrow> nat \<Rightarrow> ('w process, unit) io" where
  "worker_main A L n k =
     seq_io (logging_io L)
     (bind_io (clients_io (get_settings L)) (\<lambda>S.
     seq_io (do_io (\<lambda>p. p\<lparr>log_context := (log_context p)(''worker_id'' \<mapsto> hostname A)\<rparr>))
     (seq_io (setup_telemetry_io (otel_service_name S @ ''-worker'') (otel_endpoint S))
     (seq_io (start_worker_metrics_server (metrics_port S))
     (bind_io (clients_io (get_engine L)) (\<lambda>engine.
     seq_io (setup_sqlalchemy_instrumentation engine)
     (seq_io (world_io A (\<lambda>A. count_io A ''worker_restarts'' 1 [(''worker_id'', hostname A)]))
     (seq_io (do_io (\<lambda>p. p\<lparr>signal_handlers := [(''SIGTERM'', ''_handle_sigterm''), (''SIGINT'', ''_handle_sigterm'')]\<rparr>))
     (seq_io (clients_io (get_redis_pool L))
     (seq_io (async_session_local module_clients put_clients L (\<lambda>session.
        bind_io (clients_io (get_settings L)) (\<lambda>S.
        world_io A (\<lambda>A. run_startup_recovery A (recovery_stuck_threshold_minutes S)))))
     (seq_io (create_task ''_poll_queues_and_pools'')
     (try_finally
        (seq_io (world_io A (\<lambda>A. cancelled_at k (loop_thread A n))) (raise_io CancelledError))
        (seq_io (cancel_task ''_poll_queues_and_pools'')
        (seq_io (clients_io (close_redis_pool L))
        (seq_io (clients_io (happen L (Engine_Disposed engine)))
        (return_io ()))))))))))))))))"

subsection \<open>The API\<close>

definition lifespan :: "'w app \<Rightarrow> libraries \<Rightarrow> ('w process, unit) io \<Rightarrow> ('w process, unit) io" where
  "lifespan A L serve =
     seq_io (logging_io L)
     (bind_io (clients_io (get_settings L)) (\<lambda>S.
     seq_io (setup_telemetry_io (otel_service_name S @ ''-api'') (otel_endpoint S))
     (bind_io (clients_io (get_engine L)) (\<lambda>engine.
     seq_io (setup_sqlalchemy_instrumentation engine)
     (seq_io (clients_io (get_redis_pool L))
     (seq_io (create_task ''_poll_queue_depths'')
     (seq_io (create_task ''_poll_db_pool'')
     (seq_io serve
     (seq_io (cancel_task ''_poll_queue_depths'')
     (seq_io (cancel_task ''_poll_db_pool'')
     (seq_io (clients_io (happen L (Engine_Disposed engine)))
     (return_io ()))))))))))))"

text \<open>
  The application: its middleware, the outermost first (\<open>add_middleware\<close> puts a new one in
  front), its exception handlers and its routes.
\<close>

record fastapi_app =
  title :: string
  middleware :: "string list"
  allow_origins :: "string list"
  exception_handlers :: "(string \<times> string) list"
  routes :: "(string \<times> string \<times> string) list"
  instrumented :: bool

definition setup_fastapi_instrumentation :: "fastapi_app \<Rightarrow> fastapi_app" where
  "setup_fastapi_instrumentation app = app\<lparr>instrumented := True\<rparr>"

definition jobs_routes :: "(string \<times> string \<times> string) list" where
  "jobs_routes =
     [(''POST'', '''', ''create_job_endpoint''), (''GET'', '''', ''list_jobs_endpoint''),
      (''GET'', ''/{job_id}'', ''get_job_endpoint''), (''POST'', ''/{job_id}/cancel'', ''cancel_job_endpoint'')]"

definition metrics_routes :: "(string \<times> string \<times> string) list" where
  "metrics_routes = [(''GET'', '''', ''get_metrics'')]"

definition with_prefix :: "string \<Rightarrow> (string \<times> string \<times> string) list \<Rightarrow> (string \<times> string \<times> string) list" where
  "with_prefix p = map (\<lambda>(m, path, h). (m, p @ path, h))"

definition api_router :: "(string \<times> string \<times> string) list" where
  "api_router = with_prefix ''/jobs'' jobs_routes @ with_prefix ''/metrics'' metrics_routes"

text \<open>
  The two handlers of the application itself; the text of Prometheus' registry and its
  content type are parameters.
\<close>

definition health :: "(string \<times> string) list" where
  "health = [(''status'', ''ok'')]"

definition metrics_endpoint :: "('w, string) io \<Rightarrow> string \<Rightarrow> ('w, string response) io" where
  "metrics_endpoint generate_latest content_type_latest =
     bind_io generate_latest (\<lambda>t.
     return_io \<lparr>status_code = 200, headers = [(''content-type'', content_type_latest)], body = t\<rparr>)"

definition create_app :: "settings \<Rightarrow> fastapi_app" where
  "create_app S =
     setup_fastapi_instrumentation
     \<lparr>title = ''Job Queue System'',
      middleware = rev [''RequestIDMiddleware'', ''CORSMiddleware''],
      allow_origins = cors_origins S,
      exception_handlers = [(''RateLimitExceeded'', ''_rate_limit_exceeded_handler'')],
      routes = with_prefix ''/api/v1'' api_router @ [(''GET'', ''/health'', ''health''), (''GET'', ''/metrics'', ''metrics_endpoint'')],
      instrumented = False\<rparr>"

lemma routes_distinct: "distinct (map (\<lambda>(m, path, h). (m, path)) (routes (create_app S)))"
  by (simp add: create_app_def setup_fastapi_instrumentation_def api_router_def with_prefix_def jobs_routes_def metrics_routes_def)

subsection \<open>A process that starts, runs and ends\<close>

text \<open>Libraries whose calls do not raise, and an environment that gives the settings \<open>S\<close>.\<close>

definition quiet :: "libraries \<Rightarrow> settings \<Rightarrow> bool" where
  "quiet L S \<longleftrightarrow> (\<forall>n. Settings_init (environment L n) = Inr S) \<and> (\<forall>e n. fails L e n = None) \<and> map upper_char (log_level S) \<noteq> ''BASIC_FORMAT''"

definition fresh_process :: "'w \<Rightarrow> 'w process" where
  "fresh_process w =
     \<lparr>module_clients = no_clients, module_telemetry = telemetry_module,
      module_logging = \<lparr>root_handlers = [], root_level = 30, logger_levels = Map.empty, processors = []\<rparr>,
      log_context = Map.empty, instrumented_engines = [], metrics_server = None, signal_handlers = [],
      shutdown_event = False, running_tasks = [], services_world = w\<rparr>"

lemma configure_logging_quiet:
  assumes "quiet L S"
  shows "fst (configure_logging (log_level S) l) = None"
  using assms by (auto simp: quiet_def configure_logging_def Let_def split: option.split)

lemma reliable_registry: "reliable_services A view \<Longrightarrow> reliable_services (A\<lparr>registry := T\<rparr>) view"
  by (simp add: reliable_services_def services_def reliable_services_axioms_def)

lemma wp_world:
  "wp (world_io A m) Q X p =
     wp (m (A\<lparr>registry := module_telemetry p\<rparr>)) (\<lambda>a w. Q a (p\<lparr>services_world := w\<rparr>)) (\<lambda>e w. X e (p\<lparr>services_world := w\<rparr>))
       (services_world p)"
  unfolding world_io_def wp_def on_part_def by (simp split: prod.split sum.split)

lemma wp_logging:
  assumes "quiet L S" and "settings_cache (module_clients p) \<in> {None, Some S}"
    and "\<And>l. Q () (p\<lparr>module_clients := (if settings_cache (module_clients p) = None
        then (module_clients p)\<lparr>settings_cache := Some S, client_events := client_events (module_clients p) @ [Settings_Read]\<rparr>
        else module_clients p), module_logging := l\<rparr>)"
  shows "wp (logging_io L) Q X p"
proof -
  obtain l where l: "configure_logging (log_level S) (module_logging p) = (None, l)"
    using configure_logging_quiet [OF assms(1)] by (metis prod.collapse)
  show ?thesis
    using assms l unfolding logging_io_def wp_def bind_io_def on_part_def get_settings_def quiet_def
    by (auto split: option.split)
qed

context reliable_services
begin

lemma tracked_worker_loop:
  assumes "tracked (view w)" and "\<And>w'. tracked (view w') \<Longrightarrow> Q () w'"
  shows "wp (worker_loop A n) Q X w"
  using assms
proof (induction n arbitrary: w)
  case 0
  then show ?case by (simp add: wp_simps)
next
  case (Suc n)
  show ?case
    unfolding worker_loop.simps wp_bind
    by (rule tracked_worker_iteration [OF Suc.prems(1)]) (rule Suc.IH, simp_all add: Suc.prems(2))
qed

end

text \<open>The connections of a quiet process, call by call.\<close>

lemma quiet_calls:
  assumes "quiet L S"
  shows "wp (get_settings L) Q X C = (case settings_cache C of Some T \<Rightarrow> Q T C
      | None \<Rightarrow> Q S (C\<lparr>settings_cache := Some S, client_events := client_events C @ [Settings_Read]\<rparr>))"
    and "wp (happen L e) Q' X C = Q' (length (client_events C)) (C\<lparr>client_events := client_events C @ [e]\<rparr>)"
  using assms by (simp_all add: wp_def get_settings_def happen_def quiet_def split: option.split)

lemma quiet_made:
  assumes "quiet L S" and "settings_cache C = Some S"
  shows "db_engine C = None \<Longrightarrow> wp (get_engine L) Q X C = Q (length (client_events C))
      (C\<lparr>client_events := client_events C @ [Engine_Created (database_url S) True 10 20],
         db_engine := Some (length (client_events C))\<rparr>)"
    and "redis_pool C = None \<Longrightarrow> wp (get_redis_pool L) Q X C = Q (length (client_events C))
      (C\<lparr>client_events := client_events C @ [Pool_Created (redis_url S) True 20], redis_pool := Some (length (client_events C))\<rparr>)"
    and "session_factory C = None \<Longrightarrow> db_engine C = Some h \<Longrightarrow> wp (get_session_factory L) Q X C = Q (length (client_events C))
      (C\<lparr>client_events := client_events C @ [Factory_Created h], session_factory := Some (length (client_events C))\<rparr>)"
    and "redis_pool C = Some k \<Longrightarrow> wp (close_redis_pool L) Q' X C = Q' ()
      (C\<lparr>client_events := client_events C @ [Pool_Closed k], redis_pool := None\<rparr>)"
  using assms by (simp_all add: wp_def get_engine_def get_redis_pool_def get_session_factory_def close_redis_pool_def
      get_settings_def happen_def quiet_def bind_io_def do_io_def return_io_def)

text \<open>The life of a worker process, as the libraries see it.\<close>

definition worker_trace :: "settings \<Rightarrow> client_event list" where
  "worker_trace S =
     [Settings_Read, Engine_Created (database_url S) True 10 20, Pool_Created (redis_url S) True 20,
      Factory_Created 1, Session_Opened 3, Session_Closed 4, Pool_Closed 2, Engine_Disposed 1]"

text \<open>
  The services under the worker's instruments, and their world when the restart is counted
  and when the recovery has ended.
\<close>

definition worker_services :: "'w app \<Rightarrow> settings \<Rightarrow> 'w app" where
  "worker_services A S = A\<lparr>registry := setup_telemetry (otel_service_name S @ ''-worker'') (otel_endpoint S) telemetry_module\<rparr>"

definition restarted :: "'w app \<Rightarrow> settings \<Rightarrow> 'w \<Rightarrow> 'w" where
  "restarted A S w = snd (count_io (worker_services A S) ''worker_restarts'' 1 [(''worker_id'', hostname A)] w)"

definition recovered_by :: "'w app \<Rightarrow> settings \<Rightarrow> 'w \<Rightarrow> 'w" where
  "recovered_by A S w =
     snd (run_startup_recovery (worker_services A S) (recovery_stuck_threshold_minutes S) (restarted A S w))"

lemma recovery_persists:
  assumes "recovery_done now s s'" shows "persists (rows s) (rows s')"
  unfolding persists_def
proof (intro allI impI)
  fix i j
  assume "rows s i = Some j"
  then have "if stuck now j then \<exists>r. rows s' i = Some r \<and> recovery_row j r else rows s' i = Some j"
    using assms [unfolded recovery_done_def, THEN conjunct1, rule_format, of i] by simp
  then show "\<exists>j'. rows s' i = Some j' \<and> same_request j j'"
    by (auto simp: recovery_row_def same_request_def split: if_splits)
qed

lemma count_done: "count_io A c n a w = (Inr (), snd (count_io A c n a w))"
  by (simp add: count_io_def return_io_def do_io_def split: option.split)

context reliable_services
begin

lemma restarted_view:
  "rows (view (restarted A S w)) = rows (view w)" "lists (view (restarted A S w)) = lists (view w)"
  "zsets (view (restarted A S w)) = zsets (view w)"
proof -
  have "services (worker_services A S) view"
    using reliable_registry [OF reliable_services_axioms] by (simp add: worker_services_def reliable_services_def)
  then have "wp (count_io (worker_services A S) ''worker_restarts'' 1 [(''worker_id'', hostname A)])
      (\<lambda>_ w'. rows (view w') = rows (view w) \<and> lists (view w') = lists (view w) \<and> zsets (view w') = zsets (view w)) (\<lambda>_ _. False) w"
    by (rule services.wp_count) simp
  then show "rows (view (restarted A S w)) = rows (view w)" "lists (view (restarted A S w)) = lists (view w)"
      "zsets (view (restarted A S w)) = zsets (view w)"
    by (auto simp: restarted_def dest!: wp_obtain)
qed

lemma recovers_first:
  assumes "tracked (view w)"
  shows "run_startup_recovery (worker_services A S) (recovery_stuck_threshold_minutes S) (restarted A S w) =
      (Inr (), recovered_by A S w)"
    and "recovery_done (fst (clock_now A (restarted A S w)) - recovery_stuck_threshold_minutes S * 60 * 10 ^ 6)
      (view w) (view (recovered_by A S w))"
    and "tracked (view (recovered_by A S w))"
proof -
  let ?B = "worker_services A S" and ?m = "recovery_stuck_threshold_minutes S" and ?w = "restarted A S w"
  have B: "reliable_services ?B view" unfolding worker_services_def by (rule reliable_registry [OF reliable_services_axioms])
  have t: "tracked (view ?w)" using assms by (simp add: tracked_but_def queued_in_def restarted_view)
  then have g: "good_table (rows (view ?w))" by (simp add: tracked_but_def)
  have "wp (run_startup_recovery ?B ?m)
      (\<lambda>_ w'. recovery_done (fst (clock_now ?B ?w) - ?m * 60 * 10 ^ 6) (view ?w) (view w')) (\<lambda>_ _. False) ?w"
    by (rule reliable_services.wp_recovery_at [OF B g]) simp
  from wp_obtain [OF this] obtain u where u: "run_startup_recovery ?B ?m ?w = (Inr (), u)"
    and d: "recovery_done (fst (clock_now ?B ?w) - ?m * 60 * 10 ^ 6) (view ?w) (view u)" by (auto simp del: One_nat_def)
  have at: "u = recovered_by A S w" by (simp add: recovered_by_def u)
  show r: "run_startup_recovery ?B ?m ?w = (Inr (), recovered_by A S w)" using u at by simp
  have now: "clock_now ?B = clock_now A" by (simp add: worker_services_def)
  show "recovery_done (fst (clock_now A ?w) - ?m * 60 * 10 ^ 6) (view w) (view (recovered_by A S w))"
    using d unfolding recovery_done_def at restarted_view now .
  have "wp (run_startup_recovery ?B ?m) (\<lambda>_ w'. tracked (view w')) (\<lambda>_ _. False) ?w"
    by (rule reliable_services.tracked_recovery [OF B t])
  then show "tracked (view (recovered_by A S w))" by (simp add: wp_def r)
qed

end

text \<open>A thread that is cut off, and one that is given enough commands to end.\<close>

lemma run_advance: "run (fst (advance k c)) (snd (advance k c)) = run (fst c) (snd c)"
  by (induction k c rule: advance.induct) (simp_all add: case_prod_beta)

lemma advance_ends: "\<exists>k0. \<forall>k \<ge> k0. advance k (t, w) = (Finished (fst (run t w)), snd (run t w))"
proof (induction t arbitrary: w)
  case (Finished r)
  have "advance k (Finished r, w) = (Finished r, w)" for k by (cases k) simp_all
  then show ?case by simp
next
  case (Await f)
  obtain t u where f: "f w = (t, u)" by (cases "f w")
  then have "\<exists>k0. \<forall>k \<ge> k0. advance k (t, u) = (Finished (fst (run t u)), snd (run t u))"
    using Await.IH [of "(t, u)" t] by (metis fsts.intros fst_conv rangeI)
  then obtain k0 where k0: "\<And>k. k0 \<le> k \<Longrightarrow> advance k (t, u) = (Finished (fst (run t u)), snd (run t u))" by blast
  have "advance k (Await f, w) = (Finished (fst (run (Await f) w)), snd (run (Await f) w))" if "Suc k0 \<le> k" for k
    using that k0 f by (cases k) simp_all
  then show ?case by blast
qed

context services
begin

lemma safe_loop: "safe view (\<lambda>r. r = Inr ()) (loop_thread A n)"
proof (induction n)
  case (Suc n)
  have "safe view (\<lambda>r. r = Inr ()) (pass_thread A)" using safe_request [of WorkerPass] by simp
  then show ?case by (auto intro: safe_bind Suc)
qed (simp add: safe_return)

text \<open>Wherever the loop is cut off, no job has disappeared and no request has changed.\<close>

lemma loop_cut:
  assumes "sound_table (rows (view w))"
  shows "sound_table (rows (view (snd (advance k (loop_thread A n, w))))) \<and>
      persists (rows (view w)) (rows (view (snd (advance k (loop_thread A n, w)))))"
proof -
  let ?I = "\<lambda>s :: store \<times> unit. sound_table (rows (fst s)) \<and> persists (rows (view w)) (rows (fst s))"
  have I: "?I s'" if "?I s" "upkeep s s'" for s s' using that by (auto simp: upkeep_def intro: persists_trans)
  have "run_among view (\<lambda>_ _. False) (loop_thread A n, w) (advance k (loop_thread A n, w))"
    by (rule advance_among) (rule run_among.here)
  then have "\<exists>P' g'. sat view upkeep upkeep (\<lambda>r _. r = Inr ()) P' (fst (advance k (loop_thread A n, w))) \<and> withstands P' upkeep \<and>
      P' (view (snd (advance k (loop_thread A n, w))), g') \<and> ?I (view (snd (advance k (loop_thread A n, w))), g')"
  proof (rule run_among_sat [OF _ safe_loop [unfolded safe_def], where g = "()"])
    show "?I (view w, ())" using assms by simp
    show "?I s'" if "?I s" "upkeep s s'" for s s' by (rule I [OF that])
    show "?I s'" if "?I s" "upkeep s s'" for s s' by (rule I [OF that])
    show "withstands (\<lambda>_. True) upkeep" by (simp add: withstands_def)
  qed (rule TrueI | erule FalseE)+
  then show ?thesis unfolding fst_conv by blast
qed

lemma loop_returns: "fst (worker_loop A n w) = Inr ()"
proof (induction n arbitrary: w)
  case (Suc n)
  have "wp (worker_iteration A) (\<lambda>_ _. True) (\<lambda>_ _. False) w" using attempt_returns [of WorkerPass w] by simp
  then obtain w' where "worker_iteration A w = (Inr (), w')" by (auto dest: wp_obtain)
  then show ?case by (simp add: bind_io_def Suc)
qed (simp add: return_io_def)

lemma loop_cancelled:
  "cancelled_at k (loop_thread A n) w =
     ((case fst (advance k (loop_thread A n, w)) of Finished _ \<Rightarrow> Inr () | Await _ \<Rightarrow> Inl CancelledError),
      snd (advance k (loop_thread A n, w)))"
proof -
  obtain t u where c: "advance k (loop_thread A n, w) = (t, u)" by (cases "advance k (loop_thread A n, w)")
  have "fst (run (loop_thread A n) w) = Inr ()" by (simp add: run_loop loop_returns)
  moreover have "run t u = run (loop_thread A n) w" using run_advance [of k "(loop_thread A n, w)"] by (simp add: c)
  ultimately have "fst (run t u) = Inr ()" by simp
  then show ?thesis by (cases t) (simp_all add: cancelled_at_def c)
qed

end

lemma worker_ends:
  assumes "reliable_services A view" and "quiet L S" and "tracked (view w)"
  shows "wp (worker_main A L n k) (\<lambda>_ _. False)
     (\<lambda>e p. e = CancelledError \<and> client_events (module_clients p) = worker_trace S \<and> live (module_clients p) = [] \<and>
        running_tasks p = [] \<and> instrumented_engines p = [1] \<and>
        service_name (module_telemetry p) = otel_service_name S @ ''-worker'' \<and>
        services_world p = snd (advance k (loop_thread (worker_services A S) n, recovered_by A S w)))
     (fresh_process w)"
proof -
  note q = quiet_calls [OF assms(2)] quiet_made [OF assms(2)]
  note r = reliable_services.recovers_first [OF assms(1,3), of S]
  have B: "services (worker_services A S) view"
    using reliable_registry [OF assms(1)] by (simp add: worker_services_def reliable_services_def)
  let ?B = "worker_services A S"
  have registered: "A\<lparr>registry := setup_telemetry (otel_service_name S @ ''-worker'') (otel_endpoint S) telemetry_module\<rparr> = ?B"
    by (simp add: worker_services_def)
  have host: "hostname ?B = hostname A" by (simp add: worker_services_def)
  have counted: "wp (count_io ?B ''worker_restarts'' 1 [(''worker_id'', hostname A)]) Q X w = Q () (restarted A S w)" for Q X
    unfolding wp_def by (subst count_done) (simp add: restarted_def)
  have recovers: "wp (run_startup_recovery ?B (recovery_stuck_threshold_minutes S)) Q X (restarted A S w) =
      Q () (recovered_by A S w)" for Q X
    unfolding wp_def r(1) by simp
  have loops: "wp (cancelled_at k (loop_thread ?B n)) Q X u =
      (case fst (advance k (loop_thread ?B n, u)) of Finished _ \<Rightarrow> Q () (snd (advance k (loop_thread ?B n, u)))
       | Await _ \<Rightarrow> X CancelledError (snd (advance k (loop_thread ?B n, u))))" for Q X u
    unfolding wp_def services.loop_cancelled [OF B] by (simp split: thread.split)
  show ?thesis
    unfolding worker_main_def wp_bind
    apply (rule wp_logging [OF assms(2)])
     apply (simp add: fresh_process_def no_clients_def)
    apply (simp add: wp_simps q setup_telemetry_io_def start_worker_metrics_server_def setup_sqlalchemy_instrumentation_def
        fresh_process_def no_clients_def wp_world registered host counted [unfolded One_nat_def])
    apply (simp add: wp_simps q wp_world async_session_local_def registered recovers create_task_def cancel_task_def loops)
    apply (simp add: wp_simps q worker_trace_def live_def setup_telemetry_def telemetry_module_def eval_nat_numeral split: thread.split)
    done
qed

text \<open>
  C40: A worker from start to end. With services that do not fail and libraries that do not
  raise, a worker process makes one engine, one Redis pool and one session for the recovery,
  instruments that engine and registers its instruments under its own service name. It enters
  its loop only after the recovery has taken up every row that has been processing since before
  the configured minutes. Whatever command of the loop it is cancelled at, it stops its
  background task, closes its Redis pool and disposes of its engine; the services are as the
  recovery and the loop's commands up to there have left them, with the table sound, no job
  gone and no request altered. A cancellation between two passes leaves every queued job in a
  queue; one inside a pass can lose the job in hand (\<open>crash_loses_job\<close> in Races).
\<close>
theorem worker_process:
  assumes "reliable_services A view" and "quiet L S" and "tracked (view w)"
  shows "wp (worker_main A L n k) (\<lambda>_ _. False)
     (\<lambda>e p. e = CancelledError \<and> client_events (module_clients p) = worker_trace S \<and> live (module_clients p) = [] \<and>
        running_tasks p = [] \<and> instrumented_engines p = [1] \<and>
        service_name (module_telemetry p) = otel_service_name S @ ''-worker'' \<and>
        services_world p = snd (advance k (loop_thread (worker_services A S) n, recovered_by A S w)) \<and>
        sound_table (rows (view (services_world p))) \<and> persists (rows (view w)) (rows (view (services_world p))))
     (fresh_process w) \<and>
   recovery_done (fst (clock_now A (restarted A S w)) - recovery_stuck_threshold_minutes S * 60 * 10 ^ 6)
     (view w) (view (recovered_by A S w)) \<and>
   tracked (view (recovered_by A S w)) \<and>
   (\<exists>k0. \<forall>k \<ge> k0. wp (worker_main A L n k) (\<lambda>_ _. False) (\<lambda>_ p. tracked (view (services_world p))) (fresh_process w))"
proof (intro conjI)
  let ?B = "worker_services A S" and ?u = "recovered_by A S w"
  have B: "reliable_services ?B view" unfolding worker_services_def by (rule reliable_registry [OF assms(1)])
  note ends = worker_ends [OF assms] and r = reliable_services.recovers_first [OF assms(1,3), of S]
  show "recovery_done (fst (clock_now A (restarted A S w)) - recovery_stuck_threshold_minutes S * 60 * 10 ^ 6)
     (view w) (view ?u)" and t: "tracked (view ?u)" by (fact r)+
  have "sound_table (rows (view ?u))" using t by (auto simp: tracked_but_def intro: good_sound)
  note cut = services.loop_cut [OF reliable_services.axioms(1) [OF B] this]
  show "wp (worker_main A L n k) (\<lambda>_ _. False)
     (\<lambda>e p. e = CancelledError \<and> client_events (module_clients p) = worker_trace S \<and> live (module_clients p) = [] \<and>
        running_tasks p = [] \<and> instrumented_engines p = [1] \<and>
        service_name (module_telemetry p) = otel_service_name S @ ''-worker'' \<and>
        services_world p = snd (advance k (loop_thread ?B n, ?u)) \<and>
        sound_table (rows (view (services_world p))) \<and> persists (rows (view w)) (rows (view (services_world p))))
     (fresh_process w)"
    by (rule wp_mono [OF ends]) (use cut [of k n] recovery_persists [OF r(2)] in \<open>auto intro: persists_trans\<close>)
  have "wp (worker_loop ?B n) (\<lambda>_ w'. tracked (view w')) (\<lambda>_ _. False) ?u"
    by (rule reliable_services.tracked_worker_loop [OF B t])
  then have "tracked (view (snd (run (loop_thread ?B n) ?u)))" by (auto simp: run_loop dest: wp_obtain)
  moreover obtain k0 where "\<forall>k \<ge> k0. advance k (loop_thread ?B n, ?u) =
      (Finished (fst (run (loop_thread ?B n) ?u)), snd (run (loop_thread ?B n) ?u))"
    using advance_ends [of "loop_thread ?B n" ?u] by blast
  ultimately have late: "tracked (view (snd (advance k (loop_thread ?B n, ?u))))" if "k0 \<le> k" for k using that by simp
  have "\<forall>k \<ge> k0. wp (worker_main A L n k) (\<lambda>_ _. False) (\<lambda>_ p. tracked (view (services_world p))) (fresh_process w)"
    by (intro allI impI, rule wp_mono [OF ends]) (simp_all add: late)
  then show "\<exists>k0. \<forall>k \<ge> k0. wp (worker_main A L n k) (\<lambda>_ _. False) (\<lambda>_ p. tracked (view (services_world p))) (fresh_process w)" ..
qed

text \<open>
  The life of an API process: it disposes of its engine and stops its two pollers, and the
  Redis pool it opened stays open. \<open>serve\<close> is what happens at the \<open>yield\<close>.
\<close>

definition api_trace :: "settings \<Rightarrow> client_event list" where
  "api_trace S =
     [Settings_Read, Engine_Created (database_url S) True 10 20, Pool_Created (redis_url S) True 20, Engine_Disposed 1]"

lemma api_leaves_pool_open:
  assumes "quiet L S" and "\<And>p Q X. (\<And>w. Q () (p\<lparr>services_world := w\<rparr>)) \<Longrightarrow> wp serve Q X p"
  shows "wp (lifespan A L serve)
     (\<lambda>_ p. client_events (module_clients p) = api_trace S \<and> redis_pool (module_clients p) = Some 2 \<and>
        running_tasks p = [] \<and> instrumented_engines p = [1] \<and>
        service_name (module_telemetry p) = otel_service_name S @ ''-api'') X (fresh_process w)"
proof -
  note q = quiet_calls [OF assms(1)] quiet_made [OF assms(1)]
  show ?thesis
    unfolding lifespan_def wp_bind
    apply (rule wp_logging [OF assms(1)])
     apply (simp add: fresh_process_def no_clients_def)
    apply (simp add: wp_simps q setup_telemetry_io_def setup_sqlalchemy_instrumentation_def create_task_def
        fresh_process_def no_clients_def)
    apply (rule assms(2))
    apply (simp add: wp_simps q cancel_task_def api_trace_def setup_telemetry_def telemetry_module_def eval_nat_numeral)
    done
qed

definition quiet_libraries :: libraries where
  "quiet_libraries = \<lparr>environment = (\<lambda>_. unset_sources), fails = (\<lambda>_ _. None)\<rparr>"

lemma quiet_default: "quiet quiet_libraries default_settings"
  unfolding quiet_def quiet_libraries_def libraries.select_convs
  by (intro conjI allI refl Settings_unset) (simp add: unset_sources_def, code_simp)

theorem worker_process_witness:
  "wp (worker_main (mem_app False) quiet_libraries 3 7) (\<lambda>_ _. False)
     (\<lambda>e p. e = CancelledError \<and> live (module_clients p) = [] \<and> running_tasks p = [] \<and>
        persists (rows (mem_view (busy_mem []))) (rows (mem_view (services_world p))))
     (fresh_process (busy_mem [])) \<and>
   (\<exists>k0. \<forall>k \<ge> k0. wp (worker_main (mem_app False) quiet_libraries 3 k) (\<lambda>_ _. False)
     (\<lambda>_ p. tracked (mem_view (services_world p))) (fresh_process (busy_mem [])))"
proof -
  note p = worker_process [OF mem_reliable_services quiet_default busy_tracked]
  show ?thesis by (intro conjI p [THEN conjunct2, THEN conjunct2, THEN conjunct2] wp_mono [OF p [THEN conjunct1]]) blast+
qed

end
