(* ===== verification/Ini_Config.thy ===== *)
theory Ini_Config
  imports Prelude "HOL-Library.AList"
begin

section \<open>The configuration file of the migrations\<close>

text \<open>
  Alembic keeps \<open>alembic.ini\<close> in a \<open>ConfigParser\<close> of the standard library, with its default
  interpolation: a value may refer to another option as \<open>%(name)s\<close>, a percent sign is written
  twice, \<open>set\<close> refuses any other percent sign and \<open>get\<close> expands. \<open>set_main_option\<close>,
  \<open>get_main_option\<close> and \<open>get_section\<close>, which \<open>migrations/env.py\<close> calls, hand their arguments to
  these methods. A section is an association list; its option names are in lower case.
\<close>

record ini =
  ini_defaults :: "(string \<times> string) list"
  ini_options :: "(string \<times> string) list"

definition raw_option :: "ini \<Rightarrow> string \<Rightarrow> string option" where
  "raw_option c k = (case map_of (ini_options c) k of Some v \<Rightarrow> Some v | None \<Rightarrow> map_of (ini_defaults c) k)"

abbreviation percent :: char where "percent \<equiv> CHR ''%''"

subsection \<open>Setting an option\<close>

text \<open>The regular expression \<open>%\(([^)]+)\)s\<close> at the beginning of a text.\<close>

definition reference :: "string \<Rightarrow> (string \<times> string) option" where
  "reference s =
     (if take 2 s = ''%('' then
        (let name = takeWhile (\<lambda>c. c \<noteq> CHR '')'') (drop 2 s);
             rest = dropWhile (\<lambda>c. c \<noteq> CHR '')'') (drop 2 s)
         in if name \<noteq> [] \<and> take 2 rest = '')s'' then Some (name, drop 2 rest) else None)
      else None)"

lemma reference_shorter: "reference s = Some (k, u) \<Longrightarrow> length u < length s"
  using length_dropWhile_le [of "\<lambda>c. c \<noteq> CHR '')''" "drop 2 s"]
  by (cases s) (auto simp: reference_def Let_def split: if_splits)

text \<open>\<open>value.replace('%%', '')\<close>\<close>

fun drop_escapes :: "string \<Rightarrow> string" where
  "drop_escapes (a # b # s) = (if a = percent \<and> b = percent then drop_escapes s else a # drop_escapes (b # s))"
| "drop_escapes s = s"

text \<open>\<open>re.sub\<close> with the empty text\<close>

function drop_references :: "string \<Rightarrow> string" where
  "drop_references s =
     (case reference s of
        Some (_, u) \<Rightarrow> drop_references u
      | None \<Rightarrow> (case s of [] \<Rightarrow> [] | c # t \<Rightarrow> c # drop_references t))"
  by pat_completeness auto
termination by (relation "measure length") (auto dest: reference_shorter)

declare drop_references.simps [simp del]

definition before_set :: "string \<Rightarrow> exn + unit" where
  "before_set v =
     (if percent \<in> set (drop_references (drop_escapes v)) then Inl (ValueError ''invalid interpolation syntax'') else Inr ())"

definition set_main_option :: "string \<Rightarrow> string \<Rightarrow> ini \<Rightarrow> exn + ini" where
  "set_main_option k v c =
     (case before_set v of
        Inl e \<Rightarrow> Inl e
      | Inr _ \<Rightarrow> Inr (c\<lparr>ini_options := AList.update k v (ini_options c)\<rparr>))"

subsection \<open>Reading an option\<close>

definition lower_char :: "char \<Rightarrow> char" where
  "lower_char c = (if CHR ''A'' \<le> c \<and> c \<le> CHR ''Z'' then char_of (of_char c + 32 :: nat) else c)"

text \<open>
  The expansion of a text. References nest at most ten deep (\<open>MAX_INTERPOLATION_DEPTH\<close>), the
  first argument.
\<close>

definition after :: "string \<Rightarrow> exn + string \<Rightarrow> exn + string" where
  "after p r = (case r of Inl e \<Rightarrow> Inl e | Inr s \<Rightarrow> Inr (p @ s))"

function expand :: "nat \<Rightarrow> (string \<Rightarrow> string option) \<Rightarrow> string \<Rightarrow> exn + string" where
  "expand n m s =
     (case n of
        0 \<Rightarrow> Inl (OtherError ''InterpolationDepthError'')
      | Suc n' \<Rightarrow>
          (case s of
             [] \<Rightarrow> Inr []
           | c # t \<Rightarrow>
               if c \<noteq> percent then after [c] (expand n m t)
               else if take 1 t = [percent] then after [percent] (expand n m (tl t))
               else if take 1 t = ''('' then
                 (case reference s of
                    None \<Rightarrow> Inl (OtherError ''InterpolationSyntaxError'')
                  | Some (k, u) \<Rightarrow>
                      (case m (map lower_char k) of
                         None \<Rightarrow> Inl (OtherError ''InterpolationMissingOptionError'')
                       | Some v \<Rightarrow>
                           if percent \<in> set v then
                             (case expand n' m v of Inl e \<Rightarrow> Inl e | Inr w \<Rightarrow> after w (expand n m u))
                           else after v (expand n m u)))
               else Inl (OtherError ''InterpolationSyntaxError'')))"
  by pat_completeness auto
termination
  by (relation "inv_image (less_than <*lex*> less_than) (\<lambda>(n, m, s). (n, length s))")
     (auto dest: reference_shorter)

declare expand.simps [simp del]

definition get_option :: "ini \<Rightarrow> string \<Rightarrow> exn + string option" where
  "get_option c k =
     (case raw_option c k of
        None \<Rightarrow> Inr None
      | Some v \<Rightarrow> (case expand 10 (raw_option c) v of Inl e \<Rightarrow> Inl e | Inr w \<Rightarrow> Inr (Some w)))"

text \<open>\<open>dict(items(section))\<close>: every option of the section and of the defaults, expanded.\<close>

fun all_options :: "ini \<Rightarrow> string list \<Rightarrow> exn + (string \<times> string) list" where
  "all_options c [] = Inr []"
| "all_options c (k # ks) =
     (case get_option c k of
        Inl e \<Rightarrow> Inl e
      | Inr v \<Rightarrow> (case all_options c ks of Inl e \<Rightarrow> Inl e | Inr xs \<Rightarrow> Inr ((k, the v) # xs)))"

definition get_section :: "ini \<Rightarrow> exn + (string \<times> string) list" where
  "get_section c =
     all_options c (map fst (ini_defaults c) @
       filter (\<lambda>k. k \<notin> fst ` set (ini_defaults c)) (map fst (ini_options c)))"

subsection \<open>Values without percent signs come back, others may not\<close>

lemma reference_None: "take 1 s \<noteq> [percent] \<Longrightarrow> reference s = None"
  by (cases s) (auto simp: reference_def)

lemma drop_escapes_plain: "percent \<notin> set s \<Longrightarrow> drop_escapes s = s"
  by (induction s rule: drop_escapes.induct) auto

lemma drop_references_plain: "percent \<notin> set s \<Longrightarrow> drop_references s = s"
  by (induction s) (auto simp: drop_references.simps reference_None)

lemma expand_plain: "percent \<notin> set s \<Longrightarrow> expand (Suc n) m s = Inr s"
  by (induction s) (auto simp: expand.simps after_def)

lemma raw_option_set:
  "set_main_option k v c = Inr c' \<Longrightarrow> raw_option c' n = (if n = k then Some v else raw_option c n)"
  by (auto simp: set_main_option_def raw_option_def update_conv' split: sum.splits option.split)

lemma set_main_option_plain:
  "percent \<notin> set v \<Longrightarrow> \<exists>c'. set_main_option k v c = Inr c'"
  by (simp add: set_main_option_def before_set_def drop_escapes_plain drop_references_plain)

lemma get_option_plain: "raw_option c k = Some v \<Longrightarrow> percent \<notin> set v \<Longrightarrow> get_option c k = Inr (Some v)"
  by (simp add: get_option_def expand_plain eval_nat_numeral)

lemma all_options_get:
  "all_options c ks = Inr xs \<Longrightarrow> k \<in> set ks \<Longrightarrow> get_option c k = Inr v \<Longrightarrow> map_of xs k = Some (the v)"
  by (induction ks arbitrary: xs) (auto split: sum.splits option.split)

text \<open>A percent sign that is neither doubled nor the start of a reference is refused.\<close>

lemma drop_escapes_lone:
  assumes "percent \<notin> set a" and "c \<noteq> percent" and "percent \<notin> set b"
  shows "drop_escapes (a @ percent # c # b) = a @ percent # c # b"
  using assms(1)
proof (induction a)
  case Nil
  have "drop_escapes (c # b) = c # b" by (rule drop_escapes_plain) (use assms in auto)
  then show ?case using assms(2) by simp
next
  case (Cons x a)
  then show ?case by (cases a) auto
qed

lemma drop_references_lone:
  assumes "percent \<notin> set a" and "c \<noteq> CHR ''(''"
  shows "percent \<in> set (drop_references (a @ percent # c # b))"
  using assms(1)
proof (induction a)
  case Nil
  have "reference (percent # c # b) = None" using assms(2) by (auto simp: reference_def)
  then show ?case by (simp add: drop_references.simps [of "percent # c # b"])
next
  case (Cons x a)
  then have "reference ((x # a) @ percent # c # b) = None" by (intro reference_None) auto
  then show ?case using Cons by (simp add: drop_references.simps [of "x # a @ percent # c # b"])
qed

lemma lone_percent_refused:
  assumes "percent \<notin> set a" and "c \<notin> {percent, CHR ''(''}" and "percent \<notin> set b"
  shows "set_main_option k (a @ percent # c # b) conf = Inl (ValueError ''invalid interpolation syntax'')"
  using assms drop_references_lone [of a c b] by (simp add: set_main_option_def before_set_def drop_escapes_lone)

end
