(* ===== verification/Schema.thy ===== *)
theory Schema
  imports Api Lifecycle
begin

section \<open>The database schema: migration and declared models\<close>

text \<open>
  The schema exists twice in the repository: as the column declarations of \<open>class Job\<close> and
  \<open>class JobLog\<close> (\<open>job_model\<close>, \<open>job_log_model\<close>, from which SQLAlchemy derives the tables it
  expects, \<open>declared_schema\<close>), and as the statements of the migration that create them
  (\<open>upgrade\<close>, \<open>downgrade\<close>). This theory gives both as data, runs the statements with their
  documented effect in PostgreSQL (\<open>run_ddl\<close>, which refuses a duplicate or missing object),
  and shows that they agree, that the downgrade undoes the upgrade, that the constraint
  \<open>insert_conflicts\<close> the rest of the development works with is the one this schema
  enforces, and which rows fit the columns. Two simplifications of PostgreSQL: tables and
  indexes are named apart here, while the server has one name space for both, so it would also
  refuse an index with the name of a table; and a text or a JSON value with a NUL character,
  which the server refuses, is counted as fitting.
\<close>

subsection \<open>Tables, indexes and statements\<close>

datatype column_type = UUID_COL | STRING_COL nat | TEXT_COL | JSONB_COL | INTEGER_COL | TIMESTAMPTZ_COL

record column =
  col_name :: string
  col_type :: column_type
  nullable :: bool
  server_default :: "string option"

record foreign_key =
  fk_column :: string
  fk_table :: string
  fk_target :: string
  fk_ondelete :: string

record table_def =
  table_columns :: "column list"
  primary_key :: "string list"
  foreign_keys :: "foreign_key list"

text \<open>A partial index has a predicate; both predicates of the schema are \<open>c IS NOT NULL\<close>.\<close>

datatype index_where = Always | Is_Not_Null string

record index_def =
  index_table :: string
  index_columns :: "string list"
  index_unique :: bool
  index_where :: index_where

record schema =
  schema_tables :: "(string \<times> table_def) list"
  schema_indexes :: "(string \<times> index_def) list"

definition empty_schema :: schema where
  "empty_schema = \<lparr>schema_tables = [], schema_indexes = []\<rparr>"

datatype ddl =
    Create_Table string table_def
  | Create_Index string index_def
  | Drop_Index string
  | Drop_Table string

definition references_to :: "string \<Rightarrow> schema \<Rightarrow> bool" where
  "references_to name s \<longleftrightarrow>
     list_ex (\<lambda>(n, d). n \<noteq> name \<and> list_ex (\<lambda>f. fk_table f = name) (foreign_keys d)) (schema_tables s)"

fun run_ddl :: "ddl \<Rightarrow> schema \<Rightarrow> exn + schema" where
  "run_ddl (Create_Table name d) s =
     (if name \<in> fst ` set (schema_tables s) then Inl (OtherError ''DuplicateTable'')
      else if list_all (\<lambda>f. fk_table f \<in> insert name (fst ` set (schema_tables s))) (foreign_keys d)
      then Inr (s\<lparr>schema_tables := schema_tables s @ [(name, d)]\<rparr>)
      else Inl (OtherError ''UndefinedTable''))"
| "run_ddl (Create_Index name x) s =
     (if name \<in> fst ` set (schema_indexes s) then Inl (OtherError ''DuplicateTable'')
      else (case map_of (schema_tables s) (index_table x) of
        None \<Rightarrow> Inl (OtherError ''UndefinedTable'')
      | Some d \<Rightarrow>
          if list_all (\<lambda>c. c \<in> set (map col_name (table_columns d))) (index_columns x)
          then Inr (s\<lparr>schema_indexes := schema_indexes s @ [(name, x)]\<rparr>)
          else Inl (OtherError ''UndefinedColumn'')))"
| "run_ddl (Drop_Index name) s =
     (if name \<in> fst ` set (schema_indexes s)
      then Inr (s\<lparr>schema_indexes := filter (\<lambda>(n, _). n \<noteq> name) (schema_indexes s)\<rparr>)
      else Inl (OtherError ''UndefinedObject''))"
| "run_ddl (Drop_Table name) s =
     (if name \<notin> fst ` set (schema_tables s) then Inl (OtherError ''UndefinedTable'')
      else if references_to name s then Inl (OtherError ''DependentObjectsStillExist'')
      else Inr (s\<lparr>schema_tables := filter (\<lambda>(n, _). n \<noteq> name) (schema_tables s),
                  schema_indexes := filter (\<lambda>(_, x). index_table x \<noteq> name) (schema_indexes s)\<rparr>))"

fun run_ddls :: "ddl list \<Rightarrow> schema \<Rightarrow> exn + schema" where
  "run_ddls [] s = Inr s"
| "run_ddls (d # ds) s = (case run_ddl d s of Inl e \<Rightarrow> Inl e | Inr s' \<Rightarrow> run_ddls ds s')"

lemma run_ddls_append:
  "run_ddls (ds @ es) s = (case run_ddls ds s of Inl e \<Rightarrow> Inl e | Inr s' \<Rightarrow> run_ddls es s')"
  by (induction ds arbitrary: s) (auto split: sum.split)

subsection \<open>The migration 764b80e5891a\<close>

abbreviation required :: "string \<Rightarrow> column_type \<Rightarrow> column" where
  "required n t \<equiv> \<lparr>col_name = n, col_type = t, nullable = False, server_default = None\<rparr>"

abbreviation optional :: "string \<Rightarrow> column_type \<Rightarrow> column" where
  "optional n t \<equiv> \<lparr>col_name = n, col_type = t, nullable = True, server_default = None\<rparr>"

abbreviation stamped :: "string \<Rightarrow> column" where
  "stamped n \<equiv> \<lparr>col_name = n, col_type = TIMESTAMPTZ_COL, nullable = False, server_default = Some ''now()''\<rparr>"

abbreviation on_columns :: "string \<Rightarrow> string list \<Rightarrow> index_def" where
  "on_columns t cs \<equiv> \<lparr>index_table = t, index_columns = cs, index_unique = False, index_where = Always\<rparr>"

definition upgrade :: "ddl list" where
  "upgrade =
     [Create_Table ''jobs''
        \<lparr>table_columns =
           [required ''id'' UUID_COL,
            required ''type'' (STRING_COL 100),
            required ''payload'' JSONB_COL,
            required ''priority'' (STRING_COL 20),
            required ''status'' (STRING_COL 20),
            optional ''idempotency_key'' (STRING_COL 255),
            required ''attempts'' INTEGER_COL,
            required ''max_attempts'' INTEGER_COL,
            optional ''next_retry_at'' TIMESTAMPTZ_COL,
            stamped ''created_at'',
            optional ''started_at'' TIMESTAMPTZ_COL,
            optional ''completed_at'' TIMESTAMPTZ_COL,
            optional ''error'' TEXT_COL,
            optional ''result'' JSONB_COL],
         primary_key = [''id''], foreign_keys = []\<rparr>,
      Create_Index ''idx_jobs_created_at'' (on_columns ''jobs'' [''created_at'']),
      Create_Index ''idx_jobs_next_retry_at''
        ((on_columns ''jobs'' [''next_retry_at''])\<lparr>index_where := Is_Not_Null ''next_retry_at''\<rparr>),
      Create_Index ''idx_jobs_status'' (on_columns ''jobs'' [''status'']),
      Create_Index ''idx_jobs_type'' (on_columns ''jobs'' [''type'']),
      Create_Index ''uq_jobs_idempotency_key''
        \<lparr>index_table = ''jobs'', index_columns = [''idempotency_key''], index_unique = True,
         index_where = Is_Not_Null ''idempotency_key''\<rparr>,
      Create_Table ''job_logs''
        \<lparr>table_columns =
           [required ''id'' UUID_COL,
            required ''job_id'' UUID_COL,
            required ''level'' (STRING_COL 20),
            required ''message'' TEXT_COL,
            stamped ''created_at''],
         primary_key = [''id''],
         foreign_keys = [\<lparr>fk_column = ''job_id'', fk_table = ''jobs'', fk_target = ''id'', fk_ondelete = ''CASCADE''\<rparr>]\<rparr>,
      Create_Index ''idx_job_logs_job_id_created_at'' (on_columns ''job_logs'' [''job_id'', ''created_at''])]"

definition downgrade :: "ddl list" where
  "downgrade =
     [Drop_Index ''idx_job_logs_job_id_created_at'',
      Drop_Table ''job_logs'',
      Drop_Index ''uq_jobs_idempotency_key'',
      Drop_Index ''idx_jobs_type'',
      Drop_Index ''idx_jobs_status'',
      Drop_Index ''idx_jobs_next_retry_at'',
      Drop_Index ''idx_jobs_created_at'',
      Drop_Table ''jobs'']"

subsection \<open>The declared models\<close>

text \<open>
  One \<open>mapped_column\<close> of a model class. The Python-side defaults are not part of the schema:
  they are in \<open>new_job\<close>.
\<close>

record mapped_column =
  mc_name :: string
  mc_type :: column_type
  mc_primary_key :: bool
  mc_nullable :: bool
  mc_server_default :: "string option"
  mc_foreign_key :: "(string \<times> string \<times> string) option"

abbreviation mapped :: "string \<Rightarrow> column_type \<Rightarrow> bool \<Rightarrow> mapped_column" where
  "mapped n t null \<equiv> \<lparr>mc_name = n, mc_type = t, mc_primary_key = False, mc_nullable = null,
                       mc_server_default = None, mc_foreign_key = None\<rparr>"

record model =
  tablename :: string
  mapped_columns :: "mapped_column list"
  table_args :: "(string \<times> index_def) list"

definition job_model :: model where
  "job_model =
     \<lparr>tablename = ''jobs'',
      mapped_columns =
        [(mapped ''id'' UUID_COL False)\<lparr>mc_primary_key := True\<rparr>,
         mapped ''type'' (STRING_COL 100) False,
         mapped ''payload'' JSONB_COL False,
         mapped ''priority'' (STRING_COL 20) False,
         mapped ''status'' (STRING_COL 20) False,
         mapped ''idempotency_key'' (STRING_COL 255) True,
         mapped ''attempts'' INTEGER_COL False,
         mapped ''max_attempts'' INTEGER_COL False,
         mapped ''next_retry_at'' TIMESTAMPTZ_COL True,
         (mapped ''created_at'' TIMESTAMPTZ_COL False)\<lparr>mc_server_default := Some ''now()''\<rparr>,
         mapped ''started_at'' TIMESTAMPTZ_COL True,
         mapped ''completed_at'' TIMESTAMPTZ_COL True,
         mapped ''error'' TEXT_COL True,
         mapped ''result'' JSONB_COL True],
      table_args =
        [(''idx_jobs_status'', on_columns ''jobs'' [''status'']),
         (''idx_jobs_type'', on_columns ''jobs'' [''type'']),
         (''idx_jobs_created_at'', on_columns ''jobs'' [''created_at'']),
         (''idx_jobs_next_retry_at'',
            (on_columns ''jobs'' [''next_retry_at''])\<lparr>index_where := Is_Not_Null ''next_retry_at''\<rparr>),
         (''uq_jobs_idempotency_key'',
            (on_columns ''jobs'' [''idempotency_key''])\<lparr>index_unique := True,
               index_where := Is_Not_Null ''idempotency_key''\<rparr>)]\<rparr>"

definition job_log_model :: model where
  "job_log_model =
     \<lparr>tablename = ''job_logs'',
      mapped_columns =
        [(mapped ''id'' UUID_COL False)\<lparr>mc_primary_key := True\<rparr>,
         (mapped ''job_id'' UUID_COL False)\<lparr>mc_foreign_key := Some (''jobs'', ''id'', ''CASCADE'')\<rparr>,
         mapped ''level'' (STRING_COL 20) False,
         mapped ''message'' TEXT_COL False,
         (mapped ''created_at'' TIMESTAMPTZ_COL False)\<lparr>mc_server_default := Some ''now()''\<rparr>],
      table_args =
        [(''idx_job_logs_job_id_created_at'', on_columns ''job_logs'' [''job_id'', ''created_at''])]\<rparr>"

text \<open>The tables and indexes that a list of model classes stands for.\<close>

definition table_of_model :: "model \<Rightarrow> table_def" where
  "table_of_model m =
     \<lparr>table_columns = map (\<lambda>c. \<lparr>col_name = mc_name c, col_type = mc_type c, nullable = mc_nullable c,
                                server_default = mc_server_default c\<rparr>) (mapped_columns m),
      primary_key = map mc_name (filter mc_primary_key (mapped_columns m)),
      foreign_keys = concat (map (\<lambda>c. case mc_foreign_key c of None \<Rightarrow> []
          | Some (t, k, d) \<Rightarrow> [\<lparr>fk_column = mc_name c, fk_table = t, fk_target = k, fk_ondelete = d\<rparr>]) (mapped_columns m))\<rparr>"

definition declared_schema :: "model list \<Rightarrow> schema" where
  "declared_schema ms =
     \<lparr>schema_tables = map (\<lambda>m. (tablename m, table_of_model m)) ms,
      schema_indexes = concat (map table_args ms)\<rparr>"

subsection \<open>The constraints of a schema on the rows of \<open>jobs\<close>\<close>

datatype sql_value = V_null | V_uuid uuid | V_text string | V_int int | V_time datetime | V_json json_dict

definition sql_opt :: "('a \<Rightarrow> sql_value) \<Rightarrow> 'a option \<Rightarrow> sql_value" where
  "sql_opt f x = (case x of None \<Rightarrow> V_null | Some a \<Rightarrow> f a)"

text \<open>The attribute of \<open>class Job\<close> that each column stores.\<close>

definition job_values :: "job \<Rightarrow> (string \<times> sql_value) list" where
  "job_values j =
     [(''id'', V_uuid (job_id j)), (''type'', V_text (job_type j)), (''payload'', V_json (payload j)),
      (''priority'', V_text (priority j)), (''status'', V_text (status j)),
      (''idempotency_key'', sql_opt V_text (idempotency_key j)), (''attempts'', V_int (attempts j)),
      (''max_attempts'', V_int (max_attempts j)), (''next_retry_at'', sql_opt V_time (next_retry_at j)),
      (''created_at'', V_time (created_at j)), (''started_at'', sql_opt V_time (started_at j)),
      (''completed_at'', sql_opt V_time (completed_at j)), (''error'', sql_opt V_text (job_error j)),
      (''result'', sql_opt V_json (job_result j))]"

fun fits_type :: "column_type \<Rightarrow> sql_value \<Rightarrow> bool" where
  "fits_type UUID_COL (V_uuid u) = True"
| "fits_type (STRING_COL n) (V_text s) = (length s \<le> n)"
| "fits_type TEXT_COL (V_text s) = True"
| "fits_type JSONB_COL (V_json d) = True"
| "fits_type INTEGER_COL (V_int n) = (- (2 ^ 31) \<le> n \<and> n < 2 ^ 31)"
| "fits_type TIMESTAMPTZ_COL (V_time t) = True"
| "fits_type _ _ = False"

definition fits :: "column \<Rightarrow> sql_value option \<Rightarrow> bool" where
  "fits c v = (case v of None \<Rightarrow> False | Some x \<Rightarrow> (if x = V_null then nullable c else fits_type (col_type c) x))"

definition row_fits :: "table_def \<Rightarrow> job \<Rightarrow> bool" where
  "row_fits d j \<longleftrightarrow> list_all (\<lambda>c. fits c (map_of (job_values j) (col_name c))) (table_columns d)"

text \<open>Two rows with the same primary key; two rows with the same non-null unique index entry.\<close>

definition same_primary_key :: "table_def \<Rightarrow> job \<Rightarrow> job \<Rightarrow> bool" where
  "same_primary_key d j r \<longleftrightarrow> list_all (\<lambda>c. map_of (job_values j) c = map_of (job_values r) c) (primary_key d)"

fun indexed :: "index_where \<Rightarrow> job \<Rightarrow> bool" where
  "indexed Always j \<longleftrightarrow> True"
| "indexed (Is_Not_Null c) j \<longleftrightarrow> map_of (job_values j) c \<noteq> Some V_null"

definition same_unique_entry :: "index_def \<Rightarrow> job \<Rightarrow> job \<Rightarrow> bool" where
  "same_unique_entry x j r \<longleftrightarrow>
     index_unique x \<and> indexed (index_where x) j \<and> indexed (index_where x) r \<and>
     list_all (\<lambda>c. map_of (job_values j) c \<noteq> Some V_null \<and> map_of (job_values j) c = map_of (job_values r) c)
       (index_columns x)"

definition schema_conflict :: "schema \<Rightarrow> job \<Rightarrow> job set \<Rightarrow> bool" where
  "schema_conflict s j rs \<longleftrightarrow>
     (\<exists>r \<in> rs. (case map_of (schema_tables s) ''jobs'' of None \<Rightarrow> False | Some d \<Rightarrow> same_primary_key d j r) \<or>
        list_ex (\<lambda>(_, x). index_table x = ''jobs'' \<and> same_unique_entry x j r) (schema_indexes s))"

subsection \<open>Lemmas\<close>

definition jobs_schema :: schema where
  "jobs_schema = declared_schema [job_model, job_log_model]"

lemma jobs_schema_simps:
  "map_of (schema_tables jobs_schema) ''jobs'' = Some (table_of_model job_model)"
  "schema_indexes jobs_schema = table_args job_model @ table_args job_log_model"
  by (simp_all add: jobs_schema_def declared_schema_def job_model_def job_log_model_def)

lemma schema_conflict_iff:
  "schema_conflict jobs_schema j rs \<longleftrightarrow>
     (\<exists>r \<in> rs. job_id j = job_id r \<or> idempotency_key j \<noteq> None \<and> idempotency_key j = idempotency_key r)"
proof -
  have "same_primary_key (table_of_model job_model) j r \<longleftrightarrow> job_id j = job_id r" for r
    by (simp add: same_primary_key_def table_of_model_def job_model_def job_values_def)
  moreover have "list_ex (\<lambda>(_, x). index_table x = ''jobs'' \<and> same_unique_entry x j r) (schema_indexes jobs_schema)
      \<longleftrightarrow> idempotency_key j \<noteq> None \<and> idempotency_key j = idempotency_key r" for r
    by (auto simp: jobs_schema_simps job_model_def job_log_model_def same_unique_entry_def job_values_def sql_opt_def
        split: option.splits)
  ultimately show ?thesis unfolding schema_conflict_def jobs_schema_simps(1) by simp
qed

lemma status_short: "s \<in> range status_value \<Longrightarrow> length s \<le> 20"
  by (auto simp: status_in_range)

lemma valid_short:
  "t \<in> VALID_TYPES \<Longrightarrow> length t \<le> 100" "p \<in> VALID_PRIORITIES \<Longrightarrow> length p \<le> 20"
  by (auto simp: VALID_TYPES_def VALID_PRIORITIES_def EXECUTOR_REGISTRY_def)

text \<open>A schema whose indexes and foreign keys refer to tables it has.\<close>

definition closed_schema :: "schema \<Rightarrow> bool" where
  "closed_schema s \<longleftrightarrow>
     (\<forall>(n, x) \<in> set (schema_indexes s). index_table x \<in> fst ` set (schema_tables s)) \<and>
     (\<forall>(n, d) \<in> set (schema_tables s). \<forall>f \<in> set (foreign_keys d). fk_table f \<in> fst ` set (schema_tables s))"

lemma closed_schemaD:
  assumes "closed_schema s"
  shows "(n, x) \<in> set (schema_indexes s) \<Longrightarrow> index_table x \<in> fst ` set (schema_tables s)"
    and "(n, d) \<in> set (schema_tables s) \<Longrightarrow> f \<in> set (foreign_keys d) \<Longrightarrow> fk_table f \<in> fst ` set (schema_tables s)"
  using assms unfolding closed_schema_def by (blast dest: bspec)+

definition index_names :: "string set" where
  "index_names = {''idx_jobs_created_at'', ''idx_jobs_next_retry_at'', ''idx_jobs_status'', ''idx_jobs_type'',
     ''uq_jobs_idempotency_key'', ''idx_job_logs_job_id_created_at''}"

text \<open>What the upgrade adds.\<close>

definition added_tables :: "(string \<times> table_def) list" where
  "added_tables = concat (map (\<lambda>d. case d of Create_Table n t \<Rightarrow> [(n, t)] | _ \<Rightarrow> []) upgrade)"

definition added_indexes :: "(string \<times> index_def) list" where
  "added_indexes = concat (map (\<lambda>d. case d of Create_Index n x \<Rightarrow> [(n, x)] | _ \<Rightarrow> []) upgrade)"

lemma run_upgrade:
  assumes "fst ` set (schema_tables s) \<inter> {''jobs'', ''job_logs''} = {}"
    and "fst ` set (schema_indexes s) \<inter> index_names = {}"
  shows "run_ddls upgrade s = Inr (s\<lparr>schema_tables := schema_tables s @ added_tables,
                                     schema_indexes := schema_indexes s @ added_indexes\<rparr>)"
proof -
  have "map_of (schema_tables s) ''jobs'' = None" "map_of (schema_tables s) ''job_logs'' = None"
    using assms(1) by (auto simp: map_of_eq_None_iff)
  then show ?thesis
    using assms unfolding index_names_def added_tables_def added_indexes_def upgrade_def
    by (simp add: map_add_def)
qed

lemma run_downgrade:
  assumes t: "fst ` set (schema_tables s) \<inter> {''jobs'', ''job_logs''} = {}"
    and i: "fst ` set (schema_indexes s) \<inter> index_names = {}" and c: "closed_schema s"
  shows "run_ddls downgrade (s\<lparr>schema_tables := schema_tables s @ added_tables,
                               schema_indexes := schema_indexes s @ added_indexes\<rparr>) = Inr s"
proof -
  have x: "index_table x \<noteq> ''jobs'' \<and> index_table x \<noteq> ''job_logs''" if "(n, x) \<in> set (schema_indexes s)" for n x
  proof -
    have "index_table x \<in> fst ` set (schema_tables s)" using closed_schemaD(1) [OF c that] .
    then show ?thesis using t by blast
  qed
  have f: "fk_table f \<noteq> ''jobs'' \<and> fk_table f \<noteq> ''job_logs''"
    if "(n, d) \<in> set (schema_tables s)" "f \<in> set (foreign_keys d)" for n d f
  proof -
    have "fk_table f \<in> fst ` set (schema_tables s)" using closed_schemaD(2) [OF c that] .
    then show ?thesis using t by blast
  qed
  have keep: "filter (\<lambda>(n, _). n \<noteq> k) (schema_indexes s) = schema_indexes s" if "k \<in> index_names" for k
    using i that by (auto simp: filter_id_conv image_iff)
  have keep_t: "filter (\<lambda>(n, _). n \<noteq> k) (schema_tables s) = schema_tables s" if "k \<in> {''jobs'', ''job_logs''}" for k
    using t that by (auto simp: filter_id_conv image_iff)
  have keep_x: "filter (\<lambda>(_, x). index_table x \<noteq> k) (schema_indexes s) = schema_indexes s" if "k \<in> {''jobs'', ''job_logs''}" for k
    using x that by (auto simp: filter_id_conv)
  have no_refs: "\<not> list_ex (\<lambda>(n, d). n \<noteq> k \<and> list_ex (\<lambda>f. fk_table f = k) (foreign_keys d)) (schema_tables s)"
    if "k \<in> {''jobs'', ''job_logs''}" for k
    using f that by (auto simp: list_ex_iff)
  show ?thesis
    unfolding downgrade_def added_tables_def added_indexes_def upgrade_def
    using keep keep_t keep_x no_refs
    by (simp add: references_to_def index_names_def)
qed

subsection \<open>Properties\<close>

text \<open>
  C34: The migration creates what the models declare. On an empty database the upgrade runs
  through and leaves exactly the tables, with the same columns, types, nullability, server
  defaults, primary and foreign keys, and exactly the indexes, that \<open>class Job\<close> and
  \<open>class JobLog\<close> declare.
\<close>
theorem migration_matches_models:
  "\<exists>s. run_ddls upgrade empty_schema = Inr s \<and>
     schema_tables s = schema_tables (declared_schema [job_model, job_log_model]) \<and>
     mset (schema_indexes s) = mset (schema_indexes (declared_schema [job_model, job_log_model]))"
  by (simp add: run_upgrade empty_schema_def added_tables_def added_indexes_def upgrade_def declared_schema_def
      table_of_model_def job_model_def job_log_model_def)

text \<open>
  C35: The downgrade undoes the upgrade. On any consistent schema that has no object of the
  same name, the upgrade succeeds and the downgrade after it restores the schema.
\<close>
theorem downgrade_undoes_upgrade:
  assumes "fst ` set (schema_tables s) \<inter> {''jobs'', ''job_logs''} = {}"
    and "fst ` set (schema_indexes s) \<inter> index_names = {}" and "closed_schema s"
  shows "run_ddls (upgrade @ downgrade) s = Inr s \<and> (\<exists>s'. run_ddls upgrade s = Inr s' \<and> run_ddls downgrade s' = Inr s)"
  using run_upgrade [OF assms(1,2)] run_downgrade [OF assms] by (simp add: run_ddls_append)

definition alembic_schema :: schema where
  "alembic_schema = \<lparr>schema_tables = [(''alembic_version'',
     \<lparr>table_columns = [required ''version_num'' (STRING_COL 32)], primary_key = [''version_num''], foreign_keys = []\<rparr>)],
     schema_indexes = []\<rparr>"

theorem downgrade_undoes_upgrade_witness:
  "run_ddls (upgrade @ downgrade) alembic_schema = Inr alembic_schema \<and>
   (\<exists>s'. run_ddls upgrade alembic_schema = Inr s' \<and> run_ddls downgrade s' = Inr alembic_schema)"
  by (rule downgrade_undoes_upgrade) (simp_all add: alembic_schema_def closed_schema_def)

text \<open>
  C33: The schema enforces idempotency. Inserting a row violates a constraint of the declared
  schema, its primary key or a unique index, exactly when \<open>insert_conflicts\<close> says so: the
  identifier is taken, or the row has an idempotency key that another row has.
\<close>
theorem schema_enforces_keys:
  assumes "keyed_by_id t"
  shows "schema_conflict (declared_schema [job_model, job_log_model]) j (ran t) \<longleftrightarrow> insert_conflicts j t"
  unfolding jobs_schema_def [symmetric] schema_conflict_iff insert_conflicts_def
  using assms by (force simp: keyed_by_id_def ran_def)

theorem schema_enforces_keys_witness:
  "schema_conflict (declared_schema [job_model, job_log_model])
     (new_job 8 0 ''email_send'' Map.empty ''high'' (Some ''k'') 3)
     (ran [(7 :: uuid) \<mapsto> new_job 7 0 ''email_send'' Map.empty ''low'' (Some ''k'') 5]) \<longleftrightarrow>
   insert_conflicts (new_job 8 0 ''email_send'' Map.empty ''high'' (Some ''k'') 3)
     [(7 :: uuid) \<mapsto> new_job 7 0 ''email_send'' Map.empty ''low'' (Some ''k'') 5]"
  by (rule schema_enforces_keys) (simp add: keyed_by_id_def new_job_def)

text \<open>
  C38: Which rows fit the columns. A well-formed row whose type and priority the API accepts
  fits every column of \<open>jobs\<close>, whatever the worker has written into it, except that its
  idempotency key must have at most 255 characters, which no check of the API ensures.
\<close>
theorem rows_fit_schema:
  assumes "good_row j" and "job_type j \<in> VALID_TYPES" and "priority j \<in> VALID_PRIORITIES"
  shows "row_fits (table_of_model job_model) j \<longleftrightarrow>
     (case idempotency_key j of None \<Rightarrow> True | Some k \<Rightarrow> length k \<le> 255)"
proof -
  have "length (status j) \<le> 20" using assms(1) by (intro status_short) (simp add: good_row_def)
  moreover have "- (2 ^ 31) \<le> attempts j" "attempts j < 2 ^ 31" "- (2 ^ 31) \<le> max_attempts j" "max_attempts j < 2 ^ 31"
    using assms(1) by (auto simp: good_row_def)
  ultimately show ?thesis
    using valid_short(1) [OF assms(2)] valid_short(2) [OF assms(3)]
    by (simp add: row_fits_def table_of_model_def job_model_def job_values_def fits_def sql_opt_def split: option.split)
qed

theorem rows_fit_schema_witness:
  "row_fits (table_of_model job_model) (new_job 7 0 ''email_send'' Map.empty ''high'' (Some (replicate 300 (CHR ''k''))) 3) \<longleftrightarrow>
   (case idempotency_key (new_job 7 0 ''email_send'' Map.empty ''high'' (Some (replicate 300 (CHR ''k''))) 3) of
      None \<Rightarrow> True | Some k \<Rightarrow> length k \<le> 255)"
  by (rule rows_fit_schema [OF good_new_job])
     (simp_all add: VALID_TYPES_def VALID_PRIORITIES_def EXECUTOR_REGISTRY_def new_job_def)

end
