(* ===== verification/Trace_Links.thy ===== *)
theory Trace_Links
  imports Job_Service Lifecycle
begin

section \<open>The trace link from a worker to the request\<close>

text \<open>
  The API stores the W3C \<open>traceparent\<close> of its span in the payload (\<open>payload_with_trace\<close> in
  Job_Service); the worker reads it back and links its span to that one
  (\<open>_links_from_traceparent\<close> in app/worker/loop.py). OpenTelemetry's \<open>extract\<close> is a parameter:
  from a text it gives a span context and whether that is valid, or raises.
\<close>

fun json_truthy :: "json \<Rightarrow> bool" where
  "json_truthy JNull = False"
| "json_truthy (JBool b) = b"
| "json_truthy (JInt n) = (n \<noteq> 0)"
| "json_truthy (JFloat r) = (r \<noteq> 0)"
| "json_truthy (JStr s) = (s \<noteq> '''')"
| "json_truthy (JArr xs) = (xs \<noteq> [])"
| "json_truthy (JObj d) = (d \<noteq> Map.empty)"

text \<open>\<open>(job.payload or {}).get("_otel_traceparent")\<close>\<close>

definition stored_traceparent :: "json_dict \<Rightarrow> json" where
  "stored_traceparent pl = (case pl ''_otel_traceparent'' of None \<Rightarrow> JNull | Some v \<Rightarrow> v)"

definition links_from_traceparent :: "(json \<Rightarrow> exn + 'c \<times> bool) \<Rightarrow> json \<Rightarrow> 'c list" where
  "links_from_traceparent extract traceparent =
     (if \<not> json_truthy traceparent then []
      else case extract traceparent of
             Inl _ \<Rightarrow> []
           | Inr (span_ctx, is_valid) \<Rightarrow> if is_valid then [span_ctx] else [])"

text \<open>
  The link survives. Whatever the client's payload has under the reserved name, and
  however often the row has been started, retried or recovered since its creation, the worker
  that runs a job links to the span of the request that created it; to none when there was no
  span or its text does not parse.
\<close>
lemma trace_link_round_trip:
  assumes "row_step\<^sup>*\<^sup>* (new_job i c typ (payload_with_trace pl tp) prio key maxa) j"
  shows "links_from_traceparent extract (stored_traceparent (payload j)) =
     (case tp of
        None \<Rightarrow> []
      | Some s \<Rightarrow> (case extract (JStr s) of
          Inr (ctx, True) \<Rightarrow> if s = '''' then [] else [ctx]
        | _ \<Rightarrow> []))"
proof -
  have "payload j = payload_with_trace pl tp"
    using row_steps_same_request [OF assms] by (simp add: same_request_def new_job_def)
  then show ?thesis
    by (auto simp: links_from_traceparent_def stored_traceparent_def payload_with_trace_def
        split: option.split sum.split prod.split bool.split)
qed

text \<open>A request that carries the reserved name itself.\<close>

lemma forged_traceparent:
  "links_from_traceparent (\<lambda>v. case v of JStr s \<Rightarrow> Inr (drop 3 s, True) | _ \<Rightarrow> Inl (ValueError ''''))
     (stored_traceparent (payload (new_job 7 0 ''email_send''
        (payload_with_trace [''_otel_traceparent'' \<mapsto> JStr ''forged''] (Some ''00-4bf9'')) ''high'' None 3))) = [''4bf9'']"
  by (subst trace_link_round_trip [OF rtranclp.rtrancl_refl]) simp

end
