(* ===== verification/Worker_Log.thy ===== *)
theory Worker_Log
  imports Request_Log Worker
begin

section \<open>The log context of a worker\<close>

text \<open>
  While \<open>worker_loop\<close> (app/worker/loop.py) works on a job, the context variables \<open>job_id\<close>,
  \<open>job_type\<close> and \<open>job_priority\<close> mark its log lines; the \<open>finally\<close> of the pass unbinds them.
  \<open>process_job_logged\<close> is \<open>process_job\<close> of Worker with these bindings, over the \<open>scope\<close> of
  Request_Log; \<open>run\<close> is what is done with a claimed job.
\<close>

definition start_job_logged :: "'w app \<Rightarrow> string \<Rightarrow> string \<Rightarrow> ('w scope, claimed_job option) io" where
  "start_job_logged A jid source =
     bind_io (outside_io (uuid_io jid)) (\<lambda>i.
     bind_io (outside_io (db_get A i)) (\<lambda>job.
     case job of
       None \<Rightarrow> return_io None
     | Some j \<Rightarrow>
         if status j \<noteq> status_value QUEUED then return_io None
         else
           seq_io (bind_contextvar ''job_type'' (job_type j))
           (seq_io (bind_contextvar ''job_priority'' (priority j))
           (bind_io (outside_io (now_utc A)) (\<lambda>t.
            seq_io (outside_io (db_commit A (start_writes j source t)))
            (return_io (Some \<lparr>cj_type = job_type j, cj_payload = payload j, cj_priority = priority j,
                               cj_created_at = created_at j, cj_started_at = t\<rparr>)))))))"

definition unbind_job :: "('w scope, unit) io" where
  "unbind_job =
     seq_io (unbind_contextvar ''job_id'')
     (seq_io (unbind_contextvar ''job_type'')
     (unbind_contextvar ''job_priority''))"

definition process_job_logged ::
  "'w app \<Rightarrow> (claimed_job \<Rightarrow> ('w scope, unit) io) \<Rightarrow> string \<Rightarrow> string \<Rightarrow> ('w scope, unit) io" where
  "process_job_logged A run jid source =
     seq_io (bind_contextvar ''job_id'' jid)
     (try_finally
       (bind_io (start_job_logged A jid source) (\<lambda>claim.
        case claim of None \<Rightarrow> return_io () | Some c \<Rightarrow> run c))
       unbind_job)"

definition without_job :: "(string \<Rightarrow> string option) \<Rightarrow> string \<Rightarrow> string option" where
  "without_job v = v(''job_id'' := None, ''job_type'' := None, ''job_priority'' := None)"

text \<open>What a job in hand has bound.\<close>

definition marked :: "string \<Rightarrow> claimed_job \<Rightarrow> 'w scope \<Rightarrow> bool" where
  "marked jid c s \<longleftrightarrow> context_vars s ''job_id'' = Some jid \<and> context_vars s ''job_type'' = Some (cj_type c) \<and>
     context_vars s ''job_priority'' = Some (cj_priority c)"

lemma scope_update [simp]:
  "s\<lparr>outside := w, context_vars := context_vars s\<rparr> = s\<lparr>outside := w\<rparr>"
  by (cases s) simp

lemma without_job_cong:
  "without_job v = without_job v' \<longleftrightarrow> (\<forall>k. k \<notin> {''job_id'', ''job_type'', ''job_priority''} \<longrightarrow> v k = v' k)"
  by (auto simp: without_job_def fun_eq_iff)

lemma start_job_logged_run:
  "\<exists>v. start_job_logged A jid source s =
      (case start_job A jid source (outside s) of (r, w) \<Rightarrow> (r, s\<lparr>outside := w, context_vars := v\<rparr>)) \<and>
    without_job v = without_job (context_vars s) \<and>
    (\<forall>c. fst (start_job A jid source (outside s)) = Inr (Some c) \<longrightarrow> v ''job_id'' = context_vars s ''job_id'' \<and>
       v ''job_type'' = Some (cj_type c) \<and> v ''job_priority'' = Some (cj_priority c))"
  (is "\<exists>v. ?P v")
proof -
  let ?skip = "context_vars s"
  let ?bound = "\<lambda>j. (context_vars s)(''job_type'' \<mapsto> job_type j, ''job_priority'' \<mapsto> priority j)"
  note defs = start_job_logged_def start_job_def bind_contextvar_def io_defs on_part_def uuid_io_def read_io_def without_job_cong
  show ?thesis
  proof (cases "parse_uuid jid")
    case (Inl e)
    then have "?P ?skip" by (simp add: defs)
    then show ?thesis by (rule exI [of ?P])
  next
    case i: (Inr i)
    obtain r w where g: "db_get A i (outside s) = (r, w)" by fastforce
    show ?thesis
    proof (cases "\<exists>j. r = Inr (Some j) \<and> status j = ''queued''")
      case True
      then obtain j where j: "r = Inr (Some j)" "status j = ''queued''" by blast
      obtain t w1 where t: "clock_now A w = (t, w1)" by fastforce
      obtain r2 w2 where c: "db_commit A (start_writes j source t) w1 = (r2, w2)" by fastforce
      have "?P (?bound j)" using i g j t c by (cases r2) (simp_all add: defs)
      then show ?thesis by (rule exI [of ?P])
    next
      case False
      then consider e where "r = Inl e" | "r = Inr None" | j where "r = Inr (Some j)" "status j \<noteq> ''queued''"
        by (metis obj_sumE option.exhaust)
      then have "?P ?skip" by cases (simp_all add: defs i g)
      then show ?thesis by (rule exI [of ?P])
    qed
  qed
qed

text \<open>
  The bindings change nothing but the log. A job is processed exactly as without them, and on
  every way out, also by an exception, the three variables are unbound and every other one is
  as it was.
\<close>

lemma job_context_scoped:
  "process_job_logged A (\<lambda>c. outside_io (run_job A jid c)) jid source s =
     (case process_job A jid source (outside s) of
        (r, w) \<Rightarrow> (r, s\<lparr>outside := w, context_vars := without_job (context_vars s)\<rparr>))"
proof -
  let ?s = "s\<lparr>context_vars := (context_vars s)(''job_id'' \<mapsto> jid)\<rparr>"
  obtain v where v: "start_job_logged A jid source ?s =
      (case start_job A jid source (outside s) of (r, w) \<Rightarrow> (r, ?s\<lparr>outside := w, context_vars := v\<rparr>))"
    and w: "without_job v = without_job (context_vars s)"
    using start_job_logged_run [of A jid source ?s] by (auto simp: without_job_def)
  have u: "unbind_job x = (Inr (), x\<lparr>context_vars := without_job (context_vars x)\<rparr>)" for x :: "'a scope"
    by (simp add: unbind_job_def unbind_contextvar_def io_defs without_job_def)
  show ?thesis
    using v w unfolding process_job_logged_def process_job_def
    by (auto simp: u bind_contextvar_def io_defs on_part_def split: prod.split sum.split option.split)
qed

text \<open>What runs with a claimed job runs with its three variables bound.\<close>

lemma job_context_bound:
  assumes "\<And>c s. marked jid c s \<Longrightarrow> run c s = run' c s"
  shows "process_job_logged A run jid source s = process_job_logged A run' jid source s"
proof -
  let ?s = "s\<lparr>context_vars := (context_vars s)(''job_id'' \<mapsto> jid)\<rparr>"
  obtain v where v: "start_job_logged A jid source ?s =
      (case start_job A jid source (outside s) of (r, w) \<Rightarrow> (r, ?s\<lparr>outside := w, context_vars := v\<rparr>))"
    and b: "\<forall>c. fst (start_job A jid source (outside s)) = Inr (Some c) \<longrightarrow> v ''job_id'' = Some jid \<and>
       v ''job_type'' = Some (cj_type c) \<and> v ''job_priority'' = Some (cj_priority c)"
    using start_job_logged_run [of A jid source ?s] by auto
  then show ?thesis
    using assms unfolding process_job_logged_def
    by (auto simp: bind_contextvar_def io_defs marked_def split: prod.split sum.split option.split)
qed

end
