(* ===== verification/Concurrent_Claims.thy ===== *)
theory Concurrent_Claims
  imports Op_Threads Outcomes
begin

section \<open>Several workers claim jobs at once\<close>

text \<open>
  The claim phase of \<open>worker_loop\<close>, cut at its commands: drain the due retries, put those that
  are still queued into the priority queue, take the next identifier, load its row and mark
  it processing. Any number of these threads run at once, their commands in any order. An
  identifier is a token: it lies in a queue, or a worker holds it, or a worker has started its
  job. \<open>moves\<close> is what a command may do to the tokens and the rows (the guarantee of a
  thread), \<open>stable_for\<close> is what the commands of the others cannot invalidate (its rely), \<open>works\<close>
  says that a thread keeps to it, and \<open>crew\<close> is the invariant of all of them.
\<close>

subsection \<open>Tokens\<close>

text \<open>In how many places of the three queues an identifier lies.\<close>

definition places :: "store \<Rightarrow> string \<Rightarrow> nat" where
  "places s m =
     (if zsets s RETRY_KEY m = None then 0 else 1) + (if zsets s PRIORITY_KEY m = None then 0 else 1) +
     count_list (lists s FIFO_KEY) m"

lemma places_data: "data s = data s' \<Longrightarrow> places s m = places s' m"
  using data_eqD [of s s'] by (simp add: places_def)

lemma queued_in_places: "queued_in s m \<longleftrightarrow> 0 < places s m"
  using count_list_0_iff [of "lists s FIFO_KEY" m] by (auto simp: queued_in_def places_def domIff)

definition waiting_row :: "table \<Rightarrow> string \<Rightarrow> bool" where
  "waiting_row t m \<longleftrightarrow> (\<exists>i j. m = str_uuid i \<and> t i = Some j \<and> status j = ''queued'')"

text \<open>
  A command of a thread that holds \<open>H\<close> and has started \<open>S\<close>: it makes no token, it forgets a
  token only when its row does not wait, and it changes a row only by starting a job it holds.
\<close>

definition moves :: "store \<Rightarrow> string multiset \<Rightarrow> string multiset \<Rightarrow> store \<Rightarrow> string multiset \<Rightarrow> string multiset \<Rightarrow> bool" where
  "moves s H S s' H' S' \<longleftrightarrow>
     (\<forall>m. places s' m + count H' m + count S' m \<le> places s m + count H m + count S m) \<and>
     (\<forall>m. waiting_row (rows s') m \<longrightarrow> 0 < places s m + count H m \<longrightarrow> 0 < places s' m + count H' m) \<and>
     (rows s' = rows s \<and> S' = S \<or>
      (\<exists>i j t. str_uuid i \<in># H \<and> rows s i = Some j \<and> status j = ''queued'' \<and>
               rows s' = (rows s)(i \<mapsto> started_row j t) \<and> S' = add_mset (str_uuid i) S))"

text \<open>What the others cannot invalidate: they start only jobs whose token this thread does not hold.\<close>

definition stable_for :: "string multiset \<Rightarrow> (table \<Rightarrow> bool) \<Rightarrow> bool" where
  "stable_for H K \<longleftrightarrow> (\<forall>t i j u. K t \<longrightarrow> str_uuid i \<notin># H \<longrightarrow> t i = Some j \<longrightarrow> K (t(i \<mapsto> started_row j u)))"

lemma stable_for_True [simp]: "stable_for H (\<lambda>_. True)"
  by (simp add: stable_for_def)

lemma stable_held: "str_uuid i \<in># H \<Longrightarrow> stable_for H (\<lambda>t. t i = Some j)"
  by (auto simp: stable_for_def)

definition sane :: "store \<Rightarrow> bool" where
  "sane s \<longleftrightarrow> keyed_by_id (rows s) \<and> (\<forall>m. 0 < places s m \<longrightarrow> m \<in> range str_uuid)"

definition started_of :: "(string \<times> 'c) option \<Rightarrow> string multiset" where
  "started_of r = (case r of None \<Rightarrow> {#} | Some (jid, c) \<Rightarrow> {#jid#})"

text \<open>A thread that holds \<open>H\<close>, has started \<open>S\<close> and knows \<open>K\<close> of the rows.\<close>

inductive works ::
  "('w \<Rightarrow> store) \<Rightarrow> string multiset \<Rightarrow> string multiset \<Rightarrow> (table \<Rightarrow> bool) \<Rightarrow> ('w, (string \<times> claimed_job) option) thread \<Rightarrow> bool"
  for view where
  ended: "works view {#} (started_of r) K (Finished (Inr r))"
| next_command: "(\<And>w. sane (view w) \<Longrightarrow> K (rows (view w)) \<Longrightarrow>
      \<exists>H' S' K'. moves (view w) H S (view (snd (f w))) H' S' \<and> K' (rows (view (snd (f w)))) \<and> stable_for H' K' \<and>
                 works view H' S' K' (fst (f w))) \<Longrightarrow> works view H S K (Await f)"

inductive_cases works_awaitE: "works view H S K (Await f)"
inductive_cases works_finishedE: "works view H S K (Finished r)"

lemma works_finished: "works view H S K (Finished r) \<Longrightarrow> \<exists>a. r = Inr a"
  by (auto elim: works_finishedE)

lemma works_atomic:
  assumes "\<And>w. sane (view w) \<Longrightarrow> K (rows (view w)) \<Longrightarrow>
      wp m (\<lambda>a w'. \<exists>H' S' K'. moves (view w) H S (view w') H' S' \<and> K' (rows (view w')) \<and> stable_for H' K' \<and>
                               works view H' S' K' (k a)) (\<lambda>_ _. False) w"
  shows "works view H S K (bind_thread (atomic m) k)"
  unfolding atomic_def bind_thread.simps
proof (rule works.next_command)
  fix w
  assume "sane (view w)" and "K (rows (view w))"
  from wp_obtain [OF assms [OF this]] obtain a w' H' S' K' where
    "m w = (Inr a, w')" "moves (view w) H S (view w') H' S' \<and> K' (rows (view w')) \<and> stable_for H' K' \<and> works view H' S' K' (k a)"
    by blast
  then show "\<exists>H' S' K'. moves (view w) H S (view (snd (map_prod (\<lambda>t. bind_thread t k) id (map_prod Finished id (m w))))) H' S' \<and>
      K' (rows (view (snd (map_prod (\<lambda>t. bind_thread t k) id (map_prod Finished id (m w)))))) \<and> stable_for H' K' \<and>
      works view H' S' K' (fst (map_prod (\<lambda>t. bind_thread t k) id (map_prod Finished id (m w))))"
    by (intro exI [of _ H'] exI [of _ S'] exI [of _ K']) simp
qed

lemma moves_quiet:
  assumes "data s' = data s" shows "moves s H S s' H S"
  using data_eqD [OF assms] by (simp add: moves_def places_def)

lemma works_quiet:
  assumes "leaves_data view m" and "\<And>a. works view H S K (k a)" and "stable_for H K"
  shows "works view H S K (bind_thread (atomic m) k)"
proof (rule works_atomic, rule wp_mono [OF assms(1) [unfolded leaves_data_def, rule_format]])
  fix w a w'
  assume "K (rows (view w))" and d: "data (view w') = data (view w)"
  then have "K (rows (view w'))" using data_eqD(3) [OF d] by simp
  then show "\<exists>H' S' K'. moves (view w) H S (view w') H' S' \<and> K' (rows (view w')) \<and> stable_for H' K' \<and> works view H' S' K' (k a)"
    using moves_quiet [OF d] assms(2,3) by blast
qed

text \<open>The three ways a token moves, and how it ends.\<close>

lemma moves_take_retry:
  assumes "zsets s RETRY_KEY m = Some sc" and "data s' = zset_del RETRY_KEY m (data s)"
  shows "moves s H S s' (add_mset m H) S"
  using assms(1) data_isD [OF assms(2)] by (auto simp: moves_def places_def)

lemma moves_take_priority:
  assumes "zsets s PRIORITY_KEY m = Some sc" and "data s' = zset_del PRIORITY_KEY m (data s)"
  shows "moves s H S s' (add_mset m H) S"
  using assms(1) data_isD [OF assms(2)] by (auto simp: moves_def places_def)

lemma moves_take_fifo:
  assumes "lists s FIFO_KEY \<noteq> []" and "data s' = list_put FIFO_KEY (butlast (lists s FIFO_KEY)) (data s)"
  shows "moves s H S s' (add_mset (last (lists s FIFO_KEY)) H) S"
proof -
  have "count_list (lists s FIFO_KEY) m = count_list (butlast (lists s FIFO_KEY)) m + (if m = last (lists s FIFO_KEY) then 1 else 0)" for m
    using assms(1) by (cases "lists s FIFO_KEY" rule: rev_cases) auto
  then show ?thesis using data_isD [OF assms(2)] by (auto simp: moves_def places_def)
qed

lemma moves_put:
  assumes "data s' = zset_put PRIORITY_KEY m sc (data s)"
  shows "moves s (add_mset m H) S s' H S"
  using data_isD [OF assms] by (auto simp: moves_def places_def)

lemma moves_forget:
  assumes "\<not> waiting_row (rows s) m"
  shows "moves s (add_mset m H) S s H S"
  using assms by (auto simp: moves_def)

lemma moves_start:
  assumes "rows s i = Some j" and "status j = ''queued''" and "rows s' = (rows s)(i \<mapsto> started_row j t)"
    and "zsets s' = zsets s" and "lists s' = lists s"
  shows "moves s (add_mset (str_uuid i) H) S s' H (add_mset (str_uuid i) S)"
proof -
  have "\<not> waiting_row (rows s') (str_uuid i)" using assms(3) by (auto simp: waiting_row_def started_row_def)
  then show ?thesis unfolding moves_def using assms by (auto simp: places_def)
qed

subsection \<open>The claim phase keeps to its guarantee\<close>

abbreviation known :: "table \<Rightarrow> bool" where
  "known \<equiv> \<lambda>_. True"

lemma works_step:
  assumes "moves s H S s' H' S'" and "K' (rows s')" and "stable_for H' K'" and "works view H' S' K' t"
  shows "\<exists>H' S' K'. moves s H S s' H' S' \<and> K' (rows s') \<and> stable_for H' K' \<and> works view H' S' K' t"
  using assms by blast

lemma sane_named: "sane s \<Longrightarrow> 0 < places s m \<Longrightarrow> m \<in> range str_uuid"
  by (simp add: sane_def)

lemma taken_named:
  "sane s \<Longrightarrow> zsets s RETRY_KEY m = Some sc \<Longrightarrow> m \<in> range str_uuid"
  "sane s \<Longrightarrow> zsets s PRIORITY_KEY m = Some sc \<Longrightarrow> m \<in> range str_uuid"
  "sane s \<Longrightarrow> m \<in> set (lists s FIFO_KEY) \<Longrightarrow> m \<in> range str_uuid"
  using count_list_0_iff [of "lists s FIFO_KEY" m] by (auto intro: sane_named simp: places_def)

context reliable_services
begin

lemma works_timed:
  assumes "call view m R" and "total m"
    and "\<And>s a s'. sane s \<Longrightarrow> R s a s' \<Longrightarrow> \<exists>H'. moves s H S s' H' S \<and> works view H' S known (k a)"
  shows "works view H S known (bind_thread (timed_thread A c m) k)"
  unfolding timed_thread_def bind_thread_assoc bind_return_thread
proof (rule works_quiet [OF quiet_commands(4)], rule works_atomic, rule wp_call_total [OF assms(1,2)])
  fix t w a w'
  assume "sane (view w)" and "R (view w) a (view w')"
  from assms(3) [OF this] obtain H' where h: "moves (view w) H S (view w') H' S" "works view H' S known (k a)" by blast
  show "\<exists>H' S' K'. moves (view w) H S (view w') H' S' \<and> K' (rows (view w')) \<and> stable_for H' K' \<and>
      works view H' S' K' (bind_thread (atomic (record_elapsed A c t)) (\<lambda>_. k a))"
    by (rule works_step [where K' = known, OF h(1)]) (auto intro: works_quiet [OF quiet_commands(3)] h(2))
qed simp

lemma works_claim:
  assumes "\<And>ys. set ys \<subseteq> range str_uuid \<Longrightarrow> works view (mset ys + H) S known (k ys)"
  shows "works view H S known (bind_thread (claim_thread A ms) k)"
  using assms
proof (induction ms arbitrary: H k)
  case Nil
  then show ?case using Nil [of "[]"] by simp
next
  case (Cons m ms)
  show ?case
    unfolding claim_thread.simps bind_thread_assoc bind_return_thread
  proof (rule works_atomic, rule wp_call_total [OF zrem_law redis_total(4)])
    fix w removed w'
    assume s: "sane (view w)" and z: "zremoved RETRY_KEY m (view w) removed (view w')"
    show "\<exists>H' S' K'. moves (view w) H S (view w') H' S' \<and> K' (rows (view w')) \<and> stable_for H' K' \<and>
        works view H' S' K' (bind_thread (claim_thread A ms) (\<lambda>ys. k (if removed \<noteq> 0 then m # ys else ys)))"
    proof (cases "zsets (view w) RETRY_KEY m")
      case None
      then have "removed = 0" and "data (view w') = data (view w)"
        using z by (auto simp: zremoved_def zset_del_def data_def fun_eq_iff)
      moreover have "works view H S known (bind_thread (claim_thread A ms) k)"
        using Cons.prems by (intro Cons.IH)
      ultimately show ?thesis by (intro works_step [where K' = known, OF moves_quiet]) simp_all
    next
      case (Some sc)
      then have r: "removed = 1" and d: "data (view w') = zset_del RETRY_KEY m (data (view w))"
        using z by (auto simp: zremoved_def)
      have "works view (add_mset m H) S known (bind_thread (claim_thread A ms) (\<lambda>ys. k (m # ys)))"
        using Cons.prems [of "m # ys" for ys] taken_named(1) [OF s Some] by (intro Cons.IH) simp
      then show ?thesis using r by (intro works_step [where K' = known, OF moves_take_retry [OF Some d]]) simp_all
    qed
  qed
qed

lemma works_drain:
  assumes "\<And>ys. set ys \<subseteq> range str_uuid \<Longrightarrow> works view (mset ys + H) S known (k ys)"
  shows "works view H S known (bind_thread (drain_thread A limit) k)"
  unfolding drain_thread_def bind_thread_assoc bind_return_thread
proof (rule works_quiet [OF quiet_commands(5)], rule works_timed [OF zrangebyscore_law redis_total(3)])
  fix now s due s'
  assume "zranged RETRY_KEY now 0 limit s due s'"
  then have "moves s H S s' H S" by (intro moves_quiet) (simp add: zranged_def)
  moreover have "works view H S known (bind_thread (claim_thread A due) (\<lambda>ys.
      bind_thread (atomic (if ys \<noteq> [] then count_io A ''retry_drain'' (length ys) [] else return_io ())) (\<lambda>_. k ys)))"
    by (rule works_claim, rule works_quiet [OF quiet_commands(2)]) (auto intro: assms)
  ultimately show "\<exists>H'. moves s H S s' H' S \<and> works view H' S known (bind_thread (claim_thread A due) (\<lambda>ys.
      bind_thread (atomic (if ys \<noteq> [] then count_io A ''retry_drain'' (length ys) [] else return_io ())) (\<lambda>_. k ys)))"
    by blast
qed simp

lemma works_enqueue:
  assumes "works view H S known (k ())"
  shows "works view (add_mset m H) S known (bind_thread (enqueue_priority_thread A m p typ) k)"
  unfolding enqueue_priority_thread_def bind_thread_assoc
proof (rule works_quiet [OF quiet_commands(7)], rule works_timed [OF zadd_law redis_total(1)])
  fix sc s u s'
  assume "s' = zset_put PRIORITY_KEY m sc s"
  then have "moves s (add_mset m H) S s' H S" by (intro moves_put) simp
  moreover have "works view H S known (bind_thread (atomic (count_io A ''enqueue'' 1
        [(''queue_name'', ''priority''), (''job_type'', typ), (''priority'', p)])) k)"
    by (rule works_quiet [OF quiet_commands(1)]) (simp_all add: assms)
  ultimately show "\<exists>H'. moves s (add_mset m H) S s' H' S \<and>
      works view H' S known (bind_thread (atomic (count_io A ''enqueue'' 1
        [(''queue_name'', ''priority''), (''job_type'', typ), (''priority'', p)])) k)"
    by blast
qed simp

lemma works_requeue:
  assumes "works view H S known (k ())"
  shows "works view (add_mset (str_uuid i) H) S known (bind_thread (requeue_thread A (str_uuid i)) k)"
  unfolding requeue_thread_def uuid_thread_def parse_str_uuid bind_thread_assoc bind_thread.simps sum.case
proof (rule works_atomic, rule wp_call_total [OF get_law query_total(1)])
  fix w job w'
  assume q: "view w' = view w \<and> job = rows (view w) i"
  let ?k = "\<lambda>job. bind_thread (case job of None \<Rightarrow> return_thread ()
      | Some j \<Rightarrow> if status j = status_value QUEUED then enqueue_priority_thread A (str_uuid i) (priority j) ''''
                  else return_thread ()) k"
  show "\<exists>H' S' K'. moves (view w) (add_mset (str_uuid i) H) S (view w') H' S' \<and> K' (rows (view w')) \<and> stable_for H' K' \<and>
      works view H' S' K' (?k job)"
  proof (cases "waiting_row (rows (view w)) (str_uuid i)")
    case True
    then have "works view (add_mset (str_uuid i) H) S known (?k job)"
      using q assms by (auto simp: waiting_row_def intro: works_enqueue)
    then show ?thesis using q by (intro works_step [where K' = known, OF moves_quiet]) simp_all
  next
    case False
    then have "?k job = k ()" using q by (auto simp: waiting_row_def split: option.split)
    then show ?thesis using q assms by (intro works_step [where K' = known]) (auto intro: moves_forget [OF False])
  qed
qed

lemma works_requeue_all:
  assumes "set ys \<subseteq> range str_uuid" and "works view H S known (k ())"
  shows "works view (mset ys + H) S known (bind_thread (each_thread (requeue_thread A) ys) k)"
  using assms
proof (induction ys)
  case (Cons y ys)
  then obtain i where "y = str_uuid i" by auto
  then show ?case using Cons by (auto simp: bind_thread_assoc intro!: works_requeue)
qed simp

lemma works_dequeue_priority:
  assumes "works view H S known (k None)"
    and "\<And>i. works view (add_mset (str_uuid i) H) S known (k (Some (str_uuid i)))"
  shows "works view H S known (bind_thread (dequeue_priority_thread A) k)"
  unfolding dequeue_priority_thread_def bind_thread_assoc bind_return_thread
proof (rule works_timed [OF zpopmin_law redis_total(2)])
  fix s r s'
  assume n: "sane s" and z: "zpopped PRIORITY_KEY s r s'"
  show "\<exists>H'. moves s H S s' H' S \<and> works view H' S known (k (case r of [] \<Rightarrow> None | r # _ \<Rightarrow> Some (fst r)))"
  proof (cases "zsets s PRIORITY_KEY = Map.empty")
    case True
    then have "moves s H S s' H S" "r = []" using z by (auto simp: zpopped_def intro!: moves_quiet)
    then show ?thesis using assms(1) by auto
  next
    case False
    then obtain m sc where m: "zsets s PRIORITY_KEY m = Some sc" "r = [(m, sc)]" "s' = zset_del PRIORITY_KEY m s"
      using z by (auto simp: zpopped_def)
    then obtain i where "m = str_uuid i" using taken_named(2) [OF n m(1)] by auto
    moreover have "moves s H S s' (add_mset m H) S" by (rule moves_take_priority [OF m(1)]) (simp add: m(3))
    ultimately show ?thesis using assms(2) m(2) by auto
  qed
qed

lemma works_dequeue_fifo:
  assumes "works view H S known (k None)"
    and "\<And>i. works view (add_mset (str_uuid i) H) S known (k (Some (str_uuid i)))"
  shows "works view H S known (bind_thread (dequeue_fifo_thread A timeout) k)"
  unfolding dequeue_fifo_thread_def bind_thread_assoc bind_return_thread
proof (rule works_timed [OF brpop_law redis_total(7)])
  fix s r s'
  assume n: "sane s" and z: "brpopped FIFO_KEY s r s'"
  show "\<exists>H'. moves s H S s' H' S \<and> works view H' S known (k (case r of None \<Rightarrow> None | Some r \<Rightarrow> Some (snd r)))"
  proof (cases "lists s FIFO_KEY = []")
    case True
    then have "moves s H S s' H S" "r = None" using z by (auto simp: brpopped_def intro!: moves_quiet)
    then show ?thesis using assms(1) by auto
  next
    case False
    let ?m = "last (lists s FIFO_KEY)"
    have r: "r = Some (FIFO_KEY, ?m)" "s' = list_put FIFO_KEY (butlast (lists s FIFO_KEY)) s"
      using z False by (auto simp: brpopped_def)
    obtain i where "?m = str_uuid i" using taken_named(3) [OF n last_in_set [OF False]] by auto
    moreover have "moves s H S s' (add_mset ?m H) S" by (rule moves_take_fifo [OF False]) (simp add: r(2))
    ultimately show ?thesis using assms(2) r(1) by auto
  qed
qed

lemma works_next:
  assumes "works view H S known (k None)"
    and "\<And>i source. works view (add_mset (str_uuid i) H) S known (k (Some (str_uuid i, source)))"
  shows "works view H S known (bind_thread (next_thread A) k)"
  unfolding next_thread_def bind_thread_assoc
proof (rule works_dequeue_priority)
  show "works view (add_mset (str_uuid i) H) S known
      (bind_thread (if truthy (Some (str_uuid i)) then return_thread (Some (the (Some (str_uuid i)), ''priority''))
        else bind_thread (dequeue_fifo_thread A 1) (\<lambda>r'. if truthy r' then return_thread (Some (the r', ''fifo''))
          else return_thread None)) k)" for i
    using assms(2) by (simp add: truthy_def str_uuid_nonempty)
  have "works view H S known (bind_thread (dequeue_fifo_thread A 1) (\<lambda>r'.
      bind_thread (if truthy r' then return_thread (Some (the r', ''fifo'')) else return_thread None) k))"
    by (rule works_dequeue_fifo) (simp_all add: truthy_def str_uuid_nonempty assms)
  then show "works view H S known
      (bind_thread (if truthy None then return_thread (Some (the None, ''priority''))
        else bind_thread (dequeue_fifo_thread A 1) (\<lambda>r'. if truthy r' then return_thread (Some (the r', ''fifo''))
          else return_thread None)) k)"
    by (simp add: truthy_def bind_thread_assoc)
qed

lemma works_start:
  assumes "works view H S known (k None)"
    and "\<And>c. works view H (add_mset (str_uuid i) S) known (k (Some c))"
  shows "works view (add_mset (str_uuid i) H) S known (bind_thread (start_thread A (str_uuid i) source) k)"
  unfolding start_thread_def uuid_thread_def parse_str_uuid bind_thread_assoc bind_thread.simps sum.case
proof (rule works_atomic, rule wp_call_total [OF get_law query_total(1)])
  fix w job w'
  assume s: "sane (view w)" and q: "view w' = view w \<and> job = rows (view w) i"
  let ?c = "\<lambda>j t. \<lparr>cj_type = job_type j, cj_payload = payload j, cj_priority = priority j,
                     cj_created_at = created_at j, cj_started_at = t\<rparr>"
  let ?start = "\<lambda>j. bind_thread (atomic (now_utc A)) (\<lambda>t.
           bind_thread (atomic (db_commit A (start_writes j source t))) (\<lambda>_. return_thread (Some (?c j t))))"
  let ?k = "\<lambda>job. bind_thread (case job of None \<Rightarrow> return_thread None
     | Some j \<Rightarrow> if status j \<noteq> status_value QUEUED then return_thread None else ?start j) k"
  show "\<exists>H' S' K'. moves (view w) (add_mset (str_uuid i) H) S (view w') H' S' \<and> K' (rows (view w')) \<and> stable_for H' K' \<and>
      works view H' S' K' (?k job)"
  proof (cases "waiting_row (rows (view w)) (str_uuid i)")
    case False
    then have "?k job = k None" using q by (auto simp: waiting_row_def split: option.split)
    then show ?thesis using q assms(1) by (intro works_step [where K' = known]) (auto intro: moves_forget [OF False])
  next
    case True
    then obtain j where j: "rows (view w) i = Some j" "status j = ''queued''" by (auto simp: waiting_row_def)
    then have i: "job_id j = i" using s by (simp add: sane_def keyed_by_id_def)
    let ?K = "\<lambda>t. t i = Some j"
    have "works view (add_mset (str_uuid i) H) S ?K (bind_thread (?start j) k)"
      unfolding bind_thread_assoc bind_return_thread
    proof (rule works_quiet [OF quiet_commands(6)], rule works_atomic, rule wp_commit_rows)
      fix t w
      assume r: "rows (view w) i = Some j"
      show "writable (start_writes j source t) (rows (view w))" by (rule write_rows(6) [where t = "rows (view w)" and i = i, OF r i])
      show "row_writes (start_writes j source t) (rows (view w)) = (rows (view w))(i \<mapsto> started_row j t)"
        by (rule write_rows(5) [where t = "rows (view w)" and i = i, OF r i])
      fix w'
      assume "rows (view w') = (rows (view w))(i \<mapsto> started_row j t)" "zsets (view w') = zsets (view w)"
        "lists (view w') = lists (view w)"
      from moves_start [OF r j(2) this]
      show "\<exists>H' S' K'. moves (view w) (add_mset (str_uuid i) H) S (view w') H' S' \<and> K' (rows (view w')) \<and> stable_for H' K' \<and>
          works view H' S' K' (k (Some (?c j t)))"
        by (rule works_step [where K' = known]) (simp_all add: assms(2))
    qed (simp add: stable_held)
    then show ?thesis
      using q j by (intro works_step [where K' = ?K, OF moves_quiet]) (simp_all add: stable_held)
  qed
qed

lemma works_claim_phase: "works view {#} {#} known (claim_phase_thread A)"
proof -
  have none: "works view {#} {#} known (Finished (Inr None))" using ended [of view None] by (simp add: started_of_def)
  have some: "works view {#} {#str_uuid i#} known (Finished (Inr (Some (str_uuid i, c))))" for i c
    using ended [of view "Some (str_uuid i, c)"] by (simp add: started_of_def)
  let ?last = "\<lambda>nxt. case nxt of
       None \<Rightarrow>
         bind_thread (atomic (count_io A ''worker_loop_iterations'' 1 [(''worker_id'', hostname A), (''outcome'', ''no_job'')])) (\<lambda>_.
         return_thread None)
     | Some (jid, source) \<Rightarrow>
         bind_thread (start_thread A jid source) (\<lambda>claim.
         return_thread (map_option (\<lambda>c. (jid, c)) claim))"
  have nxt: "works view {#} {#} known (bind_thread (next_thread A) ?last)"
  proof (rule works_next)
    show "works view {#} {#} known (?last None)"
      using none by (simp add: works_quiet [OF quiet_commands(1)] return_thread_def)
    show "works view {#str_uuid i#} {#} known (?last (Some (str_uuid i, source)))" for i source
      unfolding option.case prod.case by (rule works_start) (use none some in \<open>simp_all add: return_thread_def\<close>)
  qed
  show ?thesis
    unfolding claim_phase_thread_def
    by (rule works_drain, rule works_requeue_all) (assumption, rule nxt)
qed

end

subsection \<open>All workers together\<close>

record watch =
  held :: "string multiset"
  begun :: "string multiset"
  knows :: "table \<Rightarrow> bool"

definition in_hand :: "('x \<Rightarrow> string multiset) \<Rightarrow> 'x list \<Rightarrow> string \<Rightarrow> nat" where
  "in_hand f X m = (\<Sum>x\<leftarrow>X. count (f x) m)"

lemma in_hand_update:
  assumes "k < length X"
  shows "in_hand f (X[k := x]) m + count (f (X ! k)) m = in_hand f X m + count (f x) m"
proof -
  have "X = take k X @ X ! k # drop (Suc k) X" using assms by (simp add: id_take_nth_drop)
  then have "in_hand f X m = in_hand f (take k X @ X ! k # drop (Suc k) X) m" by simp
  then show ?thesis using assms by (simp add: in_hand_def upd_conv_take_nth_drop)
qed

lemma in_hand_one: "k < length X \<Longrightarrow> count (f (X ! k)) m \<le> in_hand f X m"
  unfolding in_hand_def by (intro member_le_sum_list) auto

lemma in_hand_two:
  assumes "k < length X" and "l < length X" and "k \<noteq> l"
  shows "count (f (X ! k)) m + count (f (X ! l)) m \<le> in_hand f X m"
proof -
  have "(\<Sum>i\<in>{k, l}. count (f (X ! i)) m) \<le> (\<Sum>i<length X. count (f (X ! i)) m)"
    using assms by (intro sum_mono2) auto
  then show ?thesis using assms(3) by (simp add: in_hand_def sum_list_sum_nth atLeast0LessThan)
qed

definition fate :: "table \<Rightarrow> table \<Rightarrow> bool \<Rightarrow> uuid \<Rightarrow> bool" where
  "fate t t' b i \<longleftrightarrow>
     (if b then \<exists>j u. t i = Some j \<and> status j = ''queued'' \<and> t' i = Some (started_row j u) else t' i = t i)"

text \<open>
  The invariant: every thread keeps to its guarantee and what it knows is so; an identifier
  is in one place, with one worker, or started once; a row that waits has not lost its
  identifier; and exactly the rows of the started jobs have changed, by one start each.
\<close>

definition crew ::
  "('w \<Rightarrow> store) \<Rightarrow> store \<Rightarrow> ('w, (string \<times> claimed_job) option) thread list \<times> 'w \<Rightarrow> watch list \<Rightarrow> bool" where
  "crew view s0 c X \<longleftrightarrow>
     list_all2 (\<lambda>x t. works view (held x) (begun x) (knows x) t \<and> stable_for (held x) (knows x) \<and>
                      knows x (rows (view (snd c)))) X (fst c) \<and>
     keyed_by_id (rows (view (snd c))) \<and>
     (\<forall>m. places (view (snd c)) m + in_hand held X m + in_hand begun X m \<le> 1) \<and>
     (\<forall>m. 0 < places (view (snd c)) m + in_hand held X m + in_hand begun X m \<longrightarrow> m \<in> range str_uuid) \<and>
     (\<forall>m. waiting_row (rows (view (snd c))) m \<longrightarrow> 0 < places s0 m \<longrightarrow> 0 < places (view (snd c)) m + in_hand held X m) \<and>
     (\<forall>i. fate (rows s0) (rows (view (snd c))) (0 < in_hand begun X (str_uuid i)) i)"

lemma moves_waiting: "moves s H S s' H' S' \<Longrightarrow> waiting_row (rows s') m \<Longrightarrow> waiting_row (rows s) m"
  by (auto simp: moves_def waiting_row_def started_row_def split: if_splits)

lemma moves_keyed: "moves s H S s' H' S' \<Longrightarrow> keyed_by_id (rows s) \<Longrightarrow> keyed_by_id (rows s')"
  by (auto simp: moves_def keyed_by_id_def started_row_def split: if_splits)

lemma moves_knows:
  assumes "moves s H S s' H' S'" and "stable_for G K" and "K (rows s)" and "\<And>i. str_uuid i \<in># H \<Longrightarrow> str_uuid i \<notin># G"
  shows "K (rows s')"
  using assms unfolding moves_def stable_for_def by metis

lemma moves_fate:
  assumes m: "moves s H S s' H' S'" and f: "fate t0 (rows s) (0 < b) i"
    and b: "b' + count S (str_uuid i) = b + count S' (str_uuid i)"
    and one: "count H (str_uuid i) + b \<le> 1"
  shows "fate t0 (rows s') (0 < b') i"
proof (cases "rows s' = rows s \<and> S' = S")
  case True
  then show ?thesis using f b by simp
next
  case False
  then obtain i' j t where g: "str_uuid i' \<in># H" "rows s i' = Some j" "status j = ''queued''"
      "rows s' = (rows s)(i' \<mapsto> started_row j t)" "S' = add_mset (str_uuid i') S"
    using m unfolding moves_def by blast
  show ?thesis
  proof (cases "i' = i")
    case True
    with g(1) have "1 \<le> count H (str_uuid i)" by (simp add: Suc_le_eq)
    with one have "b = 0" by linarith
    then show ?thesis using f b g True by (auto simp: fate_def)
  next
    case False
    then have "b' = b" and "rows s' i = rows s i" using b g(4,5) by simp_all
    then show ?thesis using f by (simp only: fate_def)
  qed
qed

lemma crew_step:
  assumes "par_step c c'" and "crew view s0 c X"
  shows "\<exists>X'. crew view s0 c' X'"
  using assms
proof (induction rule: par_step.induct)
  case (1 k ts f w t w')
  let ?s = "view w" and ?s' = "view w'" and ?x = "X ! k"
  note kts = 1(1)
  note c = 1(4) [unfolded crew_def fst_conv snd_conv]
  note threads = c [THEN conjunct1]
  note keyed = c [THEN conjunct2, THEN conjunct1]
  note one = c [THEN conjunct2, THEN conjunct2, THEN conjunct1, rule_format]
  note named = c [THEN conjunct2, THEN conjunct2, THEN conjunct2, THEN conjunct1, rule_format]
  note kept = c [THEN conjunct2, THEN conjunct2, THEN conjunct2, THEN conjunct2, THEN conjunct1, rule_format]
  note fates = c [THEN conjunct2, THEN conjunct2, THEN conjunct2, THEN conjunct2, THEN conjunct2, rule_format]
  have k: "k < length X" using threads 1(1) by (simp add: list_all2_lengthD)
  have x: "works view (held ?x) (begun ?x) (knows ?x) (Await f)" "knows ?x (rows ?s)"
    using list_all2_nthD [OF threads k] 1(2) by simp_all
  have "sane ?s" using keyed named by (auto simp: sane_def)
  from works_awaitE [OF x(1)] this x(2) obtain H S K where
    m: "moves ?s (held ?x) (begun ?x) ?s' H S" and K: "K (rows ?s')" "stable_for H K" "works view H S K t"
    using 1(3) by (metis fst_conv snd_conv)
  let ?X = "X[k := \<lparr>held = H, begun = S, knows = K\<rparr>]"
  have h: "in_hand held ?X m + count (held ?x) m = in_hand held X m + count H m"
    and b: "in_hand begun ?X m + count (begun ?x) m = in_hand begun X m + count S m" for m
    using in_hand_update [OF k, of held] in_hand_update [OF k, of begun] by simp_all
  note le = m [unfolded moves_def, THEN conjunct1, rule_format]
  note ge = m [unfolded moves_def, THEN conjunct2, THEN conjunct1, rule_format]
  have total: "places ?s' m + in_hand held ?X m + in_hand begun ?X m \<le> places ?s m + in_hand held X m + in_hand begun X m" for m
    using le [of m] h [of m] b [of m] by linarith
  have "crew view s0 (ts[k := t], w') ?X"
    unfolding crew_def fst_conv snd_conv
  proof (intro conjI allI impI, goal_cases)
    case 1
    have other: "knows (X ! l) (rows ?s')" if l: "l < length X" "l \<noteq> k" for l
    proof (rule moves_knows [OF m])
      show "stable_for (held (X ! l)) (knows (X ! l))" "knows (X ! l) (rows ?s)"
        using list_all2_nthD [OF threads l(1)] by simp_all
      show "str_uuid i \<notin># held (X ! l)" if "str_uuid i \<in># held ?x" for i
      proof -
        have "count (held ?x) (str_uuid i) + count (held (X ! l)) (str_uuid i) \<le> 1"
          using in_hand_two [OF k l(1), of held "str_uuid i"] l(2) one [of "str_uuid i"] by simp
        moreover have "1 \<le> count (held ?x) (str_uuid i)" using that by (simp add: Suc_le_eq)
        ultimately show ?thesis unfolding not_in_iff by linarith
      qed
    qed
    show ?case
    proof (rule list_all2_all_nthI)
      show "length ?X = length (ts[k := t])" using list_all2_lengthD [OF threads] by simp
      fix l assume "l < length ?X"
      then have l: "l < length X" by simp
      show "works view (held (?X ! l)) (begun (?X ! l)) (knows (?X ! l)) (ts[k := t] ! l) \<and>
          stable_for (held (?X ! l)) (knows (?X ! l)) \<and> knows (?X ! l) (rows ?s')"
      proof (cases "l = k")
        case True
        then show ?thesis unfolding True nth_list_update_eq [OF k] nth_list_update_eq [OF kts] using K by simp
      next
        case False
        then have same: "?X ! l = X ! l" "ts[k := t] ! l = ts ! l" by simp_all
        note p = list_all2_nthD [OF threads l]
        show ?thesis
          unfolding same by (intro conjI p [THEN conjunct1] p [THEN conjunct2, THEN conjunct1] other [OF l False])
      qed
    qed
  next
    case 2
    show ?case by (rule moves_keyed [OF m keyed])
  next
    case (3 m)
    show ?case using total [of m] one [of m] by linarith
  next
    case (4 m)
    show ?case using total [of m] 4 by (intro named) linarith
  next
    case (5 n)
    have "0 < places ?s n + in_hand held X n" by (rule kept [OF moves_waiting [OF m 5(1)] 5(2)])
    moreover have "0 < places ?s' n + count H n" if "0 < places ?s n + count (held ?x) n" by (rule ge [OF 5(1) that])
    ultimately show ?case using h [of n] in_hand_one [OF k, of held n] by (cases "0 < places ?s n + count (held ?x) n") linarith+
  next
    case (6 i)
    have "count (held ?x) (str_uuid i) + in_hand begun X (str_uuid i) \<le> 1"
      using one [of "str_uuid i"] in_hand_one [OF k, of held "str_uuid i"] by linarith
    then show ?case by (rule moves_fate [OF m fates b])
  qed
  then show ?case ..
qed

lemma crew_steps:
  assumes "par_step\<^sup>*\<^sup>* c c'" and "crew view s0 c X"
  shows "\<exists>X'. crew view s0 c' X'"
  using assms by (induction arbitrary: X rule: rtranclp_induct) (blast intro: crew_step)+

lemma crew_start:
  assumes "reliable_services A view" and "tracked (view w)" and "\<forall>m. places (view w) m \<le> 1"
  shows "crew view (view w) (replicate n (claim_phase_thread A), w)
    (replicate n \<lparr>held = {#}, begun = {#}, knows = known\<rparr>)"
proof -
  have none: "in_hand f (replicate n x) m = 0" if "f x = {#}" for f :: "watch \<Rightarrow> string multiset" and x m
    using that by (induction n) (simp_all add: in_hand_def)
  have "keyed_by_id (rows (view w))" using tracked_but_good [OF assms(2)] by (simp add: good_table_def)
  moreover have "m \<in> range str_uuid" if "0 < places (view w) m" for m
    using tracked_but_named [OF assms(2)] that by (auto simp: queued_in_places)
  ultimately show ?thesis
    using assms(3) reliable_services.works_claim_phase [OF assms(1)]
    by (simp add: crew_def none fate_def list_all2_conv_all_nth)
qed

fun claimed_ids :: "(string \<times> claimed_job) option list \<Rightarrow> string list" where
  "claimed_ids [] = []"
| "claimed_ids (None # rs) = claimed_ids rs"
| "claimed_ids (Some (jid, c) # rs) = jid # claimed_ids rs"

lemma ended_in_hand:
  assumes "list_all2 (\<lambda>x r. works view (held x) (begun x) (knows x) (Finished (Inr r))) X rs"
  shows "in_hand held X m = 0" and "in_hand begun X m = count (mset (claimed_ids rs)) m"
  using assms by (induction X rs rule: list_all2_induct)
    (auto simp: in_hand_def started_of_def elim!: works_finishedE split: option.splits)

lemma count_le_1_distinct: "(\<And>m. count (mset xs) m \<le> 1) \<Longrightarrow> distinct xs"
  unfolding distinct_count_atmost_1 by (metis count_mset_0_iff le_antisym less_one linorder_not_less)

text \<open>A crew that has come to its end.\<close>

lemma crew_ended:
  assumes "reliable_services A view" and "tracked (view w)" and "\<forall>m. places (view w) m \<le> 1"
    and "par_step\<^sup>*\<^sup>* (replicate n (claim_phase_thread A), w) (ts, w')" and "\<not> (\<exists>c. par_step (ts, w') c)"
  shows "\<exists>rs. ts = map (\<lambda>r. Finished (Inr r)) rs \<and> length rs = n \<and> distinct (claimed_ids rs) \<and>
     (\<forall>i. fate (rows (view w)) (rows (view w')) (str_uuid i \<in> set (claimed_ids rs)) i) \<and>
     (\<forall>i j. rows (view w') i = Some j \<and> status j = ''queued'' \<longrightarrow> queued_in (view w') (str_uuid i))"
proof -
  obtain X where X: "crew view (view w) (ts, w') X" using crew_steps crew_start [OF assms(1-3)] assms(4) by blast
  note c = X [unfolded crew_def fst_conv snd_conv]
  note threads = c [THEN conjunct1]
  have len: "length ts = n" "length X = length ts"
    using par_steps_length [OF assms(4)] list_all2_lengthD [OF threads] by simp_all
  have "\<exists>r. ts ! i = Finished (Inr r)" if "i < length ts" for i
    using no_step_finished [OF assms(5) that] list_all2_nthD2 [OF threads that] works_finished by metis
  then obtain r where r: "\<And>i. i < length ts \<Longrightarrow> ts ! i = Finished (Inr (r i))" by metis
  let ?rs = "map r [0..<length ts]"
  have ts: "ts = map (\<lambda>r. Finished (Inr r)) ?rs" using r by (auto intro!: nth_equalityI)
  have "list_all2 (\<lambda>x r. works view (held x) (begun x) (knows x) (Finished (Inr r))) X ?rs"
    using threads r len(2) by (simp add: list_all2_conv_all_nth)
  note hand = ended_in_hand [OF this]
  have "count (mset (claimed_ids ?rs)) m \<le> 1" for m
    using c [THEN conjunct2, THEN conjunct2, THEN conjunct1, rule_format, of m] unfolding hand by linarith
  then have once: "distinct (claimed_ids ?rs)" by (rule count_le_1_distinct)
  have fates: "fate (rows (view w)) (rows (view w')) (str_uuid i \<in> set (claimed_ids ?rs)) i" for i
    using c [THEN conjunct2, THEN conjunct2, THEN conjunct2, THEN conjunct2, THEN conjunct2, rule_format, of i]
    by (simp only: hand count_greater_zero_iff set_mset_mset)
  have waiting: "queued_in (view w') (str_uuid i)" if j: "rows (view w') i = Some j" "status j = ''queued''" for i j
  proof -
    have "rows (view w) i = Some j"
      using fates [of i] j by (auto simp: fate_def started_row_def split: if_splits)
    then have p: "0 < places (view w) (str_uuid i)"
      using assms(2) j(2) by (auto simp: tracked_but_def queued_in_places)
    have q: "waiting_row (rows (view w')) (str_uuid i)" using j by (auto simp: waiting_row_def)
    have "0 < places (view w') (str_uuid i) + in_hand held X (str_uuid i)"
      by (rule c [THEN conjunct2, THEN conjunct2, THEN conjunct2, THEN conjunct2, THEN conjunct1, rule_format, OF q p])
    then show ?thesis by (simp add: hand(1) queued_in_places)
  qed
  have len_rs: "length ?rs = n" using len(1) by simp
  have "ts = map (\<lambda>r. Finished (Inr r)) ?rs \<and> length ?rs = n \<and> distinct (claimed_ids ?rs) \<and>
      (\<forall>i. fate (rows (view w)) (rows (view w')) (str_uuid i \<in> set (claimed_ids ?rs)) i) \<and>
      (\<forall>i j. rows (view w') i = Some j \<and> status j = ''queued'' \<longrightarrow> queued_in (view w') (str_uuid i))"
  proof (intro conjI allI impI)
    fix i j assume "rows (view w') i = Some j \<and> status j = ''queued''"
    then show "queued_in (view w') (str_uuid i)" by (elim conjE) (rule waiting)
  qed (rule ts, rule len_rs, rule once, rule fates)
  then show ?thesis by (rule exI [of _ ?rs])
qed

text \<open>
  C6: A job is claimed once and none is forgotten. Let any number of workers run the claim
  phase of their loop at the same time, their commands interleaved in any way, with services
  that do not fail, from a store where every queued row has its identifier in a queue and no
  identifier is queued twice. Every run ends with all of them returned; no two have claimed
  the same job; exactly the rows of the claimed jobs have changed, each from queued by one
  start, with one attempt counted; and every row that is still queued has its identifier in a
  queue.
\<close>
theorem concurrent_claims:
  assumes "reliable_services A view" and "tracked (view w)" and "\<forall>m. places (view w) m \<le> 1"
  shows "run (claim_phase_thread A) = claim_phase A \<and>
     \<not> (\<exists>c. c 0 = (replicate n (claim_phase_thread A), w) \<and> (\<forall>i. par_step (c i) (c (Suc i)))) \<and>
     (\<forall>ts w'. par_step\<^sup>*\<^sup>* (replicate n (claim_phase_thread A), w) (ts, w') \<and> \<not> (\<exists>c. par_step (ts, w') c) \<longrightarrow>
        (\<exists>rs. ts = map (\<lambda>r. Finished (Inr r)) rs \<and> length rs = n \<and> distinct (claimed_ids rs) \<and>
           (\<forall>i. fate (rows (view w)) (rows (view w')) (str_uuid i \<in> set (claimed_ids rs)) i) \<and>
           (\<forall>i j. rows (view w') i = Some j \<and> status j = ''queued'' \<longrightarrow> queued_in (view w') (str_uuid i))))"
proof (intro conjI allI impI, goal_cases)
  case 1
  show ?case by (rule run_claim_phase)
next
  case 2
  show ?case by (rule runs_end)
next
  case (3 ts w')
  then show ?case by (elim conjE) (rule crew_ended [OF assms])
qed

text \<open>Two workers, one job in the priority queue, their commands alternating.\<close>

lemma alternating_claims:
  "case schedule (concat (replicate 20 [0, 1])) (replicate 2 (claim_phase_thread (mem_app False)), busy_mem []) of (ts, w') \<Rightarrow>
     \<exists>c. ts = map (\<lambda>r. Finished (Inr r)) [Some (str_uuid 7, c), None]"
  by (simp add: claim_thread_defs numeral_2_eq_2
      truthy_def run_defs start_writes_def busy_mem_def zsorted_def counter_names_def histogram_names_def sample_row_good str_uuid_nonempty
      numeral_eq_Suc)

theorem concurrent_claims_witness:
  "\<exists>c t w'. par_step\<^sup>*\<^sup>* (replicate 2 (claim_phase_thread (mem_app False)), busy_mem [])
       (map (\<lambda>r. Finished (Inr r)) [Some (str_uuid 7, c), None], w') \<and>
     rows (mem_view w') 7 = Some (started_row sample_row t)"
proof -
  let ?c = "(replicate 2 (claim_phase_thread (mem_app False)), busy_mem [])"
  obtain ts w' where s: "schedule (concat (replicate 20 [0, 1])) ?c = (ts, w')" by fastforce
  then obtain c where ts: "ts = map (\<lambda>r. Finished (Inr r)) [Some (str_uuid 7, c), None]" using alternating_claims by auto
  have run: "par_step\<^sup>*\<^sup>* ?c (ts, w')" using schedule_steps [of ?c] s by metis
  have fin: "\<not> (\<exists>d. par_step (ts, w') d)" unfolding ts by (auto elim!: par_stepE simp: nth_Cons split: nat.splits)
  have "places (mem_view (busy_mem [])) m \<le> 1" for m by (simp add: places_def busy_mem_def mem_init_def)
  then have "\<forall>m. places (mem_view (busy_mem [])) m \<le> 1" by blast
  from concurrent_claims [OF mem_reliable_services busy_tracked this, THEN conjunct2, THEN conjunct2, rule_format, OF conjI, OF run fin]
  obtain rs where rs: "ts = map (\<lambda>r. Finished (Inr r)) rs"
      "fate (rows (mem_view (busy_mem []))) (rows (mem_view w')) (str_uuid 7 \<in> set (claimed_ids rs)) 7" by blast
  have "rs = [Some (str_uuid 7, c), None]" using rs(1) ts by (auto simp: map_eq_Cons_conv)
  then have "\<exists>t. rows (mem_view w') 7 = Some (started_row sample_row t)"
    using rs(2) by (auto simp: fate_def busy_mem_def)
  then show ?thesis using run unfolding ts by blast
qed

end
