(* ===== verification/Concurrent_Creates.thy ===== *)
theory Concurrent_Creates
  imports Op_Threads
begin

section \<open>One key, many requests at once\<close>

text \<open>
  Any number of requests with the same idempotency key reach the service together, their
  commands interleaved in any way. The code looks the key up, and when it finds nothing it
  inserts and relies on the unique index: whoever loses reads the winner's row. The ghost
  component of the proof is the winner, the thread whose insert was committed.
  PostgreSQL lets an insert of a key that an open transaction has inserted wait for that
  transaction; here it goes on and is refused at its own commit at the latest, which leaves
  more interleavings to the proof.
\<close>

subsection \<open>The table is the old one, or has the winner's row\<close>

type_synonym ghosted = "store \<times> nat option"

definition requested :: "job_create \<Rightarrow> job \<Rightarrow> bool" where
  "requested jc j \<longleftrightarrow>
     (\<exists>i c tp. j = new_job i c (jc_type jc) (payload_with_trace (jc_payload jc) tp) (jc_priority jc)
                     (jc_idempotency_key jc) (jc_max_attempts jc))"

lemma requested_key: "requested jc j \<Longrightarrow> idempotency_key j = jc_idempotency_key jc"
  by (auto simp: requested_def)

definition won :: "table \<Rightarrow> job_create list \<Rightarrow> nat \<Rightarrow> job \<Rightarrow> ghosted \<Rightarrow> bool" where
  "won t jcs l j s \<longleftrightarrow>
     snd s = Some l \<and> l < length jcs \<and> requested (jcs ! l) j \<and> job_id j \<notin> dom t \<and> rows (fst s) = t(job_id j \<mapsto> j)"

definition unwon :: "table \<Rightarrow> ghosted \<Rightarrow> bool" where
  "unwon t s \<longleftrightarrow> snd s = None \<and> rows (fst s) = t"

definition fair :: "table \<Rightarrow> job_create list \<Rightarrow> ghosted \<Rightarrow> bool" where
  "fair t jcs s \<longleftrightarrow> unwon t s \<or> (\<exists>l j. won t jcs l j s)"

text \<open>Thread \<open>k\<close> leaves the rows alone, or wins.\<close>

definition by_thread :: "table \<Rightarrow> job_create list \<Rightarrow> nat \<Rightarrow> ghosted \<Rightarrow> ghosted \<Rightarrow> bool" where
  "by_thread t jcs k s s' \<longleftrightarrow>
     snd s' = snd s \<and> rows (fst s') = rows (fst s) \<or> unwon t s \<and> (\<exists>j. won t jcs k j s')"

definition by_others :: "table \<Rightarrow> job_create list \<Rightarrow> nat \<Rightarrow> ghosted \<Rightarrow> ghosted \<Rightarrow> bool" where
  "by_others t jcs k s s' \<longleftrightarrow> (\<exists>l. l \<noteq> k \<and> by_thread t jcs l s s')"

text \<open>What thread \<open>k\<close> may know: nothing yet, or the winner's row.\<close>

definition open_race :: "table \<Rightarrow> job_create list \<Rightarrow> nat \<Rightarrow> ghosted \<Rightarrow> bool" where
  "open_race t jcs k s \<longleftrightarrow> unwon t s \<or> (\<exists>l j. l \<noteq> k \<and> won t jcs l j s)"

definition lost_to :: "table \<Rightarrow> job_create list \<Rightarrow> nat \<Rightarrow> job \<Rightarrow> ghosted \<Rightarrow> bool" where
  "lost_to t jcs k j s \<longleftrightarrow> (\<exists>l. l \<noteq> k \<and> won t jcs l j s)"

definition answered :: "table \<Rightarrow> job_create list \<Rightarrow> nat \<Rightarrow> exn + job \<times> bool \<Rightarrow> ghosted \<Rightarrow> bool" where
  "answered t jcs k r s \<longleftrightarrow> (\<exists>l j. won t jcs l j s \<and> r = Inr (j, k = l))"

text \<open>The \<open>try\<close> block of a creation ends with the thread's own row, or refused by the unique index.\<close>

definition refused :: "table \<Rightarrow> job_create list \<Rightarrow> nat \<Rightarrow> exn + 'a \<Rightarrow> ghosted \<Rightarrow> bool" where
  "refused t jcs k r s \<longleftrightarrow> (\<exists>e. r = Inl e \<and> is_integrity e) \<and> (\<exists>j. lost_to t jcs k j s)"

definition tried :: "table \<Rightarrow> job_create list \<Rightarrow> nat \<Rightarrow> exn + job \<times> bool \<Rightarrow> ghosted \<Rightarrow> bool" where
  "tried t jcs k r s \<longleftrightarrow> (\<exists>j. won t jcs k j s \<and> r = Inr (j, True)) \<or> refused t jcs k r s"

lemma by_othersI: "k \<noteq> l \<Longrightarrow> by_thread t jcs l s s' \<Longrightarrow> by_others t jcs k s s'"
  unfolding by_others_def by (intro exI [of _ l]) simp

lemma won_stays: "won t jcs l j s \<Longrightarrow> by_thread t jcs k s s' \<Longrightarrow> won t jcs l j s'"
  by (auto simp: won_def by_thread_def unwon_def)

lemma won_row:
  assumes "won t jcs l j s"
  shows "snd s = Some l" and "rows (fst s) (job_id j) = Some j" and "i \<noteq> job_id j \<Longrightarrow> rows (fst s) i = t i"
    and "t (job_id j) = None"
  using assms by (auto simp: won_def domIff)

lemma won_unique:
  assumes "won t jcs l j s" and "won t jcs l' j' s" shows "l' = l \<and> j' = j"
proof
  show "l' = l" using won_row(1) [OF assms(1)] won_row(1) [OF assms(2)] by simp
  show "j' = j"
  proof (cases "job_id j' = job_id j")
    case True
    then show ?thesis using won_row(2) [OF assms(1)] won_row(2) [OF assms(2)] by simp
  next
    case False
    then show ?thesis using won_row(2,4) [OF assms(1)] won_row(3) [OF assms(2), of "job_id j"] by simp
  qed
qed

lemma withstands_won: "withstands (won t jcs l j) (by_others t jcs k)"
  by (auto simp: withstands_def by_others_def intro: won_stays)

lemma withstands_lost: "withstands (lost_to t jcs k j) (by_others t jcs k)"
  by (auto simp: withstands_def lost_to_def by_others_def intro: won_stays)

lemma withstands_answered: "withstands (answered t jcs k r) (by_others t jcs k)"
  by (auto simp: withstands_def answered_def by_others_def intro: won_stays)

lemma withstands_open: "withstands (open_race t jcs k) (by_others t jcs k)"
proof (unfold withstands_def, intro allI impI)
  fix s s'
  assume o: "open_race t jcs k s" and "by_others t jcs k s s'"
  then obtain l where l: "l \<noteq> k" "by_thread t jcs l s s'" by (auto simp: by_others_def)
  show "open_race t jcs k s'"
  proof (cases "unwon t s")
    case True
    then show ?thesis using l by (auto simp: by_thread_def open_race_def unwon_def)
  next
    case False
    then show ?thesis using o won_stays [OF _ l(2)] by (auto simp: open_race_def)
  qed
qed

lemma withstands_tried: "withstands (tried t jcs k r) (by_others t jcs k)"
proof -
  have "withstands (\<lambda>s. \<exists>j. won t jcs k j s \<and> r = Inr (j, True)) (by_others t jcs k)"
    using withstands_won [of t jcs k] by (auto simp: withstands_def)
  moreover have "withstands (refused t jcs k r) (by_others t jcs k)"
    unfolding refused_def by (intro withstands_and withstands_ex withstands_lost)
  ultimately show ?thesis unfolding tried_def by (intro withstands_or)
qed

lemmas creates_stable = withstands_won withstands_lost withstands_answered withstands_open withstands_tried

subsection \<open>Commands that leave the rows alone\<close>

definition calm :: "('w \<Rightarrow> store) \<Rightarrow> ('w, 'a) io \<Rightarrow> bool" where
  "calm view m \<longleftrightarrow> (\<forall>w. wp m (\<lambda>_ w'. rows (view w') = rows (view w)) (\<lambda>_ _. False) w)"

lemma calm_data: "leaves_data view m \<Longrightarrow> calm view m"
  unfolding calm_def leaves_data_def by (blast intro: wp_mono data_eqD(3))

lemma calm_return: "calm view (return_io a)"
  by (simp add: calm_def wp_return)

abbreviation does ::
  "('w \<Rightarrow> store) \<Rightarrow> table \<Rightarrow> job_create list \<Rightarrow> nat \<Rightarrow> (ghosted \<Rightarrow> bool) \<Rightarrow> ('w, job \<times> bool) thread \<Rightarrow> bool" where
  "does view t jcs k \<equiv> sat view (by_others t jcs k) (by_thread t jcs k) (answered t jcs k)"

abbreviation tries ::
  "('w \<Rightarrow> store) \<Rightarrow> table \<Rightarrow> job_create list \<Rightarrow> nat \<Rightarrow> (ghosted \<Rightarrow> bool) \<Rightarrow> ('w, job \<times> bool) thread \<Rightarrow> bool" where
  "tries view t jcs k \<equiv> sat view (by_others t jcs k) (by_thread t jcs k) (tried t jcs k)"

text \<open>The assertions of a proof outline: they speak of the rows and withstand the others.\<close>

definition assertion :: "table \<Rightarrow> job_create list \<Rightarrow> nat \<Rightarrow> (ghosted \<Rightarrow> bool) \<Rightarrow> bool" where
  "assertion t jcs k P \<longleftrightarrow>
     withstands P (by_others t jcs k) \<and> (\<forall>s s' g. P (s, g) \<longrightarrow> rows s' = rows s \<longrightarrow> P (s', g))"

lemma assertions:
  "assertion t jcs k (open_race t jcs k)" "assertion t jcs k (lost_to t jcs k j)" "assertion t jcs k (won t jcs k j)"
  using creates_stable
  by (auto simp: assertion_def open_race_def unwon_def lost_to_def won_def)

lemma sat_calm:
  assumes "calm view m" and "assertion t jcs k P" and "\<And>e. withstands (Q (Inl e)) (by_others t jcs k)"
    and "\<And>a. sat view (by_others t jcs k) (by_thread t jcs k) Q P (K a)"
  shows "sat view (by_others t jcs k) (by_thread t jcs k) Q P (bind_thread (atomic m) K)"
proof (rule sat_command [where B = "\<lambda>_. P"])
  fix w g
  assume p: "P (view w, g)"
  show "wp m (\<lambda>a w'. \<exists>g'. by_thread t jcs k (view w, g) (view w', g') \<and> P (view w', g'))
      (\<lambda>e w'. \<exists>g'. by_thread t jcs k (view w, g) (view w', g') \<and> Q (Inl e) (view w', g')) w"
    by (rule wp_mono [OF assms(1) [unfolded calm_def, rule_format]])
       (use p assms(2) in \<open>auto simp: by_thread_def assertion_def\<close>)
qed (use assms in \<open>auto simp: assertion_def\<close>)

lemmas does_calm = sat_calm [where Q = "answered t jcs k" for t jcs k, OF _ _ withstands_answered]
lemmas tries_calm = sat_calm [where Q = "tried t jcs k" for t jcs k, OF _ _ withstands_tried]

context reliable_services
begin

lemma calm_commands:
  "calm view (count_io A n i ats)" "calm view (record_elapsed A c u)" "calm view (read_io (clock_perf A))"
  "calm view (priority_score A p)" "calm view (read_io (trace_parent A))" "calm view (zadd A key m sc)"
  "calm view (db_rollback A)"
  using quiet_commands [THEN calm_data]
  by (auto simp: calm_def intro!: wp_trace wp_call_total [OF zadd_law redis_total(1)]
      wp_call_total [OF rollback_law query_total(8)])

lemma does_enqueue:
  assumes "assertion t jcs k P" and "\<And>a. does view t jcs k P (K a)"
  shows "does view t jcs k P (bind_thread (enqueue_priority_thread A jid p typ) K)"
  unfolding enqueue_priority_thread_def timed_thread_def bind_thread_assoc bind_return_thread
  by (intro does_calm [OF _ assms(1)] calm_commands assms(2))

end

locale one_key = reliable_services +
  fixes t :: table and jcs :: "job_create list" and key :: string
  assumes key_given: "key \<noteq> ''''" and same_key: "jc \<in> set jcs \<Longrightarrow> jc_idempotency_key jc = Some key"
    and key_new: "j \<in> ran t \<Longrightarrow> idempotency_key j \<noteq> Some key"
    and ids_new: "fst (rnd_uuid4 A v) \<notin> dom t"
begin

lemma won_key: "won t jcs l j s \<Longrightarrow> idempotency_key j = Some key"
  using same_key by (auto simp: won_def dest: requested_key)

lemma matching_unwon: "unwon t (s, g) \<Longrightarrow> matching (\<lambda>j. idempotency_key j = Some key) s = {}"
  using key_new by (auto simp: unwon_def matching_def)

lemma matching_won:
  assumes "won t jcs l j (s, g)" shows "matching (\<lambda>j. idempotency_key j = Some key) s = {j}"
proof -
  have "rows s = t(job_id j \<mapsto> j)" "t (job_id j) = None" using assms by (auto simp: won_def)
  then have "ran (rows s) = insert j (ran t)" by simp
  then show ?thesis using won_key [OF assms] key_new by (auto simp: matching_def)
qed

lemma does_lookup:
  assumes "k < length jcs" and "does view t jcs k (open_race t jcs k) (K [])" and "\<And>j. does view t jcs k (lost_to t jcs k j) (K [j])"
  shows "does view t jcs k (open_race t jcs k)
     (bind_thread (atomic (db_where A (\<lambda>j. idempotency_key j = jc_idempotency_key (jcs ! k)))) K)"
proof (rule sat_command [where B = "\<lambda>xs s. xs = [] \<and> open_race t jcs k s \<or> (\<exists>j. xs = [j] \<and> lost_to t jcs k j s)"])
  fix w g
  assume o: "open_race t jcs k (view w, g)"
  have q: "jc_idempotency_key (jcs ! k) = Some key" using assms(1) same_key by simp
  show "wp (db_where A (\<lambda>j. idempotency_key j = jc_idempotency_key (jcs ! k)))
      (\<lambda>xs w'. \<exists>g'. by_thread t jcs k (view w, g) (view w', g') \<and>
         (xs = [] \<and> open_race t jcs k (view w', g') \<or> (\<exists>j. xs = [j] \<and> lost_to t jcs k j (view w', g'))))
      (\<lambda>e w'. \<exists>g'. by_thread t jcs k (view w, g) (view w', g') \<and> answered t jcs k (Inl e) (view w', g')) w"
    unfolding q
  proof (rule wp_call_total [OF where_law query_total(2)])
    fix xs w'
    assume r: "view w' = view w \<and> distinct xs \<and> set xs = matching (\<lambda>j. idempotency_key j = Some key) (view w)"
    have b: "by_thread t jcs k (view w, g) (view w', g)" using r by (simp add: by_thread_def)
    have "xs = [] \<and> open_race t jcs k (view w', g) \<or> (\<exists>j. xs = [j] \<and> lost_to t jcs k j (view w', g))"
    proof (cases "unwon t (view w, g)")
      case True
      then show ?thesis using r o matching_unwon by simp
    next
      case False
      then obtain l j where l: "l \<noteq> k" "won t jcs l j (view w, g)" using o by (auto simp: open_race_def)
      then have "xs = [j]" using r matching_won singleton_list by metis
      then show ?thesis using l r by (auto simp: lost_to_def)
    qed
    with b show "\<exists>g'. by_thread t jcs k (view w, g) (view w', g') \<and>
         (xs = [] \<and> open_race t jcs k (view w', g') \<or> (\<exists>j. xs = [j] \<and> lost_to t jcs k j (view w', g')))" by blast
  qed
qed (intro withstands_or withstands_and withstands_ex creates_stable sat_disj sat_fact sat_ex; use assms in auto)+

lemma does_lookup_lost:
  assumes "k < length jcs" and "does view t jcs k (lost_to t jcs k j) (K [j])"
  shows "does view t jcs k (lost_to t jcs k j)
     (bind_thread (atomic (db_where A (\<lambda>j. idempotency_key j = jc_idempotency_key (jcs ! k)))) K)"
proof (rule sat_command [where B = "\<lambda>xs s. xs = [j] \<and> lost_to t jcs k j s"])
  fix w g
  assume o: "lost_to t jcs k j (view w, g)"
  have q: "jc_idempotency_key (jcs ! k) = Some key" using assms(1) same_key by simp
  show "wp (db_where A (\<lambda>j. idempotency_key j = jc_idempotency_key (jcs ! k)))
      (\<lambda>xs w'. \<exists>g'. by_thread t jcs k (view w, g) (view w', g') \<and> xs = [j] \<and> lost_to t jcs k j (view w', g'))
      (\<lambda>e w'. \<exists>g'. by_thread t jcs k (view w, g) (view w', g') \<and> answered t jcs k (Inl e) (view w', g')) w"
    unfolding q
  proof (rule wp_call_total [OF where_law query_total(2)])
    fix xs w'
    assume r: "view w' = view w \<and> distinct xs \<and> set xs = matching (\<lambda>j. idempotency_key j = Some key) (view w)"
    then have "xs = [j]" using o matching_won singleton_list unfolding lost_to_def by metis
    then show "\<exists>g'. by_thread t jcs k (view w, g) (view w', g') \<and> xs = [j] \<and> lost_to t jcs k j (view w', g')"
      using o r by (auto simp: by_thread_def)
  qed
qed (intro withstands_and creates_stable sat_fact; use assms in simp)+

text \<open>The loser's answer.\<close>

lemma does_replay:
  assumes "k < length jcs"
  shows "does view t jcs k (lost_to t jcs k j)
     (bind_thread (atomic (count_io A n i ats)) (\<lambda>_. return_thread (j, False)))"
  by (rule does_calm [OF calm_commands(1) assertions(2)], rule sat_return) (auto simp: lost_to_def answered_def)

lemma conflict_won:
  assumes "unwon t (s, g) \<or> (\<exists>l j. won t jcs l j (s, g))" and "idempotency_key r = Some key" and "job_id r \<notin> dom t"
  shows "insert_conflicts r (rows s) \<longleftrightarrow> (\<exists>l j. won t jcs l j (s, g))"
proof
  assume c: "insert_conflicts r (rows s)"
  have "\<not> unwon t (s, g)"
  proof
    assume "unwon t (s, g)"
    then have "rows s = t" by (simp add: unwon_def)
    then show False using c assms(2,3) key_new by (auto simp: insert_conflicts_def ran_def)
  qed
  then show "\<exists>l j. won t jcs l j (s, g)" using assms(1) by blast
next
  assume "\<exists>l j. won t jcs l j (s, g)"
  then obtain l j where w: "won t jcs l j (s, g)" by blast
  then have "j \<in> ran (rows s)" by (auto simp: won_def ran_def)
  then show "insert_conflicts r (rows s)" using won_key [OF w] assms(2) by (auto simp: insert_conflicts_def ran_def)
qed

text \<open>The flush and the commit: through with the race open, refused when it is lost.\<close>

lemma open_cases: "open_race t jcs k s \<Longrightarrow> unwon t s \<or> (\<exists>l j. won t jcs l j s)"
  by (auto simp: open_race_def)

lemma open_lost: "open_race t jcs k (s, g) \<Longrightarrow> won t jcs l j (s, g) \<Longrightarrow> lost_to t jcs k j (s, g)"
  by (auto simp: open_race_def lost_to_def unwon_def won_def map_upd_eqD1)

lemma tries_insert:
  assumes k: "k < length jcs" and j: "requested (jcs ! k) j" "job_id j \<notin> dom t"
  shows "tries view t jcs k (open_race t jcs k)
     (bind_thread (atomic (db_commit A [InsertJob j])) (\<lambda>_.
      bind_thread (atomic (count_io A n i ats)) (\<lambda>_. return_thread (j, True))))"
proof (rule sat_command [where B = "\<lambda>_. won t jcs k j"])
  fix w g
  assume o: "open_race t jcs k (view w, g)"
  have key: "idempotency_key j = Some key" using same_key k j(1) by (simp add: requested_key)
  note c = conflict_won [OF open_cases [OF o] key j(2)]
  show "wp (db_commit A [InsertJob j])
      (\<lambda>_ w'. \<exists>g'. by_thread t jcs k (view w, g) (view w', g') \<and> won t jcs k j (view w', g'))
      (\<lambda>e w'. \<exists>g'. by_thread t jcs k (view w, g) (view w', g') \<and> tried t jcs k (Inl e) (view w', g')) w"
  proof (rule wp_insert_cases)
    fix w'
    assume "\<not> insert_conflicts j (rows (view w))" and v: "view w' = (view w)\<lparr>rows := (rows (view w))(job_id j \<mapsto> j)\<rparr>"
    then have u: "unwon t (view w, g)" using c o by (auto simp: open_race_def)
    then have "won t jcs k j (view w', Some k)" using v k j by (simp add: won_def unwon_def)
    then show "\<exists>g'. by_thread t jcs k (view w, g) (view w', g') \<and> won t jcs k j (view w', g')"
      using u by (auto simp: by_thread_def)
  next
    fix e w'
    assume e: "is_integrity e" and x: "insert_conflicts j (rows (view w))" and v: "view w' = view w"
    obtain l r where "won t jcs l r (view w, g)" using c x by blast
    then have "lost_to t jcs k r (view w', g)" using open_lost [OF o] v by simp
    then show "\<exists>g'. by_thread t jcs k (view w, g) (view w', g') \<and> tried t jcs k (Inl e) (view w', g')"
      using e v by (auto simp: by_thread_def tried_def refused_def)
  qed
next
  show "tries view t jcs k (won t jcs k j) (bind_thread (atomic (count_io A n i ats)) (\<lambda>_. return_thread (j, True)))"
    by (rule tries_calm [OF calm_commands(1) assertions(3)], rule sat_return) (auto simp: tried_def)
qed (rule creates_stable)+

lemma tries_create:
  assumes k: "k < length jcs" and r: "requested (jcs ! k) r" "job_id r \<notin> dom t"
  shows "tries view t jcs k (open_race t jcs k)
     (bind_thread (atomic (db_flush_new A r)) (\<lambda>job.
      bind_thread (enqueue_priority_thread A (str_uuid (job_id job)) (priority job) '''') (\<lambda>_.
      bind_thread (atomic (db_commit A [InsertJob job])) (\<lambda>_.
      bind_thread (atomic (count_io A ''jobs_created'' 1 [(''job_type'', job_type job), (''priority'', priority job)])) (\<lambda>_.
      return_thread (job, True))))))"
proof (rule sat_command [where B = "\<lambda>j s. (requested (jcs ! k) j \<and> job_id j \<notin> dom t) \<and> open_race t jcs k s"])
  fix w g
  assume o: "open_race t jcs k (view w, g)"
  have key: "idempotency_key r = Some key" using same_key k r(1) by (simp add: requested_key)
  note c = conflict_won [OF open_cases [OF o] key r(2)]
  show "wp (db_flush_new A r)
      (\<lambda>j w'. \<exists>g'. by_thread t jcs k (view w, g) (view w', g') \<and>
         (requested (jcs ! k) j \<and> job_id j \<notin> dom t) \<and> open_race t jcs k (view w', g'))
      (\<lambda>e w'. \<exists>g'. by_thread t jcs k (view w, g) (view w', g') \<and> tried t jcs k (Inl e) (view w', g')) w"
  proof (rule wp_flush_cases)
    fix u w'
    assume "view w' = view w"
    moreover have "requested (jcs ! k) (r\<lparr>created_at := u\<rparr>)" using r(1) by (auto simp: requested_def new_job_def)
    ultimately show "\<exists>g'. by_thread t jcs k (view w, g) (view w', g') \<and>
       (requested (jcs ! k) (r\<lparr>created_at := u\<rparr>) \<and> job_id (r\<lparr>created_at := u\<rparr>) \<notin> dom t) \<and> open_race t jcs k (view w', g')"
      using o r(2) by (auto simp: by_thread_def)
  next
    fix e w'
    assume e: "is_integrity e" and v: "view w' = view w" and x: "insert_conflicts r (rows (view w))"
    obtain l j where "won t jcs l j (view w, g)" using c x by blast
    then have "lost_to t jcs k j (view w', g)" using open_lost [OF o] v by simp
    then show "\<exists>g'. by_thread t jcs k (view w, g) (view w', g') \<and> tried t jcs k (Inl e) (view w', g')"
      using e v by (auto simp: by_thread_def tried_def refused_def)
  qed
next
  fix job
  show "tries view t jcs k (\<lambda>s. (requested (jcs ! k) job \<and> job_id job \<notin> dom t) \<and> open_race t jcs k s)
      (bind_thread (enqueue_priority_thread A (str_uuid (job_id job)) (priority job) '''') (\<lambda>_.
      bind_thread (atomic (db_commit A [InsertJob job])) (\<lambda>_.
      bind_thread (atomic (count_io A ''jobs_created'' 1 [(''job_type'', job_type job), (''priority'', priority job)])) (\<lambda>_.
      return_thread (job, True)))))"
    unfolding enqueue_priority_thread_def timed_thread_def bind_thread_assoc bind_return_thread
    by (rule sat_fact, intro tries_calm [OF _ assertions(1)] calm_commands tries_insert k) simp_all
qed (intro withstands_and creates_stable)+

text \<open>The handler of the refusal: roll back, read the winner's row.\<close>

lemma does_handler:
  assumes k: "k < length jcs"
  shows "does view t jcs k (\<lambda>s. is_integrity e \<and> (\<exists>j. lost_to t jcs k j s))
     (if is_integrity e then
        bind_thread (atomic (db_rollback A)) (\<lambda>_.
        bind_thread (atomic (db_where A (\<lambda>j. idempotency_key j = jc_idempotency_key (jcs ! k)))) (\<lambda>existing.
        bind_thread (atomic (scalar_one existing)) (\<lambda>row.
        bind_thread (atomic (count_io A ''idempotency_hits'' 1 [(''job_type'', job_type row)])) (\<lambda>_.
        return_thread (row, False)))))
      else raise_thread e)"
proof (rule sat_fact, simp, rule sat_ex, rule does_calm [OF calm_commands(7) assertions(2)], rule does_lookup_lost [OF k])
  fix j
  have one: "does view t jcs k (lost_to t jcs k j) (bind_thread (atomic (return_io j)) (\<lambda>row.
      bind_thread (atomic (count_io A ''idempotency_hits'' (Suc 0) [(''job_type'', job_type row)])) (\<lambda>_. return_thread (row, False))))"
  proof (rule sat_command [where B = "\<lambda>row s. row = j \<and> lost_to t jcs k j s"])
    show "does view t jcs k (\<lambda>s. row = j \<and> lost_to t jcs k j s)
        (bind_thread (atomic (count_io A ''idempotency_hits'' (Suc 0) [(''job_type'', job_type row)])) (\<lambda>_. return_thread (row, False)))" for row
      by (rule sat_fact, simp, rule does_replay [OF k])
  qed (auto simp: wp_return by_thread_def intro: withstands_and creates_stable)
  then show "does view t jcs k (lost_to t jcs k j) (bind_thread (atomic (scalar_one [j])) (\<lambda>row.
      bind_thread (atomic (count_io A ''idempotency_hits'' (Suc 0) [(''job_type'', job_type row)])) (\<lambda>_. return_thread (row, False))))"
    by simp
qed

lemma does_create_new:
  assumes k: "k < length jcs"
  shows "does view t jcs k (open_race t jcs k) (create_new_thread A (jcs ! k))"
  unfolding create_new_thread_def
proof (rule does_calm [OF calm_commands(5) assertions(1)], rule sat_command [where B = "\<lambda>i s. i \<notin> dom t \<and> open_race t jcs k s"])
  fix w g
  assume o: "open_race t jcs k (view w, g)"
  have "fst (rnd_uuid4 A w) \<notin> dom t" by (rule ids_new)
  moreover have "view (snd (rnd_uuid4 A w)) = view w" using uuid4_law by (simp add: reading_def)
  ultimately show "wp (read_io (rnd_uuid4 A))
      (\<lambda>i w'. \<exists>g'. by_thread t jcs k (view w, g) (view w', g') \<and> i \<notin> dom t \<and> open_race t jcs k (view w', g'))
      (\<lambda>e w'. \<exists>g'. by_thread t jcs k (view w, g) (view w', g') \<and> answered t jcs k (Inl e) (view w', g')) w"
    using o by (auto simp: wp_def read_io_def by_thread_def split: prod.split)
next
  fix tp i
  let ?r = "new_job i 0 (jc_type (jcs ! k)) (payload_with_trace (jc_payload (jcs ! k)) tp)
                                  (jc_priority (jcs ! k)) (jc_idempotency_key (jcs ! k)) (jc_max_attempts (jcs ! k))"
  let ?body = "bind_thread (atomic (db_flush_new A ?r)) (\<lambda>job.
        bind_thread (enqueue_priority_thread A (str_uuid (job_id job)) (priority job) '''') (\<lambda>_.
        bind_thread (atomic (db_commit A [InsertJob job])) (\<lambda>_.
        bind_thread (atomic (count_io A ''jobs_created'' 1 [(''job_type'', job_type job), (''priority'', priority job)])) (\<lambda>_.
        return_thread (job, True)))))"
  let ?handler = "\<lambda>e. if is_integrity e then
              bind_thread (atomic (db_rollback A)) (\<lambda>_.
              bind_thread (atomic (db_where A (\<lambda>j. idempotency_key j = jc_idempotency_key (jcs ! k)))) (\<lambda>existing.
              bind_thread (atomic (scalar_one existing)) (\<lambda>row.
              bind_thread (atomic (count_io A ''idempotency_hits'' 1 [(''job_type'', job_type row)])) (\<lambda>_.
              return_thread (row, False)))))
            else raise_thread e"
  show "does view t jcs k (\<lambda>s. i \<notin> dom t \<and> open_race t jcs k s) (try_thread ?body ?handler)"
  proof (rule sat_fact, rule sat_try)
    assume "i \<notin> dom t"
    moreover have "requested (jcs ! k) ?r" unfolding requested_def by blast
    ultimately show "tries view t jcs k (open_race t jcs k) ?body" by (intro tries_create k) simp_all
  next
    show "does view t jcs k (tried t jcs k (Inl e)) (?handler e)" for e
      by (rule sat_pre [OF does_handler [OF k]]) (auto simp: tried_def refused_def)
  next
    show "answered t jcs k (Inr a) s" if "tried t jcs k (Inr a) s" for a s
      using that by (auto simp: tried_def refused_def answered_def)
  qed
qed (intro withstands_and creates_stable)+

lemma does_create:
  assumes k: "k < length jcs"
  shows "does view t jcs k (open_race t jcs k) (create_thread A (jcs ! k))"
proof -
  have key: "truthy (jc_idempotency_key (jcs ! k))" using k same_key key_given by (simp add: truthy_def)
  let ?reply = "\<lambda>row. case row of Some r \<Rightarrow> return_thread (r, False) | None \<Rightarrow> create_new_thread A (jcs ! k)"
  show ?thesis
    unfolding create_thread_def lookup_thread_def if_P [OF key] bind_thread_assoc
  proof (rule does_lookup [OF k])
    show "does view t jcs k (open_race t jcs k)
        (bind_thread (atomic (scalar_one_or_none [])) (\<lambda>row. bind_thread (case row of None \<Rightarrow> return_thread None
          | Some r \<Rightarrow> bind_thread (atomic (count_io A ''idempotency_hits'' 1 [(''job_type'', job_type r)])) (\<lambda>_. return_thread (Some r))) ?reply))"
      unfolding scalar_one_or_none.simps
    proof (rule sat_command [where B = "\<lambda>row s. row = None \<and> open_race t jcs k s"])
      show "does view t jcs k (\<lambda>s. row = None \<and> open_race t jcs k s) (bind_thread (case row of None \<Rightarrow> return_thread None
          | Some r \<Rightarrow> bind_thread (atomic (count_io A ''idempotency_hits'' 1 [(''job_type'', job_type r)])) (\<lambda>_. return_thread (Some r))) ?reply)" for row
        by (rule sat_fact, simp, rule does_create_new [OF k])
    qed (auto simp: wp_return by_thread_def intro: withstands_and creates_stable)
    show "does view t jcs k (lost_to t jcs k j)
        (bind_thread (atomic (scalar_one_or_none [j])) (\<lambda>row. bind_thread (case row of None \<Rightarrow> return_thread None
          | Some r \<Rightarrow> bind_thread (atomic (count_io A ''idempotency_hits'' 1 [(''job_type'', job_type r)])) (\<lambda>_. return_thread (Some r))) ?reply))" for j
      unfolding scalar_one_or_none.simps
    proof (rule sat_command [where B = "\<lambda>row s. row = Some j \<and> lost_to t jcs k j s"])
      show "does view t jcs k (\<lambda>s. row = Some j \<and> lost_to t jcs k j s) (bind_thread (case row of None \<Rightarrow> return_thread None
          | Some r \<Rightarrow> bind_thread (atomic (count_io A ''idempotency_hits'' 1 [(''job_type'', job_type r)])) (\<lambda>_. return_thread (Some r))) ?reply)" for row
        by (rule sat_fact) (simp add: bind_thread_assoc does_replay [OF k])
    qed (auto simp: wp_return by_thread_def intro: withstands_and creates_stable)
  qed
qed

text \<open>All of them.\<close>

lemma creates_team:
  assumes "rows (view w) = t"
  shows "team view (by_others t jcs) (by_thread t jcs) (answered t jcs) None (map (create_thread A) jcs, w)"
  unfolding team_def fst_conv snd_conv
proof (intro allI impI)
  fix k assume "k < length (map (create_thread A) jcs)"
  then have k: "k < length jcs" by simp
  have "open_race t jcs k (view w, None)" using assms by (simp add: open_race_def unwon_def)
  then show "\<exists>P. does view t jcs k P (map (create_thread A) jcs ! k) \<and> withstands P (by_others t jcs k) \<and> P (view w, None)"
    using does_create [OF k] withstands_open k by auto
qed

lemma creates_end:
  assumes "rows (view w) = t" and "jcs \<noteq> []" and "par_step\<^sup>*\<^sup>* (map (create_thread A) jcs, w) (ts, w')"
    and end_: "\<not> (\<exists>c. par_step (ts, w') c)"
  shows "\<exists>l j. l < length jcs \<and> requested (jcs ! l) j \<and> job_id j \<notin> dom t \<and> rows (view w') = t(job_id j \<mapsto> j) \<and>
     ts = map (\<lambda>k. Finished (Inr (j, k = l))) [0..<length jcs]"
proof -
  have "\<exists>g. team view (by_others t jcs) (by_thread t jcs) (answered t jcs) g (ts, w') \<and> True"
    by (rule team_steps [where I = "\<lambda>_. True", OF assms(3) creates_team [OF assms(1)]]) (auto intro: by_othersI)
  then obtain g where team: "team view (by_others t jcs) (by_thread t jcs) (answered t jcs) g (ts, w')" by blast
  have len: "length ts = length jcs" using par_steps_length [OF assms(3)] by simp
  note ends = team_ended [OF team end_]
  have "0 < length ts" using assms(2) len by simp
  from ends [OF this] obtain l j where w: "won t jcs l j (view w', g)" unfolding answered_def by blast
  have "ts ! k = Finished (Inr (j, k = l))" if "k < length ts" for k
  proof -
    obtain r where r: "ts ! k = Finished r" "answered t jcs k r (view w', g)" using ends [OF \<open>k < length ts\<close>] by blast
    then obtain l' j' where a: "won t jcs l' j' (view w', g)" "r = Inr (j', k = l')" unfolding answered_def by blast
    from won_unique [OF w a(1)] show ?thesis using r(1) a(2) by simp
  qed
  then have "ts = map (\<lambda>k. Finished (Inr (j, k = l))) [0..<length jcs]" using len by (auto intro!: nth_equalityI)
  with w show ?thesis by (auto simp: won_def)
qed

end

text \<open>
  C7: Idempotency under concurrency. Any number of requests with the same idempotency key,
  which no row has yet, run at once, their commands interleaved in any way, with services
  that do not fail and fresh identifiers. Every run ends, with every request answered; exactly
  one of them created the job, its row is the only one added to the table and is what that
  request asked for, and all the others got this row back as a replay.
\<close>
theorem concurrent_creates:
  assumes "reliable_services A view" and "key \<noteq> ''''" and "\<forall>jc \<in> set jcs. jc_idempotency_key jc = Some key"
    and "\<forall>j \<in> ran (rows (view w)). idempotency_key j \<noteq> Some key"
    and "\<forall>v. fst (rnd_uuid4 A v) \<notin> dom (rows (view w))" and "jcs \<noteq> []"
  shows "(\<forall>jc. run (create_thread A jc) = create_job A jc) \<and>
     \<not> (\<exists>c. c 0 = (map (create_thread A) jcs, w) \<and> (\<forall>i. par_step (c i) (c (Suc i)))) \<and>
     (\<forall>ts w'. par_step\<^sup>*\<^sup>* (map (create_thread A) jcs, w) (ts, w') \<and> \<not> (\<exists>c. par_step (ts, w') c) \<longrightarrow>
        (\<exists>l j. l < length jcs \<and> requested (jcs ! l) j \<and> job_id j \<notin> dom (rows (view w)) \<and>
           rows (view w') = (rows (view w))(job_id j \<mapsto> j) \<and>
           ts = map (\<lambda>k. Finished (Inr (j, k = l))) [0..<length jcs]))"
proof (intro conjI allI impI, goal_cases)
  case (1 jc)
  show ?case by (rule run_create)
next
  case 2
  show ?case by (rule runs_end)
next
  case (3 ts w')
  have "one_key A view (rows (view w)) jcs key"
    using assms(2-5) by (intro one_key.intro assms(1) one_key_axioms.intro) auto
  from one_key.creates_end [OF this refl assms(6) 3 [THEN conjunct1] 3 [THEN conjunct2]] show ?case .
qed

definition two_requests :: "job_create list" where
  "two_requests = map (\<lambda>p. \<lparr>jc_type = ''email_send'', jc_payload = Map.empty, jc_priority = p,
     jc_idempotency_key = Some ''k'', jc_max_attempts = 3\<rparr>) [''high'', ''low'']"

interpretation mem_one_key: one_key "mem_app False" mem_view Map.empty two_requests "''k''"
  by (intro one_key.intro mem_reliable_services one_key_axioms.intro) (auto simp: two_requests_def)

theorem concurrent_creates_witness:
  "\<exists>ts w' l j. par_step\<^sup>*\<^sup>* (map (create_thread (mem_app False)) two_requests, mem_init) (ts, w') \<and>
     l < 2 \<and> requested (two_requests ! l) j \<and> rows (mem_view w') = [job_id j \<mapsto> j] \<and>
     ts = [Finished (Inr (j, 0 = l)), Finished (Inr (j, 1 = l))]"
proof -
  obtain ts w' where run: "par_step\<^sup>*\<^sup>* (map (create_thread (mem_app False)) two_requests, mem_init) (ts, w')"
    and fin: "\<not> (\<exists>c. par_step (ts, w') c)"
    using some_end [of "(map (create_thread (mem_app False)) two_requests, mem_init)"] by auto
  have r: "rows (mem_view mem_init) = Map.empty" by (simp add: mem_init_def)
  have "\<forall>jc \<in> set two_requests. jc_idempotency_key jc = Some ''k''" by (simp add: two_requests_def)
  from concurrent_creates [OF mem_reliable_services _ this, of mem_init, unfolded r, THEN conjunct2, THEN conjunct2,
      rule_format, OF _ _ _ _ conjI, OF _ _ _ _ run fin]
  obtain l j where "l < length two_requests" "requested (two_requests ! l) j" "rows (mem_view w') = [job_id j \<mapsto> j]"
      "ts = map (\<lambda>k. Finished (Inr (j, k = l))) [0..<length two_requests]"
    by (auto simp: two_requests_def)
  then show ?thesis using run by (intro exI [of _ ts] exI [of _ w'] exI [of _ l] exI [of _ j]) (simp add: two_requests_def upt_rec)
qed

end
