(* ===== verification/Lost_Jobs.thy ===== *)
theory Lost_Jobs
  imports Outcomes
begin

section \<open>Jobs that no queue holds\<close>

text \<open>
  A worker finds jobs through the queues only: whatever a pass does, it does to jobs whose
  identifiers a queue held, and start-up recovery looks at processing rows. So a queued job
  whose identifier is in no queue, however it came to that (Outcomes and Crash_Recovery have
  the ways), stays as it is for good, unless a client cancels it: \<open>lost_stays_lost\<close>.
\<close>

definition lost :: "uuid \<Rightarrow> job \<Rightarrow> store \<Rightarrow> bool" where
  "lost i j s \<longleftrightarrow>
     good_table (rows s) \<and> (\<forall>m. queued_in s m \<longrightarrow> m \<in> range str_uuid) \<and>
     rows s i = Some j \<and> status j = ''queued'' \<and> \<not> queued_in s (str_uuid i)"

lemma lost_cong:
  assumes "lost i j s" and "good_table (rows s')" and "rows s' i = rows s i"
    and "\<And>m. queued_in s' m \<Longrightarrow> queued_in s m \<or> (\<exists>k. m = str_uuid k \<and> k \<noteq> i)"
  shows "lost i j s'"
proof -
  have "\<not> queued_in s' (str_uuid i)" using assms(1) assms(4) [of "str_uuid i"] by (auto simp: lost_def str_uuid_inject)
  moreover have "m \<in> range str_uuid" if "queued_in s' m" for m using assms(1) assms(4) [OF that] by (auto simp: lost_def)
  ultimately show ?thesis using assms(1-3) by (simp add: lost_def)
qed

lemma lost_data: "data s' = data s \<Longrightarrow> lost i j s \<Longrightarrow> lost i j s'"
  using data_eqD [of s' s] by (simp add: lost_def queued_in_def)

lemma lost_named: "lost i j s \<Longrightarrow> queued_in s m \<Longrightarrow> \<exists>k. m = str_uuid k \<and> k \<noteq> i"
  by (auto simp: lost_def)

lemma lost_no_empty: "lost i j s \<Longrightarrow> \<not> queued_in s ''''"
  using str_uuid_nonempty lost_named by metis

lemma lost_good: "lost i j s \<Longrightarrow> good_table (rows s)"
  by (simp add: lost_def)

text \<open>A job that is alone in the table with empty queues.\<close>

lemma lost_alone:
  assumes "rows s = [i \<mapsto> j]" and "good_row j" and "job_id j = i" and "status j = ''queued''" and "\<And>m. \<not> queued_in s m"
  shows "lost i j s"
  using assms by (auto simp: lost_def good_table_def keyed_by_id_def unique_keys_def split: if_splits)

subsection \<open>The phases of a pass on other jobs\<close>

lemma lost_attempted:
  assumes "lost i j s" and "k \<noteq> i" and "attempted k r cls s s'" and "good_table (rows s')"
  shows "lost i j s'"
proof (rule lost_cong [OF assms(1,4)])
  show "rows s' i = rows s i" using assms(2,3) by (auto simp: attempted_def)
next
  fix m
  assume m: "queued_in s' m"
  have "zsets s' PRIORITY_KEY = zsets s PRIORITY_KEY" "lists s' = lists s"
    using assms(3) by (auto simp: attempted_def)
  moreover have "zsets s' RETRY_KEY = zsets s RETRY_KEY \<or> (\<exists>sc. zsets s' RETRY_KEY = (zsets s RETRY_KEY)(str_uuid k \<mapsto> sc))"
    using assms(3) unfolding attempted_def by blast
  ultimately show "queued_in s m \<or> (\<exists>k. m = str_uuid k \<and> k \<noteq> i)"
    using m assms(2) by (auto simp: queued_in_def split: if_splits)
qed

context reliable_services
begin

lemma evolves_process: "evolves view (process_job A jid source)"
  unfolding process_job_def by (intro evolve_rules evolves_keeps [OF keeps_db_return])

lemma lost_requeue:
  assumes l: "lost i j (view w)" and m: "m = str_uuid k" "k \<noteq> i"
  shows "wp (requeue_due A m) (\<lambda>_ w'. lost i j (view w')) X w"
  unfolding m(1)
proof (rule wp_requeue_due)
  fix r t w'
  assume d: "data (view w') = zset_put PRIORITY_KEY (str_uuid k) (score_at (priority r) t) (data (view w))"
  show "lost i j (view w')"
    by (rule lost_cong [OF l]) (use lost_good [OF l] m(2) data_isD [OF d] in \<open>auto simp: queued_in_def split: if_splits\<close>)
qed (use l in simp)

lemma lost_process:
  assumes l: "lost i j (view w)" and k: "k \<noteq> i"
  shows "wp (process_job A (str_uuid k) source) (\<lambda>_ w'. lost i j (view w')) (\<lambda>_ w'. lost i j (view w')) w"
proof (cases "\<exists>r. rows (view w) k = Some r \<and> status r = ''queued''")
  case False
  then have "wp (process_job A (str_uuid k) source) (\<lambda>_ w'. view w' = view w) (\<lambda>_ _. False) w"
    by (intro process_ignores [OF lost_good [OF l]]) blast
  then show ?thesis by (rule wp_mono) (use l in simp_all)
next
  case True
  then obtain r where r: "rows (view w) k = Some r" "status r = ''queued''" by blast
  show ?thesis
  proof (cases "get_executor (job_type r)")
    case (Inr cls)
    have "wp (process_job A (str_uuid k) source) (\<lambda>_ w'. table_step\<^sup>*\<^sup>* (rows (view w)) (rows (view w')))
        (\<lambda>_ w'. table_step\<^sup>*\<^sup>* (rows (view w)) (rows (view w'))) w"
      by (rule evolves_wp [OF evolves_process lost_good [OF l]])
    from wp_conj [OF this process_attempts [OF lost_good [OF l] r Inr]] show ?thesis
      by (rule wp_mono) (use lost_attempted [OF l k] good_table_steps [OF _ lost_good [OF l]] in blast)+
  next
    case (Inl e)
    show ?thesis
      unfolding process_job_def wp_bind
    proof (rule wp_start_job [OF lost_good [OF l]])
      fix r' t w'
      assume "rows (view w) k = Some r'" and w': "rows (view w') = (rows (view w))(k \<mapsto> started_row r' t)"
        "zsets (view w') = zsets (view w)" "lists (view w') = lists (view w)"
      then have r': "r' = r" using r by simp
      have "good_table (rows (view w'))"
        using good_table_step [OF table_step.row [where t = "rows (view w)" and i = k, OF r(1) row_steps_of(3) [OF r(2)]] lost_good [OF l]]
        by (simp add: w' r')
      then have l': "lost i j (view w')"
        by (rule lost_cong [OF l]) (use k w' in \<open>auto simp: queued_in_def\<close>)
      then show "wp (case Some \<lparr>cj_type = job_type r', cj_payload = payload r', cj_priority = priority r',
                              cj_created_at = created_at r', cj_started_at = t\<rparr> of
          None \<Rightarrow> return_io () | Some c \<Rightarrow> run_job A (str_uuid k) c) (\<lambda>_ w'. lost i j (view w')) (\<lambda>_ w'. lost i j (view w')) w'"
        unfolding option.case run_job_def executor_io_def r' claimed_job.select_convs Inl sum.case wp_bind wp_raise
        by (intro wp_record wp_updown) (rule lost_data [OF _ l'], simp)
    qed (use r in auto)
  qed
qed

lemma lost_pass:
  assumes l: "lost i j (view w)"
  shows "wp (worker_iteration A) (\<lambda>_ w'. lost i j (view w')) X w"
  unfolding worker_iteration_def wp_try_except poll_once_def wp_bind
proof (rule wp_drain_total)
  fix now ids w1
  assume d: "drained (zsets (view w) RETRY_KEY) 10 now ids" and v: "data (view w1) = zset_drop RETRY_KEY ids (data (view w))"
  let ?Q = "\<lambda>_ w'. lost i j (view w')"
  let ?X = "\<lambda>e. wp (count_io A ''worker_loop_iterations'' 1 [(''worker_id'', hostname A), (''outcome'', ''error'')])
      (\<lambda>_. wp (do_io (nap A 1)) ?Q X) X"
  have caught: "?X e w'" if "lost i j (view w')" for e w'
    by (rule wp_count, rule wp_nap) (use that in \<open>auto intro: lost_data\<close>)
  have "queued_in (view w) m" if "m \<in> set ids" for m
    using that d by (auto simp: drained_def queued_in_def dest!: in_set_takeD)
  then have named: "\<exists>k. m = str_uuid k \<and> k \<noteq> i" if "m \<in> set ids" for m using lost_named [OF l] that by blast
  have "lost i j (view w1)"
    by (rule lost_cong [OF l])
       (use lost_good [OF l] data_isD [OF v] in \<open>auto simp: queued_in_def without_ids_def split: if_splits\<close>)
  then have "wp (for_each (requeue_due A) ids) (\<lambda>_ w'. lost i j (view w')) (\<lambda>_ w'. lost i j (view w')) w1"
    using named by (intro wp_for_each_inv) (blast intro: lost_requeue)+
  then show "wp (for_each (requeue_due A) ids) (\<lambda>_. wp (next_job A) (\<lambda>nxt. wp (case nxt of
        None \<Rightarrow> count_io A ''worker_loop_iterations'' 1 [(''worker_id'', hostname A), (''outcome'', ''no_job'')]
      | Some (jid, source) \<Rightarrow> process_job A jid source) ?Q ?X) ?X) ?X w1"
  proof (rule wp_mono)
    fix w2
    assume l2: "lost i j (view w2)"
    let ?take = "\<lambda>nxt. case nxt of
        None \<Rightarrow> count_io A ''worker_loop_iterations'' 1 [(''worker_id'', hostname A), (''outcome'', ''no_job'')]
      | Some (jid, source) \<Rightarrow> process_job A jid source"
    have taken: "wp (?take (Some (m, source))) ?Q ?X w3"
      if m: "queued_in (view w2) m" and r: "rows (view w3) = rows (view w2)"
        and q: "\<And>n. queued_in (view w3) n \<Longrightarrow> queued_in (view w2) n" for m source w3
    proof -
      obtain k where k: "m = str_uuid k" "k \<noteq> i" using lost_named [OF l2 m] by blast
      have "lost i j (view w3)" by (rule lost_cong [OF l2]) (use lost_good [OF l2] r q in auto)
      from lost_process [OF this k(2)] show ?thesis unfolding k(1) option.case prod.case by (rule wp_mono) (assumption, rule caught)
    qed
    show "wp (next_job A) (\<lambda>nxt. wp (?take nxt) ?Q ?X) ?X w2"
    proof (rule wp_next_job)
      show "'''' \<notin> dom (zsets (view w2) PRIORITY_KEY)" "'''' \<notin> set (lists (view w2) FIFO_KEY)"
        using lost_no_empty [OF l2] by (auto simp: queued_in_def)
    next
      fix w3
      assume "data (view w3) = data (view w2)"
      then have "lost i j (view w3)" by (rule lost_data) (rule l2)
      then show "wp (?take None) ?Q ?X w3" unfolding option.case by (intro wp_count) (auto intro: lost_data)
    next
      fix m w3
      assume "zfirst (zsets (view w2) PRIORITY_KEY) m" and v: "data (view w3) = zset_del PRIORITY_KEY m (data (view w2))"
      then show "wp (?take (Some (m, ''priority''))) ?Q ?X w3"
        by (intro taken) (auto simp: queued_in_def zfirst_def data_isD [OF v] split: if_splits)
    next
      fix m w3
      assume f: "lists (view w2) FIFO_KEY \<noteq> []" "m = last (lists (view w2) FIFO_KEY)"
        and v: "data (view w3) = list_put FIFO_KEY (butlast (lists (view w2) FIFO_KEY)) (data (view w2))"
      then show "wp (?take (Some (m, ''fifo''))) ?Q ?X w3"
        by (intro taken) (auto simp: queued_in_def data_isD [OF v] dest: in_set_butlastD)
    qed
  qed (rule caught)
qed

lemma lost_recovery:
  assumes l: "lost i j (view w)"
  shows "wp (run_startup_recovery A m) (\<lambda>_ w'. lost i j (view w')) X w"
proof (rule wp_recovery_total [OF lost_good [OF l]])
  fix now w'
  let ?threshold = "now - m * 60 * 10 ^ 6"
  assume r: "recovery_done ?threshold (view w) (view w')" and g: "good_table (rows (view w'))"
  have j: "rows (view w) i = Some j" "status j = ''queued''" using l by (simp_all add: lost_def)
  then have n: "\<not> stuck ?threshold j" by (simp add: stuck_def)
  note here = r [unfolded recovery_done_def, THEN conjunct1, rule_format, of i]
  have queues: "lists (view w') = lists (view w)" "zsets (view w') PRIORITY_KEY = zsets (view w) PRIORITY_KEY"
      "dom (zsets (view w') RETRY_KEY) = dom (zsets (view w) RETRY_KEY) \<union>
       {str_uuid k |k r. rows (view w) k = Some r \<and> stuck ?threshold r \<and> attempts r + 1 < max_attempts r}"
    using r by (simp_all add: recovery_done_def)
  show "lost i j (view w')"
  proof (rule lost_cong [OF l g])
    show "rows (view w') i = rows (view w) i" using here n j by simp
  next
    fix x
    assume "queued_in (view w') x"
    then have "queued_in (view w) x \<or> (\<exists>k r. x = str_uuid k \<and> rows (view w) k = Some r \<and> stuck ?threshold r)"
      unfolding queued_in_def queues by blast
    then show "queued_in (view w) x \<or> (\<exists>k. x = str_uuid k \<and> k \<noteq> i)" using n j by auto
  qed
qed

lemma lost_cancel:
  assumes l: "lost i j (view w)" and k: "k \<noteq> i"
  shows "wp (cancel_job_endpoint A k) (\<lambda>_ w'. lost i j (view w')) (\<lambda>_ w'. lost i j (view w')) w"
  unfolding cancel_job_endpoint_def wp_bind
proof (rule wp_cancel_total)
  show "keyed_by_id (rows (view w))" using lost_good [OF l] by (simp add: good_table_def)
next
  fix r :: job and w'
  let ?r = "r\<lparr>status := ''cancelled''\<rparr>"
  assume r: "rows (view w) k = Some r" "status r = ''queued'' \<or> status r = ''processing''"
    and v: "data (view w') = zset_del RETRY_KEY (str_uuid k) (zset_del PRIORITY_KEY (str_uuid k)
          (list_put FIFO_KEY (removeAll (str_uuid k) (lists (view w) FIFO_KEY))
            ((data (view w))\<lparr>rows := (rows (view w))(k \<mapsto> ?r)\<rparr>)))"
  note sel = data_isD [OF v]
  have "row_step r ?r" using row_step.cancel [of r] r(2) by simp
  then have "good_table (rows (view w'))"
    using good_table_step [OF table_step.row [where t = "rows (view w)" and i = k, OF r(1)]] lost_good [OF l] by (simp add: sel)
  then have "lost i j (view w')"
    by (rule lost_cong [OF l]) (use k in \<open>auto simp: sel queued_in_def split: if_splits\<close>)
  then show "wp (case Some ?r of None \<Rightarrow> raise_io (HTTPException 404 ''Job not found'')
      | Some j \<Rightarrow>
          if status j \<notin> {status_value QUEUED, status_value PROCESSING, status_value CANCELLED} then
            raise_io (HTTPException 409 (''Cannot cancel job in status '' @ [CHR 0x27] @ status j @ [CHR 0x27]))
          else return_io \<lparr>status_code = 200, headers = [], body = job_read_of j\<rparr>)
      (\<lambda>_ w'. lost i j (view w')) (\<lambda>_ w'. lost i j (view w')) w'"
    by (simp add: wp_simps)
qed (use l in \<open>simp_all add: wp_simps\<close>)

end

subsection \<open>Properties\<close>

text \<open>What leaves a job to itself: any pass, recovery or reading, and cancellations of other jobs.\<close>

fun leaves_alone :: "uuid \<Rightarrow> request \<Rightarrow> bool" where
  "leaves_alone i WorkerPass \<longleftrightarrow> True"
| "leaves_alone i (Recover m) \<longleftrightarrow> True"
| "leaves_alone i (Cancel k) \<longleftrightarrow> k \<noteq> i"
| "leaves_alone i (Fetch k) \<longleftrightarrow> True"
| "leaves_alone i (Browse st ty pr pg psize) \<longleftrightarrow> True"
| "leaves_alone i Metrics \<longleftrightarrow> True"
| "leaves_alone i r \<longleftrightarrow> False"

context reliable_services
begin

lemma lost_reads:
  "reads view m \<Longrightarrow> lost i j (view w) \<Longrightarrow> wp m (\<lambda>_ w'. lost i j (view w')) (\<lambda>_ w'. lost i j (view w')) w"
  unfolding reads_def by (elim allE, erule wp_mono) simp_all

lemma lost_request:
  assumes "lost i j (view w)" and "leaves_alone i r"
  shows "wp (run_request A r) (\<lambda>_ w'. lost i j (view w')) (\<lambda>_ w'. lost i j (view w')) w"
  using assms(2)
proof (cases rule: leaves_alone.elims(2))
  case 1
  then show ?thesis using lost_pass [OF assms(1)] by simp
next
  case (2 m)
  then show ?thesis using lost_recovery [OF assms(1)] by (simp add: wp_attempt)
next
  case (3 k)
  then show ?thesis using lost_cancel [OF assms(1)] by (simp add: wp_attempt)
qed (simp_all add: wp_attempt lost_reads reads_endpoints assms(1))

end

text \<open>
  C29: A job that no queue holds is never run. Let a job be queued with its identifier in none
  of the three queues, in a well-formed store. With services that do not fail, any number of
  passes of workers, start-up recoveries with any threshold, readings, and cancellations of
  other jobs, in any order, leave it so: the row is not touched and no queue gets the
  identifier.
\<close>
theorem lost_stays_lost:
  assumes "reliable_services A view" and "lost i j (view w)" and "list_all (leaves_alone i) rs"
  shows "wp (for_each (run_request A) rs) (\<lambda>_ w'. lost i j (view w')) (\<lambda>_ w'. lost i j (view w')) w"
  by (rule wp_for_each_inv, rule reliable_services.lost_request [OF assms(1)])
     (use assms(2,3) in \<open>auto simp: list_all_iff\<close>)

theorem lost_stays_lost_witness:
  "wp (for_each (run_request (mem_app False)) [WorkerPass, Recover 10, Cancel 8, WorkerPass, Metrics])
     (\<lambda>_ w'. lost 7 sample_row (mem_view w')) (\<lambda>_ w'. lost 7 sample_row (mem_view w')) (row_mem sample_row)"
  by (rule lost_stays_lost [OF mem_reliable_services lost_alone])
     (simp_all add: row_mem_rows sample_row_good queued_in_def row_mem_def mem_init_def)

end
