(* ===== verification/Races.thy ===== *)
theory Races
  imports Cut_Off Lost_Jobs Liveness Concurrent_System
begin

section \<open>Runs that lose a job, or a cancellation\<close>

text \<open>
  Three orders of commands that the code does not protect against, each for any services that
  keep their promises and never fail, and any store: a process that dies between the command
  that empties a queue and the one that puts the job elsewhere (\<open>crash_loses_job\<close>), a
  cancellation between a worker's read of a row and its commit (\<open>stale_start\<close>), and a worker's
  pass between the enqueue and the commit of a creation (\<open>enqueue_before_commit_race\<close>). Each is
  shown by a run: \<open>may_reach\<close> is a logic of what a thread alone can get to. The lemma
  \<open>recovery_commit_race\<close> is the same order of commands in recovery.
\<close>

subsection \<open>What a thread alone can get to\<close>

abbreviation alone :: "('w, 'a) thread \<times> 'w \<Rightarrow> ('w, 'a) thread \<times> 'w \<Rightarrow> bool" where
  "alone \<equiv> run_among (\<lambda>w. w) (\<lambda>_ _. False)"

definition may_reach :: "('w, 'a) thread \<Rightarrow> (('w, 'a) thread \<Rightarrow> 'w \<Rightarrow> bool) \<Rightarrow> 'w \<Rightarrow> bool" where
  "may_reach t Q w \<longleftrightarrow> (\<exists>t' w'. alone (t, w) (t', w') \<and> Q t' w')"

lemma alone_trans:
  assumes "alone b c" and "alone a b"
  shows "alone a c"
  using assms by (induction rule: run_among.induct) (auto intro: run_among.own)

lemma alone_step: "f w = (t, w') \<Longrightarrow> alone (Await f, w) (t, w')"
  by (rule run_among.own) (rule run_among.here)

lemma alone_map:
  assumes "alone (m, w) c" and "\<And>f u t u'. f u = (t, u') \<Longrightarrow> alone (K (Await f), u) (K t, u')"
  shows "alone (K m, w) (K (fst c), snd c)"
  using assms(1)
proof (induction rule: run_among.induct)
  case here
  show ?case by (simp add: run_among.here)
next
  case (own f u t u')
  have "alone (K (Await f), u) (K t, u')" by (rule assms(2)) (rule own(2))
  then show ?case using own.IH by (simp add: alone_trans)
qed simp

lemma alone_bind: "alone (m, w) (t, w') \<Longrightarrow> alone (bind_thread m k, w) (bind_thread t k, w')"
  by (drule alone_map [where K = "\<lambda>m. bind_thread m k"]) (auto intro: alone_step)

lemma alone_try: "alone (m, w) (t, w') \<Longrightarrow> alone (try_thread m h, w) (try_thread t h, w')"
  by (drule alone_map [where K = "\<lambda>m. try_thread m h"]) (auto intro: alone_step)

text \<open>A thread can run to its end.\<close>

lemma alone_run: "run t w = (r, w') \<Longrightarrow> alone (t, w) (Finished r, w')"
proof (induction t arbitrary: w)
  case (Finished x)
  then show ?case by (simp add: run_among.here)
next
  case (Await f)
  obtain t u where f: "f w = (t, u)" by (cases "f w")
  then have "alone (t, u) (Finished r, w')"
    using Await.IH [of "(t, u)" t] Await.prems by (metis case_prod_conv fsts.intros fst_conv map_prod_simp rangeI run.simps(2) id_apply)
  then show ?case by (rule alone_trans) (rule alone_step, rule f)
qed

lemma reach_here: "Q t w \<Longrightarrow> may_reach t Q w"
  unfolding may_reach_def using run_among.here by blast

lemma reach_bind: "may_reach m (\<lambda>t w'. Q (bind_thread t k) w') w \<Longrightarrow> may_reach (bind_thread m k) Q w"
  unfolding may_reach_def by (elim exE conjE) (rule exI conjI alone_bind | assumption)+

lemma reach_try: "may_reach m (\<lambda>t w'. Q (try_thread t h) w') w \<Longrightarrow> may_reach (try_thread m h) Q w"
  unfolding may_reach_def by (elim exE conjE) (rule exI conjI alone_try | assumption)+

lemma reach_through:
  assumes "wp (run m) (\<lambda>a. may_reach (k a) Q) (\<lambda>_ _. False) w"
  shows "may_reach (bind_thread m k) Q w"
proof -
  obtain a w1 where r: "run m w = (Inr a, w1)" and q: "may_reach (k a) Q w1" using wp_obtain [OF assms] by blast
  have "alone (bind_thread m k, w) (k a, w1)" using alone_bind [OF alone_run [OF r], of k] by simp
  then show ?thesis using q alone_trans unfolding may_reach_def by blast
qed

lemma reach_command: "wp m (\<lambda>a. may_reach (k a) Q) (\<lambda>_ _. False) w \<Longrightarrow> may_reach (bind_thread (atomic m) k) Q w"
  by (rule reach_through) simp

subsection \<open>A crash that loses a job\<close>

text \<open>A store whose queued job \<open>i\<close> waits: the table is well formed and the queues hold identifiers.\<close>

definition waits :: "uuid \<Rightarrow> job \<Rightarrow> store \<Rightarrow> bool" where
  "waits i j s \<longleftrightarrow>
     good_table (rows s) \<and> (\<forall>m. queued_in s m \<longrightarrow> m \<in> range str_uuid) \<and> rows s i = Some j \<and> status j = ''queued''"

text \<open>Its identifier is in one queue only, where it is served next.\<close>

definition next_in_priority :: "uuid \<Rightarrow> store \<Rightarrow> bool" where
  "next_in_priority i s \<longleftrightarrow>
     zfirst (zsets s PRIORITY_KEY) (str_uuid i) \<and> str_uuid i \<notin> dom (zsets s RETRY_KEY) \<and> str_uuid i \<notin> set (lists s FIFO_KEY)"

definition next_in_retry :: "uuid \<Rightarrow> store \<Rightarrow> bool" where
  "next_in_retry i s \<longleftrightarrow>
     zfirst (zsets s RETRY_KEY) (str_uuid i) \<and> str_uuid i \<notin> dom (zsets s PRIORITY_KEY) \<and> str_uuid i \<notin> set (lists s FIFO_KEY)"

lemma waits_cong:
  assumes "waits i j s" and "rows s' = rows s" and "\<And>m. queued_in s' m \<Longrightarrow> queued_in s m"
  shows "waits i j s'"
  using assms by (auto simp: waits_def)

lemma waits_lost: "waits i j s \<Longrightarrow> \<not> queued_in s (str_uuid i) \<Longrightarrow> lost i j s"
  by (simp add: waits_def lost_def)

lemma waits_no_empty: "waits i j s \<Longrightarrow> '''' \<notin> dom (zsets s PRIORITY_KEY) \<and> '''' \<notin> set (lists s FIFO_KEY)"
proof -
  assume "waits i j s"
  then have "\<not> queued_in s ''''" using str_uuid_nonempty unfolding waits_def by (metis rangeE)
  then show ?thesis by (simp add: queued_in_def)
qed

lemma queued_in_drop: "data s' = zset_del k x (data s) \<Longrightarrow> queued_in s' m \<Longrightarrow> queued_in s m"
  using data_isD(1,2) [of s' "zset_del k x (data s)"] by (auto simp: queued_in_def split: if_splits)

lemma zfirst_before: "zfirst z m \<Longrightarrow> n \<in> dom z \<Longrightarrow> n \<noteq> m \<Longrightarrow> zbefore z m n"
  by (auto simp: zfirst_def)

lemma zfirst_unique:
  assumes "zfirst z m" and "zfirst z n"
  shows "m = n"
proof (rule ccontr)
  assume "m \<noteq> n"
  then have "zbefore z m n" "zbefore z n m" using assms zfirst_before by (auto simp: zfirst_def)
  then show False using zbefore_trans by fastforce
qed

lemma first_drained:
  assumes "drained z n now ids" and "zfirst z m" and "z m = Some sc" "sc \<le> now" and "0 < n"
  shows "m \<in> set ids"
proof -
  obtain ms where s: "sorted_wrt (zbefore z) ms" and ms: "set ms = {m. \<exists>sc. z m = Some sc \<and> sc \<le> now}" and ids: "ids = take n ms"
    using assms(1) by (auto simp: drained_def)
  have "m \<in> set ms" using assms(3,4) by (auto simp: ms)
  then obtain x xs where x: "ms = x # xs" by (cases ms) auto
  have "x \<in> dom z" using ms x by auto
  have "x = m"
  proof (rule ccontr)
    assume "x \<noteq> m"
    then have "zbefore z m x" using assms(2) \<open>x \<in> dom z\<close> by (auto simp: zfirst_def)
    moreover have "zbefore z x m" using s \<open>m \<in> set ms\<close> \<open>x \<noteq> m\<close> by (auto simp: x)
    ultimately show False by (auto simp: zbefore_def)
  qed
  then show ?thesis using assms(5) by (cases n) (auto simp: ids x)
qed

context reliable_services
begin

lemma reach_next:
  assumes w: "waits i j (view w)" and n: "next_in_priority i (view w)" and r: "none_due A view (zsets (view w) RETRY_KEY)"
    and Q: "\<And>w'. data (view w') = zset_del PRIORITY_KEY (str_uuid i) (data (view w)) \<Longrightarrow>
      may_reach (bind_thread (start_thread A (str_uuid i) ''priority'')
        (\<lambda>claim. return_thread (map_option (\<lambda>c. (str_uuid i, c)) claim))) Q w'"
  shows "may_reach (claim_phase_thread A) Q w"
  unfolding claim_phase_thread_def
proof (rule reach_through, unfold run_drain, rule wp_drain_nothing [OF r])
  fix w1
  assume d: "data (view w1) = data (view w)"
  note e = data_eqD [OF d]
  show "may_reach (bind_thread (each_thread (requeue_thread A) []) (\<lambda>_. bind_thread (next_thread A) (\<lambda>nxt.
     case nxt of
       None \<Rightarrow>
         bind_thread (atomic (count_io A ''worker_loop_iterations'' 1 [(''worker_id'', hostname A), (''outcome'', ''no_job'')])) (\<lambda>_.
         return_thread None)
     | Some (jid, source) \<Rightarrow>
         bind_thread (start_thread A jid source) (\<lambda>claim. return_thread (map_option (\<lambda>c. (jid, c)) claim))))) Q w1"
    unfolding each_thread.simps bind_return_thread
  proof (rule reach_through, unfold run_next, rule wp_next_job)
    show "'''' \<notin> dom (zsets (view w1) PRIORITY_KEY)" "'''' \<notin> set (lists (view w1) FIFO_KEY)"
      using waits_no_empty [OF w] by (simp_all add: e)
  next
    fix m w2
    assume "zfirst (zsets (view w1) PRIORITY_KEY) m" and v2: "data (view w2) = zset_del PRIORITY_KEY m (data (view w1))"
    then have "m = str_uuid i" using n zfirst_unique by (simp add: next_in_priority_def e)
    then show "may_reach (case Some (m, ''priority'') of
       None \<Rightarrow>
         bind_thread (atomic (count_io A ''worker_loop_iterations'' 1 [(''worker_id'', hostname A), (''outcome'', ''no_job'')])) (\<lambda>_.
         return_thread None)
     | Some (jid, source) \<Rightarrow>
         bind_thread (start_thread A jid source) (\<lambda>claim. return_thread (map_option (\<lambda>c. (jid, c)) claim))) Q w2"
      using Q v2 d by simp
  qed (use n in \<open>auto simp: next_in_priority_def e zfirst_def\<close>)
qed

lemma claim_loses:
  assumes "waits i j (view w)" and "next_in_priority i (view w)" and "none_due A view (zsets (view w) RETRY_KEY)"
  shows "may_reach (claim_phase_thread A) (\<lambda>_ w'. lost i j (view w')) w"
proof (rule reach_next [OF assms], rule reach_here)
  fix w'
  assume d: "data (view w') = zset_del PRIORITY_KEY (str_uuid i) (data (view w))"
  have "waits i j (view w')" by (rule waits_cong [OF assms(1)]) (simp add: data_isD [OF d], rule queued_in_drop [OF d])
  moreover have "\<not> queued_in (view w') (str_uuid i)"
    using assms(2) by (auto simp: queued_in_def next_in_priority_def data_isD [OF d])
  ultimately show "lost i j (view w')" by (rule waits_lost)
qed

lemma drain_loses:
  assumes w: "waits i j (view w)" and n: "next_in_retry i (view w)"
    and due: "zsets (view w) RETRY_KEY (str_uuid i) = Some sc" "sc \<le> fst (clock_time A w)"
  shows "may_reach (claim_phase_thread A) (\<lambda>_ w'. lost i j (view w')) w"
  unfolding claim_phase_thread_def
proof (rule reach_through, unfold run_drain, rule wp_drain_at)
  fix now ids w'
  assume "now = fst (clock_time A w)" and d: "drained (zsets (view w) RETRY_KEY) 10 now ids"
    and v: "data (view w') = zset_drop RETRY_KEY ids (data (view w))"
  then have i: "str_uuid i \<in> set ids" using n due by (intro first_drained [OF d]) (simp_all add: next_in_retry_def)
  have z: "rows (view w') = rows (view w)" "lists (view w') = lists (view w)"
    "zsets (view w') PRIORITY_KEY = zsets (view w) PRIORITY_KEY"
    "dom (zsets (view w') RETRY_KEY) = dom (zsets (view w) RETRY_KEY) - set ids"
    using data_isD [OF v] by (auto simp: without_ids_def split: if_splits)
  have "lost i j (view w')"
    by (rule waits_lost [OF waits_cong [OF w z(1)]])
       (use n i in \<open>auto simp: queued_in_def next_in_retry_def z\<close>)
  then show "may_reach (bind_thread (each_thread (requeue_thread A) ids) (\<lambda>_. bind_thread (next_thread A) (\<lambda>nxt.
     case nxt of
       None \<Rightarrow>
         bind_thread (atomic (count_io A ''worker_loop_iterations'' 1 [(''worker_id'', hostname A), (''outcome'', ''no_job'')])) (\<lambda>_.
         return_thread None)
     | Some (jid, source) \<Rightarrow>
         bind_thread (start_thread A jid source) (\<lambda>claim. return_thread (map_option (\<lambda>c. (jid, c)) claim)))))
     (\<lambda>_ w'. lost i j (view w')) w'" by (rule reach_here)
qed

lemma run_remove: "run (remove_thread A jid) = remove_from_queues A jid"
  by (simp add: remove_thread_def remove_from_queues_def)

lemma cancel_loses:
  assumes w: "waits i j (view w)"
  shows "may_reach (cancel_endpoint_thread A i) (\<lambda>_ w'. lost i j (view w')) w"
  unfolding cancel_endpoint_thread_def cancel_thread_def
proof (rule reach_bind, rule reach_command, rule wp_call_total [OF where_law query_total(2)])
  fix js w1
  assume "view w1 = view w \<and> distinct js \<and> set js = matching (\<lambda>j. job_id j = i) (view w)"
  moreover have "matching (\<lambda>j. job_id j = i) (view w) = {j}"
    using w by (auto simp: waits_def matching_def ran_def dest: good_tableD(4))
  ultimately have js: "js = [j]" and v1: "view w1 = view w" by (auto intro: singleton_list)
  have q: "\<not> (status j \<noteq> status_value QUEUED \<and> status j \<noteq> status_value PROCESSING)" using w by (simp add: waits_def)
  have removed: "lost i j (view w')" if "data (view w') = zset_del RETRY_KEY (str_uuid i) (zset_del PRIORITY_KEY (str_uuid i)
        (list_put FIFO_KEY (removeAll (str_uuid i) (lists (view w1) FIFO_KEY)) (data (view w1))))" for w'
  proof -
    have z: "rows (view w') = rows (view w)"
      "queued_in (view w') m \<longleftrightarrow> queued_in (view w) m \<and> m \<noteq> str_uuid i" for m
      using data_isD [OF that] by (auto simp: queued_in_def v1)
    show ?thesis by (rule waits_lost [OF waits_cong [OF w z(1)]]) (simp_all add: z)
  qed
  show "may_reach (bind_thread (atomic (scalar_one_or_none js)) (\<lambda>job.
     case job of
       None \<Rightarrow> return_thread None
     | Some j \<Rightarrow>
         if status j \<noteq> status_value QUEUED \<and> status j \<noteq> status_value PROCESSING then return_thread (Some j)
         else
           bind_thread (remove_thread A (str_uuid i)) (\<lambda>_.
           bind_thread (atomic (db_commit A [UpdateJob i (\<lambda>r. r\<lparr>status := status_value CANCELLED\<rparr>)])) (\<lambda>_.
           return_thread (Some (j\<lparr>status := status_value CANCELLED\<rparr>)))))) (\<lambda>_ w'. lost i j (view w')) w1"
    unfolding js
    by (rule reach_command)
       (simp only: scalar_one_or_none.simps wp_return option.case if_not_P [OF q],
        rule reach_through, unfold run_remove, rule wp_remove_total, rule reach_here, rule removed)
qed

end

subsection \<open>A cancellation that is answered and undone\<close>

text \<open>What is left of a worker's pass once \<open>start_job\<close> has read the row.\<close>

definition stale_pass :: "'w app \<Rightarrow> uuid \<Rightarrow> job \<Rightarrow> ('w, unit) io" where
  "stale_pass A i j =
     try_except
       (bind_io (now_utc A) (\<lambda>t.
        seq_io (db_commit A (start_writes j ''priority'' t))
        (run_job A (str_uuid i) \<lparr>cj_type = job_type j, cj_payload = payload j, cj_priority = priority j,
                                 cj_created_at = created_at j, cj_started_at = t\<rparr>)))
       (\<lambda>e. seq_io (count_io A ''worker_loop_iterations'' 1 [(''worker_id'', hostname A), (''outcome'', ''error'')])
             (do_io (nap A 1)))"

text \<open>The row after an execution that nobody saw cancelled.\<close>

definition carried_out :: "job \<Rightarrow> job \<Rightarrow> bool" where
  "carried_out j j' \<longleftrightarrow>
     same_request j j' \<and> attempts j' = attempts j + 1 \<and> status j' \<in> {''completed'', ''queued'', ''failed''}"

context reliable_services
begin

lemma reach_read:
  assumes w: "waits i j (view w)" and n: "next_in_priority i (view w)" and r: "none_due A view (zsets (view w) RETRY_KEY)"
    and Q: "\<And>rest w'. rows (view w') = rows (view w) \<Longrightarrow> run rest = stale_pass A i j \<Longrightarrow> Q rest w'"
  shows "may_reach (pass_thread A) Q w"
  unfolding pass_thread_def
proof (rule reach_try, rule reach_bind, rule reach_next [OF w n r])
  fix w1
  assume "data (view w1) = zset_del PRIORITY_KEY (str_uuid i) (data (view w))"
  note d = data_isD [OF this]
  have j: "rows (view w1) i = Some j" "\<not> status j \<noteq> status_value QUEUED" using w by (simp_all add: d waits_def)
  let ?h = "\<lambda>e. bind_thread (atomic (count_io A ''worker_loop_iterations'' 1 [(''worker_id'', hostname A), (''outcome'', ''error'')])) (\<lambda>_.
             atomic (do_io (nap A 1)))"
  let ?run = "\<lambda>r. case r of None \<Rightarrow> return_thread () | Some (jid, c) \<Rightarrow> run_job_thread A jid c"
  let ?some = "\<lambda>claim. return_thread (map_option (\<lambda>c. (str_uuid i, c)) claim)"
  show "may_reach (bind_thread (start_thread A (str_uuid i) ''priority'') ?some)
      (\<lambda>t. Q (try_thread (bind_thread t ?run) ?h)) w1"
    unfolding start_thread_def uuid_thread_def parse_str_uuid bind_thread.simps sum.case
  proof (rule reach_bind, rule reach_command, rule wp_call_total [OF get_law query_total(1)])
    fix job w2
    assume q: "view w2 = view w1 \<and> job = rows (view w1) i"
    let ?rest = "bind_thread (atomic (now_utc A)) (\<lambda>t.
           bind_thread (atomic (db_commit A (start_writes j ''priority'' t))) (\<lambda>_.
           return_thread (Some \<lparr>cj_type = job_type j, cj_payload = payload j, cj_priority = priority j,
                              cj_created_at = created_at j, cj_started_at = t\<rparr>)))"
    have "Q (try_thread (bind_thread (bind_thread ?rest ?some) ?run) ?h) w2"
      by (rule Q) (simp_all add: q d stale_pass_def bind_io_assoc bind_io_return run_run_job)
    then show "may_reach (case job of
       None \<Rightarrow> return_thread None
     | Some j \<Rightarrow>
         if status j \<noteq> status_value QUEUED then return_thread None
         else
           bind_thread (atomic (now_utc A)) (\<lambda>t.
           bind_thread (atomic (db_commit A (start_writes j ''priority'' t))) (\<lambda>_.
           return_thread (Some \<lparr>cj_type = job_type j, cj_payload = payload j, cj_priority = priority j,
                              cj_created_at = created_at j, cj_started_at = t\<rparr>))))
      (\<lambda>t. Q (try_thread (bind_thread (bind_thread t ?some) ?run) ?h)) w2"
      unfolding q [THEN conjunct2] j(1) option.case if_not_P [OF j(2)] by (rule reach_here)
  qed
qed

lemma wp_stale_pass:
  assumes g: "good_table t0" "t0 i = Some j" and q: "status j = ''queued''"
    and w: "rows (view w) = t0(i \<mapsto> j\<lparr>status := ''cancelled''\<rparr>)" and c: "get_executor (job_type j) = Inr cls"
  shows "wp (stale_pass A i j) (\<lambda>_ w'. \<exists>j'. rows (view w') i = Some j' \<and> carried_out j j') (\<lambda>_ _. False) w"
proof -
  let ?j = "j\<lparr>status := ''cancelled''\<rparr>" and ?t = "rows (view w)"
  let ?Q = "\<lambda>_ w'. \<exists>j'. rows (view w') i = Some j' \<and> carried_out j j'"
  have i: "job_id j = i" by (rule good_tableD(4) [OF g])
  have writes: "writable (start_writes j s t) ?t" "row_writes (start_writes j s t) ?t = t0(i \<mapsto> started_row j t)" for s t
    unfolding start_writes_def i by (simp_all add: w started_row_def)
  have "good_table (t0(i \<mapsto> started_row j t))" for t
    by (rule good_table_step [OF table_step.row [where t = t0 and i = i, OF g(2) row_steps_of(3) [OF q]] g(1)])
  note g1 = this
  have "wp (run_job A (str_uuid i) \<lparr>cj_type = job_type j, cj_payload = payload j, cj_priority = priority j,
                                 cj_created_at = created_at j, cj_started_at = t\<rparr>) ?Q (\<lambda>_ _. False) w1"
    if r1: "rows (view w1) = t0(i \<mapsto> started_row j t)" for t w1
  proof (rule wp_run_started [where j = "started_row j t" and cls = cls])
    show "good_table (rows (view w1))" "rows (view w1) i = Some (started_row j t)" using g1 by (simp_all add: r1)
  qed (auto simp: c carried_out_def completed_row_def failed_row_def retried_row_def started_row_def same_request_def)
  then have ok: "wp (bind_io (now_utc A) (\<lambda>t.
        seq_io (db_commit A (start_writes j ''priority'' t))
        (run_job A (str_uuid i) \<lparr>cj_type = job_type j, cj_payload = payload j, cj_priority = priority j,
                                 cj_created_at = created_at j, cj_started_at = t\<rparr>))) ?Q (\<lambda>_ _. False) w"
    unfolding wp_bind by (intro wp_now wp_commit_rows) (auto simp: writes)
  show ?thesis unfolding stale_pass_def wp_try_except by (rule wp_mono [OF ok]) simp_all
qed

lemma stale_run:
  assumes w: "waits i j (view w)" and n: "next_in_priority i (view w)" and r: "none_due A view (zsets (view w) RETRY_KEY)"
    and c: "get_executor (job_type j) = Inr cls"
  shows "may_reach (pass_thread A) (\<lambda>rest w1. \<exists>answer w2 w3 j'.
       cancel_job_endpoint A i w1 = (Inr answer, w2) \<and> status_code answer = 200 \<and>
       body answer = job_read_of (j\<lparr>status := ''cancelled''\<rparr>) \<and> rows (view w2) i = Some (j\<lparr>status := ''cancelled''\<rparr>) \<and>
       run rest w2 = (Inr (), w3) \<and> rows (view w3) i = Some j' \<and> carried_out j j') w"
proof (rule reach_read [OF w n r])
  fix rest w1
  assume rw: "rows (view w1) = rows (view w)" and rest: "run rest = stale_pass A i j"
  have g: "good_table (rows (view w))" "rows (view w) i = Some j" "status j = ''queued''" using w by (simp_all add: waits_def)
  have "keyed_by_id (rows (view w1))" using g by (simp add: rw good_table_def)
  from wp_mono [OF cancel_endpoint_answers [OF this, of i], where X' = "\<lambda>_ _. False"]
  have "wp (cancel_job_endpoint A i) (\<lambda>a w'. status_code a = 200 \<and> body a = job_read_of (j\<lparr>status := ''cancelled''\<rparr>) \<and>
      rows (view w') = (rows (view w))(i \<mapsto> j\<lparr>status := ''cancelled''\<rparr>)) (\<lambda>_ _. False) w1"
    using g by (auto simp: rw)
  then obtain a w2 where a: "cancel_job_endpoint A i w1 = (Inr a, w2)" "status_code a = 200"
      "body a = job_read_of (j\<lparr>status := ''cancelled''\<rparr>)"
    and r2: "rows (view w2) = (rows (view w))(i \<mapsto> j\<lparr>status := ''cancelled''\<rparr>)" by (auto dest: wp_obtain)
  obtain w3 j' where "run rest w2 = (Inr (), w3)" "rows (view w3) i = Some j'" "carried_out j j'"
    using wp_obtain [OF wp_stale_pass [OF g r2 c]] unfolding rest by auto
  with a r2 show "\<exists>answer w2 w3 j'.
       cancel_job_endpoint A i w1 = (Inr answer, w2) \<and> status_code answer = 200 \<and>
       body answer = job_read_of (j\<lparr>status := ''cancelled''\<rparr>) \<and> rows (view w2) i = Some (j\<lparr>status := ''cancelled''\<rparr>) \<and>
       run rest w2 = (Inr (), w3) \<and> rows (view w3) i = Some j' \<and> carried_out j j'"
    by fastforce
qed

end

subsection \<open>A creation whose identifier is taken before its commit\<close>

text \<open>What is left of a creation once the identifier of \<open>j\<close> is in the priority queue.\<close>

definition announced_creation :: "'w app \<Rightarrow> job_create \<Rightarrow> job \<Rightarrow> ('w, job_read response) io" where
  "announced_creation A jc j =
     bind_io
       (try_except
         (seq_io (db_commit A [InsertJob j])
         (seq_io (count_io A ''jobs_created'' 1 [(''job_type'', job_type j), (''priority'', priority j)])
         (return_io (j, True))))
         (\<lambda>e. if is_integrity e then
                seq_io (db_rollback A)
                (bind_io (db_where A (\<lambda>j. idempotency_key j = jc_idempotency_key jc)) (\<lambda>existing.
                 bind_io (scalar_one existing) (\<lambda>row.
                 seq_io (count_io A ''idempotency_hits'' 1 [(''job_type'', job_type row)])
                 (return_io (row, False)))))
              else raise_io e))
       (\<lambda>(job, is_new).
         return_io \<lparr>status_code = (if is_new then 201 else 200),
                    headers = (if is_new then [] else [(''X-Idempotency-Replay'', ''true'')]),
                    body = job_read_of job\<rparr>)"

text \<open>A store without work: every queue is empty, and the request's key and the identifiers drawn are new.\<close>

definition idle_for :: "'w app \<Rightarrow> job_create \<Rightarrow> ('w \<Rightarrow> store) \<Rightarrow> 'w \<Rightarrow> bool" where
  "idle_for A jc view w \<longleftrightarrow>
     good_table (rows (view w)) \<and> (\<forall>m. \<not> queued_in (view w) m) \<and> \<not> key_used jc (view w) \<and>
     reading view (rnd_uuid4 A) (\<lambda>u. u \<notin> dom (rows (view w)))"

definition requested :: "job_create \<Rightarrow> job \<Rightarrow> bool" where
  "requested jc j \<longleftrightarrow>
     (\<exists>u c tp. j = new_job u c (jc_type jc) (payload_with_trace (jc_payload jc) tp) (jc_priority jc)
                    (jc_idempotency_key jc) (jc_max_attempts jc))"

context reliable_services
begin

lemma reach_announced:
  assumes ok: "acceptable jc" and idle: "idle_for A jc view w"
    and Q: "\<And>rest w' j sc. requested jc j \<Longrightarrow> job_id j \<notin> dom (rows (view w)) \<Longrightarrow>
      data (view w') = zset_put PRIORITY_KEY (str_uuid (job_id j)) sc (data (view w)) \<Longrightarrow>
      run rest = announced_creation A jc j \<Longrightarrow> Q rest w'"
  shows "may_reach (create_endpoint_thread A None jc) Q w"
proof -
  have v: "\<not> jc_type jc \<notin> VALID_TYPES" "\<not> jc_priority jc \<notin> VALID_PRIORITIES" using ok by (auto simp: acceptable_iff)
  let ?answer = "\<lambda>(job, is_new). return_thread \<lparr>status_code = (if is_new then 201 else 200),
                       headers = (if is_new then [] else [(''X-Idempotency-Replay'', ''true'')]),
                       body = job_read_of job\<rparr>"
  let ?again = "\<lambda>e. if is_integrity e then
              bind_thread (atomic (db_rollback A)) (\<lambda>_.
              bind_thread (atomic (db_where A (\<lambda>j. idempotency_key j = jc_idempotency_key jc))) (\<lambda>existing.
              bind_thread (atomic (scalar_one existing)) (\<lambda>row.
              bind_thread (atomic (count_io A ''idempotency_hits'' 1 [(''job_type'', job_type row)])) (\<lambda>_.
              return_thread (row, False)))))
            else raise_thread e"
  have fresh: "reading view (rnd_uuid4 A) (\<lambda>u. u \<notin> dom (rows (view w)))" using idle by (simp add: idle_for_def)
  have new: "may_reach (create_new_thread A jc) (\<lambda>t. Q (bind_thread t ?answer)) w1" if v1: "view w1 = view w" for w1
    unfolding create_new_thread_def
  proof (rule reach_command, rule wp_trace, rule reach_command, rule wp_reading [OF fresh], rule reach_try, rule reach_command, rule wp_flush_total)
    fix tp w2 u w3
    assume v2: "view w2 = view w1" and u: "u \<notin> dom (rows (view w))" and v3: "view w3 = view w2"
    let ?j = "\<lambda>c. new_job u c (jc_type jc) (payload_with_trace (jc_payload jc) tp) (jc_priority jc)
                (jc_idempotency_key jc) (jc_max_attempts jc)"
    show "\<not> insert_conflicts (?j 0) (rows (view w3))"
      using u idle by (auto simp: idle_for_def key_used_def v1 v2 v3)
    fix c w4
    assume v4: "view w4 = view w3"
    have e: "(?j 0)\<lparr>created_at := c\<rparr> = ?j c" by simp
    show "may_reach
       (bind_thread (enqueue_priority_thread A (str_uuid (job_id ((?j 0)\<lparr>created_at := c\<rparr>))) (priority ((?j 0)\<lparr>created_at := c\<rparr>)) '''') (\<lambda>_.
        bind_thread (atomic (db_commit A [InsertJob ((?j 0)\<lparr>created_at := c\<rparr>)])) (\<lambda>_.
        bind_thread (atomic (count_io A ''jobs_created'' 1 [(''job_type'', job_type ((?j 0)\<lparr>created_at := c\<rparr>)),
           (''priority'', priority ((?j 0)\<lparr>created_at := c\<rparr>))])) (\<lambda>_.
        return_thread ((?j 0)\<lparr>created_at := c\<rparr>, True)))))
       (\<lambda>t. Q (bind_thread (try_thread t ?again) ?answer)) w4"
      unfolding e
    proof (rule reach_through, unfold run_enqueue_priority, rule wp_enqueue_priority_total, rule reach_here)
      fix ts w5
      assume d: "data (view w5) = zset_put PRIORITY_KEY (str_uuid (job_id (?j c))) (score_at (priority (?j c)) ts) (data (view w4))"
      show "Q (bind_thread (try_thread
         (bind_thread (atomic (db_commit A [InsertJob (?j c)])) (\<lambda>_.
          bind_thread (atomic (count_io A ''jobs_created'' 1 [(''job_type'', job_type (?j c)), (''priority'', priority (?j c))])) (\<lambda>_.
          return_thread (?j c, True)))) ?again) ?answer) w5"
      proof (rule Q)
        show "requested jc (?j c)" unfolding requested_def by blast
        show "job_id (?j c) \<notin> dom (rows (view w))" using u by simp
        show "data (view w5) = zset_put PRIORITY_KEY (str_uuid (job_id (?j c))) (score_at (priority (?j c)) ts) (data (view w))"
          using d by (simp add: v1 v2 v3 v4)
        show "run (bind_thread (try_thread
         (bind_thread (atomic (db_commit A [InsertJob (?j c)])) (\<lambda>_.
          bind_thread (atomic (count_io A ''jobs_created'' 1 [(''job_type'', job_type (?j c)), (''priority'', priority (?j c))])) (\<lambda>_.
          return_thread (?j c, True)))) ?again) ?answer) = announced_creation A jc (?j c)"
          by (simp add: announced_creation_def run_if case_prod_unfold cong: if_cong)
      qed
    qed
  qed
  have key: "matching (\<lambda>j. idempotency_key j = jc_idempotency_key jc) (view w) = {}" if "truthy (jc_idempotency_key jc)"
    using idle that by (force simp: idle_for_def key_used_def matching_def truthy_def split: option.splits)
  have "may_reach (create_thread A jc) (\<lambda>t. Q (bind_thread t ?answer)) w"
    unfolding create_thread_def lookup_thread_def
  proof (cases "truthy (jc_idempotency_key jc)")
    case False
    then show "may_reach (bind_thread (if truthy (jc_idempotency_key jc) then L else return_thread None)
        (\<lambda>row. case row of Some r \<Rightarrow> return_thread (r, False) | None \<Rightarrow> create_new_thread A jc)) (\<lambda>t. Q (bind_thread t ?answer)) w" for L
      using new [of w] by simp
  next
    case True
    show "may_reach (bind_thread (if truthy (jc_idempotency_key jc) then
        bind_thread (atomic (db_where A (\<lambda>j. idempotency_key j = jc_idempotency_key jc))) (\<lambda>existing.
        bind_thread (atomic (scalar_one_or_none existing)) (\<lambda>row.
        case row of
          None \<Rightarrow> return_thread None
        | Some r \<Rightarrow>
            bind_thread (atomic (count_io A ''idempotency_hits'' 1 [(''job_type'', job_type r)])) (\<lambda>_. return_thread (Some r))))
      else return_thread None)
        (\<lambda>row. case row of Some r \<Rightarrow> return_thread (r, False) | None \<Rightarrow> create_new_thread A jc)) (\<lambda>t. Q (bind_thread t ?answer)) w"
      unfolding if_P [OF True] bind_thread_assoc
      by (rule reach_command, rule wp_call_total [OF where_law query_total(2)])
         (auto simp: key [OF True] wp_simps intro!: reach_command new)
  qed
  then show ?thesis
    unfolding create_endpoint_thread_def option.case if_not_P [OF v(1)] if_not_P [OF v(2)] by (rule reach_bind)
qed

end

context reliable_services
begin

lemma none_due_empty: "none_due A view Map.empty"
  using time_law by (simp add: none_due_def reading_def)

text \<open>A pass that takes an identifier without a row drops it.\<close>

lemma wp_pass_drops:
  assumes g: "good_table (rows (view w))" and u: "rows (view w) u = None"
    and p: "zsets (view w) PRIORITY_KEY = [str_uuid u \<mapsto> sc]" and r: "zsets (view w) RETRY_KEY = Map.empty"
    and l: "lists (view w) FIFO_KEY = []"
    and Q: "\<And>w'. data (view w') = zset_del PRIORITY_KEY (str_uuid u) (data (view w)) \<Longrightarrow> Q () w'"
  shows "wp (worker_iteration A) Q X w"
  unfolding worker_iteration_def wp_try_except poll_once_def wp_bind
proof (rule wp_drain_nothing, simp add: r none_due_empty)
  fix w1
  assume d1: "data (view w1) = data (view w)"
  note e = data_eqD [OF d1]
  let ?X = "\<lambda>e. wp (count_io A ''worker_loop_iterations'' 1 [(''worker_id'', hostname A), (''outcome'', ''error'')])
      (\<lambda>_. wp (do_io (nap A 1)) Q X) X"
  show "wp (for_each (requeue_due A) []) (\<lambda>_. wp (next_job A) (\<lambda>nxt. wp (case nxt of
        None \<Rightarrow> count_io A ''worker_loop_iterations'' 1 [(''worker_id'', hostname A), (''outcome'', ''no_job'')]
      | Some (jid, source) \<Rightarrow> process_job A jid source) Q ?X) ?X) ?X w1"
    unfolding for_each.simps wp_return
  proof (rule wp_next_job)
    show "'''' \<notin> dom (zsets (view w1) PRIORITY_KEY)" "'''' \<notin> set (lists (view w1) FIFO_KEY)"
      using str_uuid_nonempty [of u] by (metis dom_empty dom_fun_upd e(1) p option.distinct(1) singletonD) (simp add: e l)
  next
    fix m w2
    assume m: "zfirst (zsets (view w1) PRIORITY_KEY) m" and v2: "data (view w2) = zset_del PRIORITY_KEY m (data (view w1))"
    have i: "m = str_uuid u" using m by (auto simp: zfirst_def e p split: if_splits)
    have s: "rows (view w2) = rows (view w)" by (simp add: data_isD [OF v2] e)
    have "wp (process_job A (str_uuid u) ''priority'') (\<lambda>_ w'. view w' = view w2) (\<lambda>_ _. False) w2"
      by (rule process_ignores) (simp_all add: s g u)
    then show "wp (case Some (m, ''priority'') of
        None \<Rightarrow> count_io A ''worker_loop_iterations'' 1 [(''worker_id'', hostname A), (''outcome'', ''no_job'')]
      | Some (jid, source) \<Rightarrow> process_job A jid source) Q ?X w2"
      unfolding i option.case prod.case by (rule wp_mono) (use v2 d1 in \<open>auto simp: i intro!: Q\<close>)
  qed (simp_all add: e p l)
qed

lemma wp_announced:
  assumes nc: "\<not> insert_conflicts j (rows (view w))"
    and Q: "\<And>w'. data (view w') = (data (view w))\<lparr>rows := (rows (view w))(job_id j \<mapsto> j)\<rparr> \<Longrightarrow>
      Q \<lparr>status_code = 201, headers = [], body = job_read_of j\<rparr> w'"
  shows "wp (announced_creation A jc j) Q X w"
  unfolding announced_creation_def wp_bind wp_try_except
proof (rule wp_insert_cases)
  fix w1
  assume v: "view w1 = (view w)\<lparr>rows := (rows (view w))(job_id j \<mapsto> j)\<rparr>"
  show "wp (count_io A ''jobs_created'' 1 [(''job_type'', job_type j), (''priority'', priority j)])
      (\<lambda>_. wp (return_io (j, True)) (\<lambda>a. wp (case a of (job, is_new) \<Rightarrow>
         return_io \<lparr>status_code = (if is_new then 201 else 200),
                    headers = (if is_new then [] else [(''X-Idempotency-Replay'', ''true'')]),
                    body = job_read_of job\<rparr>) Q X) Y) Y w1" for Y
    by (rule wp_count) (simp add: wp_return, rule Q, simp add: v)
qed (use nc in simp_all)

lemma creation_race:
  assumes ok: "acceptable jc" "1 \<le> jc_max_attempts jc" "jc_max_attempts jc \<le> 10" and idle: "idle_for A jc view w"
  shows "may_reach (create_endpoint_thread A None jc) (\<lambda>rest w1. \<exists>w2 w3 answer j.
       worker_iteration A w1 = (Inr (), w2) \<and> run rest w2 = (Inr answer, w3) \<and>
       status_code answer = 201 \<and> body answer = job_read_of j \<and> lost (job_id j) j (view w3)) w"
proof (rule reach_announced [OF ok(1) idle])
  fix rest w1 j sc
  assume j: "requested jc j" and u: "job_id j \<notin> dom (rows (view w))"
    and d1: "data (view w1) = zset_put PRIORITY_KEY (str_uuid (job_id j)) sc (data (view w))"
    and rest: "run rest = announced_creation A jc j"
  have g: "good_table (rows (view w))" and e: "zsets (view w) PRIORITY_KEY = Map.empty" "zsets (view w) RETRY_KEY = Map.empty"
      "lists (view w) FIFO_KEY = []" and k: "\<not> key_used jc (view w)"
    using idle by (auto simp: idle_for_def queued_in_def fun_eq_iff domIff) (metis list.set_sel(1))
  note s1 = data_isD [OF d1]
  have "wp (worker_iteration A) (\<lambda>_ w2. data (view w2) = zset_del PRIORITY_KEY (str_uuid (job_id j)) (data (view w1))) (\<lambda>_ _. False) w1"
    by (rule wp_pass_drops [where u = "job_id j" and sc = sc]) (use g u in \<open>auto simp: s1 e\<close>)
  then obtain w2 where w2: "worker_iteration A w1 = (Inr (), w2)"
    and d2: "data (view w2) = zset_del PRIORITY_KEY (str_uuid (job_id j)) (data (view w1))" by (auto dest: wp_obtain)
  note s2 = data_isD [OF d2]
  have nc: "\<not> insert_conflicts j (rows (view w2))"
    using u k j by (auto simp: s2 s1 requested_def key_used_def)
  have "wp (announced_creation A jc j) (\<lambda>a w3. status_code a = 201 \<and> body a = job_read_of j \<and>
      data (view w3) = (data (view w2))\<lparr>rows := (rows (view w2))(job_id j \<mapsto> j)\<rparr>) (\<lambda>_ _. False) w2"
    by (rule wp_announced [OF nc]) simp
  then obtain a w3 where a: "announced_creation A jc j w2 = (Inr a, w3)" "status_code a = 201" "body a = job_read_of j"
    and d3: "data (view w3) = (data (view w2))\<lparr>rows := (rows (view w2))(job_id j \<mapsto> j)\<rparr>" by (auto dest: wp_obtain)
  note s3 = data_isD [OF d3]
  obtain i c tp where nj: "j = new_job i c (jc_type jc) (payload_with_trace (jc_payload jc) tp) (jc_priority jc)
      (jc_idempotency_key jc) (jc_max_attempts jc)" using j by (auto simp: requested_def)
  have "table_step (rows (view w2)) ((rows (view w2))(i \<mapsto> j))" by (rule table_step.insert [OF nj ok(2,3) nc])
  then have "good_table ((rows (view w2))(i \<mapsto> j))" by (rule good_table_step) (simp add: s2 s1 g)
  then have "good_table (rows (view w3))" by (simp add: s3) (simp add: nj)
  moreover have "\<not> queued_in (view w3) m" for m
    using idle by (auto simp: queued_in_def idle_for_def s3 s2 s1 e)
  ultimately have "lost (job_id j) j (view w3)" by (simp add: lost_def s3) (simp add: nj)
  then show "\<exists>w2 w3 answer j. worker_iteration A w1 = (Inr (), w2) \<and> run rest w2 = (Inr answer, w3) \<and>
       status_code answer = 201 \<and> body answer = job_read_of j \<and> lost (job_id j) j (view w3)"
    using w2 a unfolding rest by blast
qed

end

subsection \<open>A retry that recovery enqueues before its commit\<close>

context reliable_services
begin

lemma run_idle_pass:
  assumes g: "rows (view w) i = Some j" "status j \<noteq> ''queued''" and p: "zsets (view w) PRIORITY_KEY = Map.empty"
    and r: "dom (zsets (view w) RETRY_KEY) = {str_uuid i}" and l: "lists (view w) FIFO_KEY = []"
    and due: "zsets (view w) RETRY_KEY (str_uuid i) = Some sc" "sc \<le> fst (clock_time A w)"
    and Q: "\<And>w'. rows (view w') = rows (view w) \<Longrightarrow> (\<forall>m. \<not> queued_in (view w') m) \<Longrightarrow> Q () w'"
  shows "wp (worker_iteration A) Q X w"
  unfolding worker_iteration_def wp_try_except poll_once_def wp_bind
proof (rule wp_drain_at)
  fix now ids w1
  assume "now = fst (clock_time A w)" and d: "drained (zsets (view w) RETRY_KEY) 10 now ids"
    and v: "data (view w1) = zset_drop RETRY_KEY ids (data (view w))"
  moreover have "zfirst (zsets (view w) RETRY_KEY) (str_uuid i)" by (simp add: zfirst_def r)
  ultimately have "str_uuid i \<in> set ids" using due by (intro first_drained [OF d]) simp_all
  moreover have "distinct ids" "set ids \<subseteq> {str_uuid i}"
    using d sorted_zbefore_distinct r by (auto simp: drained_def dest!: in_set_takeD)
  ultimately have ids: "ids = [str_uuid i]" by (intro singleton_list) auto
  have e: "rows (view w1) = rows (view w)" "zsets (view w1) PRIORITY_KEY = Map.empty" "lists (view w1) FIFO_KEY = []"
      "zsets (view w1) RETRY_KEY = Map.empty"
    using data_isD [OF v] r by (auto simp: ids p l without_ids_def fun_eq_iff domIff)
  let ?X = "\<lambda>e. wp (count_io A ''worker_loop_iterations'' 1 [(''worker_id'', hostname A), (''outcome'', ''error'')])
      (\<lambda>_. wp (do_io (nap A 1)) Q X) X"
  have rest: "wp (next_job A) (\<lambda>nxt. wp (case nxt of
        None \<Rightarrow> count_io A ''worker_loop_iterations'' 1 [(''worker_id'', hostname A), (''outcome'', ''no_job'')]
      | Some (jid, source) \<Rightarrow> process_job A jid source) Q ?X) ?X w2" if "view w2 = view w1" for w2
  proof (rule wp_next_job)
    fix w3
    assume "data (view w3) = data (view w2)"
    note f = data_eqD [OF this]
    show "wp (case None of
        None \<Rightarrow> count_io A ''worker_loop_iterations'' 1 [(''worker_id'', hostname A), (''outcome'', ''no_job'')]
      | Some (jid, source) \<Rightarrow> process_job A jid source) Q ?X w3"
      unfolding option.case by (rule wp_count, rule Q) (simp_all add: f that e queued_in_def)
  qed (simp_all add: that e zfirst_def)
  show "wp (for_each (requeue_due A) ids) (\<lambda>_. wp (next_job A) (\<lambda>nxt. wp (case nxt of
        None \<Rightarrow> count_io A ''worker_loop_iterations'' 1 [(''worker_id'', hostname A), (''outcome'', ''no_job'')]
      | Some (jid, source) \<Rightarrow> process_job A jid source) Q ?X) ?X) ?X w1"
    unfolding ids for_each.simps wp_bind wp_return
    by (rule wp_requeue_due) (use g e rest in auto)
qed

text \<open>
  Recovery enqueues a retry for every row it finds and commits once, at the end. A retry that
  falls due before that commit is drained by a worker, which still reads the row as processing
  and drops it; the commit then leaves the job queued in no queue.
\<close>

lemma recovery_commit_race:
  assumes g: "good_table (rows (view w))" and j: "rows (view w) i = Some j" "attempts j + 1 < max_attempts j"
    and only: "matching (stuck (fst (clock_now A w) - m * 60 * 10 ^ 6)) (view w) = {j}"
    and idle: "\<forall>m. \<not> queued_in (view w) m"
  shows "may_reach (recovery_thread A m) (\<lambda>rest w1. \<forall>w2 sc. view w2 = view w1 \<longrightarrow>
     zsets (view w1) RETRY_KEY (str_uuid i) = Some sc \<longrightarrow> sc \<le> fst (clock_time A w2) \<longrightarrow>
     (\<exists>w3 w4 r. worker_iteration A w2 = (Inr (), w3) \<and> run rest w3 = (Inr (), w4) \<and> lost i r (view w4))) w"
  unfolding recovery_thread_def
proof (rule reach_command, rule wp_reading_now, rule reach_command, rule wp_call_total [OF where_law query_total(2)])
  fix now wa js wb
  assume now: "now = fst (clock_now A w)" and va: "view wa = view w"
    and q: "view wb = view wa \<and> distinct js \<and> set js = matching (stuck (now - m * 60 * 10 ^ 6)) (view wa)"
  then have vb: "view wb = view w" and js: "js = [j]" using only by (auto intro: singleton_list)
  have i: "job_id j = i" by (rule good_tableD(4) [OF g j(1)])
  have "stuck (now - m * 60 * 10 ^ 6) j" using only by (auto simp: matching_def now)
  then have s: "status j = ''processing''" by (simp add: stuck_def)
  have e: "zsets (view w) PRIORITY_KEY = Map.empty" "zsets (view w) RETRY_KEY = Map.empty" "lists (view w) FIFO_KEY = []"
    using idle by (auto simp: queued_in_def fun_eq_iff domIff) (metis list.set_sel(1))
  have "may_reach (bind_thread (recover_each_thread A [j]) (\<lambda>ws. atomic (db_commit A ws)))
     (\<lambda>rest w1. \<forall>w2 sc. view w2 = view w1 \<longrightarrow>
       zsets (view w1) RETRY_KEY (str_uuid i) = Some sc \<longrightarrow> sc \<le> fst (clock_time A w2) \<longrightarrow>
       (\<exists>w3 w4 r. worker_iteration A w2 = (Inr (), w3) \<and> run rest w3 = (Inr (), w4) \<and> lost i r (view w4))) wb"
  proof (rule reach_through, unfold run_recover_each, rule wp_mono [OF wp_recover_each_total], rule reach_here, intro allI impI)
    fix ws w1 w2 sc
    assume h: "recovered [j] ws \<and> rows (view w1) = rows (view wb) \<and> lists (view w1) = lists (view wb) \<and>
        (\<forall>k. k \<noteq> RETRY_KEY \<longrightarrow> zsets (view w1) k = zsets (view wb) k) \<and>
        dom (zsets (view w1) RETRY_KEY) = dom (zsets (view wb) RETRY_KEY) \<union> requeued [j]"
      and v2: "view w2 = view w1" and due: "zsets (view w1) RETRY_KEY (str_uuid i) = Some sc" "sc \<le> fst (clock_time A w2)"
    have "wp (worker_iteration A) (\<lambda>_ w3. rows (view w3) = rows (view w) \<and> (\<forall>m. \<not> queued_in (view w3) m)) (\<lambda>_ _. False) w2"
      by (rule run_idle_pass [where i = i and j = j and sc = sc])
         (use h j s due e in \<open>auto simp: v2 vb i requeued_def\<close>)
    then obtain w3 where w3: "worker_iteration A w2 = (Inr (), w3)" and r3: "rows (view w3) = rows (view w)"
      and q3: "\<And>m. \<not> queued_in (view w3) m" by (auto dest: wp_obtain)
    have p: "\<forall>k \<in> set [j]. rows (view w) (job_id k) = Some k \<and> status k = ''processing''" using j s i by simp
    have "writable ws (rows (view w3))" using h j i by (intro recovered_writable [of "[j]"]) (auto simp: r3)
    from wp_commit_total [OF this, of "\<lambda>_ w4. committed ws (view w3) (view w4)" "\<lambda>_ _. False"]
    obtain w4 where w4: "db_commit A ws w3 = (Inr (), w4)" and c: "committed ws (view w3) (view w4)" by (auto dest: wp_obtain)
    have r4: "rows (view w4) = row_writes ws (rows (view w))" using committed_sel(1) [OF c] by (simp add: r3)
    have "good_table (rows (view w4))"
      unfolding r4 by (rule good_table_steps [OF recovered_steps [OF _ p] g]) (use h in simp_all)
    moreover have "\<exists>r. rows (view w4) i = Some r \<and> status r = ''queued''"
    proof -
      obtain r where r: "row_writes ws (rows (view w)) i = Some r" "recovery_row j r"
        using recovered_rows [of "[j]" "rows (view w)" ws i] h j(1) i by auto
      have "status r = ''queued''" using r(2) j(2) by (auto simp: recovery_row_def)
      then show ?thesis using r(1) r4 by simp
    qed
    moreover have "\<not> queued_in (view w4) m" for m using q3 committed_sel(2,3) [OF c] by (simp add: queued_in_def)
    ultimately have "\<exists>r. lost i r (view w4)" by (auto simp: lost_def)
    then show "\<exists>w3 w4 r. worker_iteration A w2 = (Inr (), w3) \<and> run (atomic (db_commit A ws)) w3 = (Inr (), w4) \<and> lost i r (view w4)"
      using w3 w4 by auto
  qed simp
  then show "may_reach (if js = [] then return_thread () else bind_thread (recover_each_thread A js) (\<lambda>ws. atomic (db_commit A ws)))
     (\<lambda>rest w1. \<forall>w2 sc. view w2 = view w1 \<longrightarrow>
       zsets (view w1) RETRY_KEY (str_uuid i) = Some sc \<longrightarrow> sc \<le> fst (clock_time A w2) \<longrightarrow>
       (\<exists>w3 w4 r. worker_iteration A w2 = (Inr (), w3) \<and> run rest w3 = (Inr (), w4) \<and> lost i r (view w4))) wb"
    by (simp add: js)
qed

end

subsection \<open>Properties\<close>


text \<open>The sample job in the priority queue, and in the retry queue.\<close>

lemma busy_waits: "waits 7 sample_row (mem_view (busy_mem []))"
  using busy_tracked [of "[]"] by (auto simp: waits_def tracked_but_def busy_mem_def sample_row_good)

lemma busy_next: "next_in_priority 7 (mem_view (busy_mem []))"
  by (simp add: next_in_priority_def zfirst_def busy_mem_def mem_init_def)

lemma busy_none_due: "none_due (mem_app False) mem_view (zsets (mem_view (busy_mem [])) RETRY_KEY)"
proof -
  have "zsets (mem_view (busy_mem [])) RETRY_KEY = Map.empty" by (simp add: busy_mem_def mem_init_def)
  then show ?thesis using reliable_services.none_due_empty [OF mem_reliable_services] by simp
qed



text \<open>
  C27: A cancellation that is answered and undone. Take any store in which a queued job of a
  registered type is the next of the priority queue and no retry is due, and services that do
  not fail. A worker's pass can come to a point, between its read of the row and the commit
  that claims it, where a request to cancel the job is answered 200 with the cancelled row,
  which is then in the table; and when the pass goes on the job is executed all the same: it
  ends completed, queued for another attempt or failed, with one more attempt, not cancelled.
\<close>
theorem stale_start:
  assumes "reliable_services A view" and "waits i j (view w)" and "next_in_priority i (view w)"
    and "none_due A view (zsets (view w) RETRY_KEY)" and "get_executor (job_type j) = Inr cls"
  shows "\<exists>rest w1 answer w2 w3 j'. alone (pass_thread A, w) (rest, w1) \<and>
     cancel_job_endpoint A i w1 = (Inr answer, w2) \<and> status_code answer = 200 \<and>
     body answer = job_read_of (j\<lparr>status := ''cancelled''\<rparr>) \<and> rows (view w2) i = Some (j\<lparr>status := ''cancelled''\<rparr>) \<and>
     run rest w2 = (Inr (), w3) \<and> rows (view w3) i = Some j' \<and> carried_out j j'"
  using reliable_services.stale_run [OF assms] unfolding may_reach_def by blast

theorem stale_start_witness:
  "\<exists>rest w1 answer w2 w3 j'. alone (pass_thread (mem_app False), busy_mem []) (rest, w1) \<and>
     cancel_job_endpoint (mem_app False) 7 w1 = (Inr answer, w2) \<and> status_code answer = 200 \<and>
     rows (mem_view w2) 7 = Some (sample_row\<lparr>status := ''cancelled''\<rparr>) \<and>
     run rest w2 = (Inr (), w3) \<and> rows (mem_view w3) 7 = Some j' \<and> carried_out sample_row j'"
proof -
  have "get_executor (job_type sample_row) = Inr EmailExecutor"
    by (simp add: sample_row_good get_executor_def EXECUTOR_REGISTRY_def)
  from stale_start [OF mem_reliable_services busy_waits busy_next busy_none_due this] show ?thesis by blast
qed

text \<open>
  C30: Enqueueing before the commit. Take any store with idle queues, an acceptable request
  whose key is new, fresh identifiers, and services that do not fail. The creation can come to
  a point, after its enqueue and before its commit, where a worker's pass takes the identifier,
  finds no row and drops it; when the creation goes on it is answered 201, and the new job is
  queued with its identifier in no queue, for good (\<open>lost_stays_lost\<close>).
\<close>
theorem enqueue_before_commit_race:
  assumes "reliable_services A view" and "acceptable jc" and "1 \<le> jc_max_attempts jc" and "jc_max_attempts jc \<le> 10"
    and "idle_for A jc view w"
  shows "\<exists>rest w1 w2 w3 answer j. alone (create_endpoint_thread A None jc, w) (rest, w1) \<and>
     worker_iteration A w1 = (Inr (), w2) \<and> run rest w2 = (Inr answer, w3) \<and>
     status_code answer = 201 \<and> body answer = job_read_of j \<and> lost (job_id j) j (view w3)"
  using reliable_services.creation_race [OF assms] unfolding may_reach_def by blast

theorem enqueue_before_commit_race_witness:
  "\<exists>rest w1 w2 w3 answer j. alone (create_endpoint_thread (mem_app False) None sample_request, mem_init) (rest, w1) \<and>
     worker_iteration (mem_app False) w1 = (Inr (), w2) \<and> run rest w2 = (Inr answer, w3) \<and>
     status_code answer = 201 \<and> body answer = job_read_of j \<and> lost (job_id j) j (mem_view w3)"
proof (rule enqueue_before_commit_race [OF mem_reliable_services])
  show "idle_for (mem_app False) sample_request mem_view mem_init"
    by (auto simp: idle_for_def good_table_def keyed_by_id_def unique_keys_def queued_in_def key_used_def mem_init_def
        reading_def mem_app_def mem_uuid4_def mem_view_def)
qed (simp_all add: sample_request_def acceptable_def)

end
