(* ===== verification/Crash.thy ===== *)
theory Crash
  imports Cut_Off Concurrent_System
begin

section \<open>Workers that die\<close>

text \<open>
  The execution of a claimed job leaves, wherever it is cut off and whatever fails in it, a row
  that is still \<open>processing\<close> as it was started, or one that has its outcome, or one that is
  queued with its identifier in the retry queue: \<open>crash_safe\<close>. So the next start-up recovery
  whose threshold lies after the start gets the job on (Crash_Recovery).
\<close>

subsection \<open>What the others leave to a job's worker\<close>

text \<open>
  The others, workers and requests on other jobs, leave the job's row and its place in the
  retry queue alone, keep the table well formed, and neither drop a job nor change a request.
\<close>

definition spares :: "uuid \<Rightarrow> store \<Rightarrow> store \<Rightarrow> bool" where
  "spares i s s' \<longleftrightarrow>
     rows s' i = rows s i \<and>
     (str_uuid i \<in> dom (zsets s RETRY_KEY) \<longrightarrow> str_uuid i \<in> dom (zsets s' RETRY_KEY)) \<and>
     (good_table (rows s) \<longrightarrow> good_table (rows s')) \<and> persists (rows s) (rows s')"

text \<open>The job has its outcome, or waits in the retry queue.\<close>

definition settled :: "job \<Rightarrow> store \<Rightarrow> bool" where
  "settled j s \<longleftrightarrow>
     (\<exists>r. rows s (job_id j) = Some r \<and> same_request j r \<and>
        (status r \<in> {''completed'', ''failed''} \<or>
         status r = ''queued'' \<and> str_uuid (job_id j) \<in> dom (zsets s RETRY_KEY)))"

definition crash_safe :: "job \<Rightarrow> store \<Rightarrow> bool" where
  "crash_safe j s \<longleftrightarrow> good_table (rows s) \<and> (rows s (job_id j) = Some j \<or> settled j s)"

lemma spares_data: "data s' = data s \<Longrightarrow> spares i s s'"
  using data_eqD [of s' s] by (simp add: spares_def)

lemma spared:
  assumes "crash_safe j s" and "spares (job_id j) s s'"
  shows "crash_safe j s'"
  using assms unfolding crash_safe_def spares_def settled_def by metis

lemma same_request_refl [simp]: "same_request j j"
  by (simp add: same_request_def)

lemma crash_safe_request: "crash_safe j s \<Longrightarrow> rows s (job_id j) = Some r \<Longrightarrow> same_request j r"
  by (auto simp: crash_safe_def settled_def)

subsection \<open>Threads that survive\<close>

text \<open>Threads whose invariant is \<open>crash_safe\<close>, the others' steps being \<open>spares\<close>.\<close>

abbreviation survives :: "('w \<Rightarrow> store) \<Rightarrow> job \<Rightarrow> (store \<Rightarrow> bool) \<Rightarrow> ('w, 'a) thread \<Rightarrow> bool" where
  "survives view j \<equiv> delivers view (spares (job_id j)) (crash_safe j) (\<lambda>_. crash_safe j)"

abbreviation holds_on :: "job \<Rightarrow> (store \<Rightarrow> bool) \<Rightarrow> bool" where
  "holds_on j \<equiv> stands (spares (job_id j)) (crash_safe j)"

abbreviation spares_job :: "('w \<Rightarrow> store) \<Rightarrow> uuid \<Rightarrow> ('w, 'a) io \<Rightarrow> bool" where
  "spares_job view i \<equiv> moves_as view (spares i)"

interpretation safe: cut_off view "spares (job_id j)" "crash_safe j" for view :: "'w \<Rightarrow> store" and j
  by unfold_locales (rule spared)

named_theorems on_rules \<open>assertions about a job that the others leave true\<close>

lemmas holds_safe [on_rules] = safe.stands_inv

lemma holds_row [on_rules]: "holds_on j (\<lambda>s. crash_safe j s \<and> rows s (job_id j) = r)"
  by (auto simp: stands_def spares_def intro: spared [unfolded spares_def])

lemma holds_retry [on_rules]:
  "holds_on j (\<lambda>s. (crash_safe j s \<and> rows s (job_id j) = r) \<and> str_uuid (job_id j) \<in> dom (zsets s RETRY_KEY))"
  by (auto simp: stands_def spares_def intro: spared [unfolded spares_def])

lemma survives_return: "holds_on j P \<Longrightarrow> survives view j P (return_thread a)"
  by (rule delivers_return) (simp add: stands_def)

lemma survives_last:
  assumes "\<And>w. P (view w) \<Longrightarrow> wp m (\<lambda>_ w'. crash_safe j (view w')) (\<lambda>_ w'. crash_safe j (view w')) w"
  shows "survives view j P (atomic m)"
  by (rule safe.last_command [OF _ holds_safe]) (rule assms)

lemmas survives_bind = delivers_bind [where F = "\<lambda>_. crash_safe j" and E = "\<lambda>_. crash_safe j" and I = "crash_safe j" for j]
lemmas survives_spare_last = safe.last_move_inv

named_theorems spare_rules \<open>commands that leave a job alone\<close>

lemma spares_leaves: "leaves_data view m \<Longrightarrow> spares_job view i m"
  unfolding moves_as_def leaves_data_def by (blast intro: wp_mono spares_data)

lemma spares_executor_io [spare_rules]: "spares_job view i (executor_io ty)"
  unfolding executor_io_def moves_as_def
  by (cases "get_executor ty") (simp_all add: wp_return wp_raise spares_data)

context services
begin

lemma spares_commands [spare_rules]:
  "spares_job view i (count_io A n k ats)" "spares_job view i (updown_io A n d ats)" "spares_job view i (record_io A n v ats)"
  "spares_job view i (now_utc A)" "spares_job view i (epoch_now A)" "spares_job view i (read_io (clock_perf A))"
  "spares_job view i (record_elapsed A c t)" "spares_job view i (wait_for A secs (execute A cls jid pl))"
  "spares_job view i (calculate_backoff_with_jitter A a m)"
  unfolding moves_as_def
  by (auto intro!: wp_count wp_updown wp_record wp_readings wp_elapsed executor.wp_wait_for [OF deadline_law] wp_backoff
      spares_data)

text \<open>The row is read as it is; it is put into the retry queue before it is written.\<close>

lemma survives_get:
  assumes "\<And>r. survives view j (\<lambda>s. crash_safe j s \<and> rows s (job_id j) = r) (k r)"
  shows "survives view j (crash_safe j) (bind_thread (atomic (db_get A (job_id j))) k)"
  by (rule safe.command [where B = "\<lambda>r s. crash_safe j s \<and> rows s (job_id j) = r"])
     (auto intro!: wp_call [OF get_law] assms on_rules)

end

lemma crash_safe_put:
  assumes "crash_safe j s"
  shows "crash_safe j (zset_put RETRY_KEY m sc s)"
  by (rule spared [OF assms]) (simp add: spares_def zset_put_def)

lemma crash_safe_write:
  assumes "crash_safe j s" and "rows s (job_id j) = Some r" and "row_step r r'" and "rows s' = (rows s)(job_id j \<mapsto> r')"
    and "zsets s' = zsets s"
    and "status r' \<in> {''completed'', ''failed''} \<or> status r' = ''queued'' \<and> str_uuid (job_id j) \<in> dom (zsets s RETRY_KEY)"
  shows "crash_safe j s'"
proof -
  have "good_table (rows s')"
    unfolding assms(4) by (rule good_table_step [OF table_step.row [where t = "rows s", OF assms(2,3)]]) (use assms(1) in \<open>simp add: crash_safe_def\<close>)
  moreover have "same_request j r'"
    using crash_safe_request [OF assms(1,2)] row_step_same_request [OF assms(3)] by (blast intro: same_request_trans)
  ultimately show ?thesis using assms(4-6) by (simp add: crash_safe_def settled_def)
qed

context services
begin

lemma survives_enqueue_retry:
  assumes "survives view j (\<lambda>s. (crash_safe j s \<and> rows s (job_id j) = r) \<and> str_uuid (job_id j) \<in> dom (zsets s RETRY_KEY)) (k ())"
  shows "survives view j (\<lambda>s. crash_safe j s \<and> rows s (job_id j) = r)
    (bind_thread (enqueue_retry_thread A (str_uuid (job_id j)) u) k)"
  unfolding enqueue_retry_thread_def timed_thread_def bind_thread_assoc bind_return_thread
proof (rule safe.move)
  fix t
  show "survives view j (\<lambda>s. crash_safe j s \<and> rows s (job_id j) = r)
      (bind_thread (atomic (zadd A RETRY_KEY (str_uuid (job_id j)) u)) (\<lambda>a. bind_thread (atomic (record_elapsed A ''zadd'' t)) (\<lambda>_. k a)))"
  proof (rule safe.command)
    fix w
    assume p: "crash_safe j (view w) \<and> rows (view w) (job_id j) = r"
    show "wp (zadd A RETRY_KEY (str_uuid (job_id j)) u)
        (\<lambda>a w'. (crash_safe j (view w') \<and> rows (view w') (job_id j) = r) \<and>
           str_uuid (job_id j) \<in> dom (zsets (view w') RETRY_KEY)) (\<lambda>_ w'. crash_safe j (view w')) w"
      by (rule wp_call [OF zadd_law]) (simp_all add: p crash_safe_put)
  next
    show "survives view j (\<lambda>s. (crash_safe j s \<and> rows s (job_id j) = r) \<and> str_uuid (job_id j) \<in> dom (zsets s RETRY_KEY))
        (bind_thread (atomic (record_elapsed A ''zadd'' t)) (\<lambda>_. k a))" for a
      by (rule safe.move [OF spares_commands(7) holds_retry]) (use assms in simp)
  qed (rule holds_retry)
qed (intro spare_rules on_rules)+

lemma survives_commit:
  assumes "\<And>t. t (job_id j) = Some r \<Longrightarrow> row_writes ws t = t(job_id j \<mapsto> r')"
    and "row_step r r'" and "\<And>s. P s \<Longrightarrow> crash_safe j s \<and> rows s (job_id j) = Some r"
    and "\<And>s. P s \<Longrightarrow> status r' \<in> {''completed'', ''failed''} \<or>
           status r' = ''queued'' \<and> str_uuid (job_id j) \<in> dom (zsets s RETRY_KEY)"
  shows "survives view j P (atomic (db_commit A ws))"
proof (rule survives_last)
  fix w
  assume p: "P (view w)"
  note p' = assms(3) [OF p]
  have c: "crash_safe j (view w')" if c: "committed ws (view w) (view w')" for w'
  proof -
    have "rows (view w') = (rows (view w))(job_id j \<mapsto> r')"
      using committed_sel(1) [OF c] assms(1) [of "rows (view w)"] p' by simp
    from crash_safe_write [OF p' [THEN conjunct1] p' [THEN conjunct2] assms(2) this committed_sel(2) [OF c] assms(4) [OF p]]
    show ?thesis .
  qed
  show "wp (db_commit A ws) (\<lambda>_ w'. crash_safe j (view w')) (\<lambda>_ w'. crash_safe j (view w')) w"
    by (rule wp_commit) (use p' c in auto)
qed

end

text \<open>The three units of work that end an execution.\<close>

lemma execution_steps:
  "max_attempts r \<le> attempts r \<Longrightarrow> row_step r (failed_row r msg t)"
  "attempts r < max_attempts r \<Longrightarrow> row_step r (retried_row r msg t)"
  "status r \<noteq> ''cancelled'' \<Longrightarrow> row_step r (completed_row r res t)"
  unfolding failed_row_def retried_row_def completed_row_def
  using row_step.give_up [where j = r and m = msg and t = t] row_step.retry [where j = r and m = msg and t = t]
    row_step.complete [where j = r and t = t and r = res] by simp_all

context services
begin

lemma survives_execution_writes:
  assumes "job_id r = job_id j"
  shows "max_attempts r \<le> attempts r \<Longrightarrow>
      survives view j (\<lambda>s. crash_safe j s \<and> rows s (job_id j) = Some r) (atomic (db_commit A (fail_writes r msg t)))"
    and "\<not> max_attempts r \<le> attempts r \<Longrightarrow>
      survives view j (\<lambda>s. (crash_safe j s \<and> rows s (job_id j) = Some r) \<and> str_uuid (job_id j) \<in> dom (zsets s RETRY_KEY))
        (atomic (db_commit A (retry_writes r msg t d)))"
    and "status r \<noteq> ''cancelled'' \<Longrightarrow>
      survives view j (\<lambda>s. crash_safe j s \<and> rows s (job_id j) = Some r) (atomic (db_commit A (complete_writes A r res t)))"
  by (rule survives_commit, erule write_rows [OF _ assms] write_rows(3) [OF _ assms] write_rows(7) [OF _ assms],
      rule execution_steps, simp_all add: failed_row_def retried_row_def completed_row_def)+

lemma survives_case:
  assumes "\<And>r. x = Some r \<Longrightarrow> job_id r = job_id j \<Longrightarrow>
      survives view j (\<lambda>s. crash_safe j s \<and> rows s (job_id j) = Some r) (f r)"
  shows "survives view j (\<lambda>s. crash_safe j s \<and> rows s (job_id j) = x) (case x of None \<Rightarrow> return_thread a | Some r \<Rightarrow> f r)"
proof (cases x)
  case None
  then show ?thesis using survives_return [OF holds_row [where r = x]] by simp
next
  case (Some r)
  show ?thesis
  proof (cases "job_id r = job_id j")
    case True
    then show ?thesis using assms [OF Some] by (simp add: Some)
  next
    case False
    then have "\<not> (crash_safe j s \<and> rows s (job_id j) = x)" for s
      using Some by (auto simp: crash_safe_def dest: good_tableD(4))
    then show ?thesis by (intro delivers_never)
  qed
qed

lemma survives_failure: "survives view j (crash_safe j) (failure_thread A (str_uuid (job_id j)) msg)"
  unfolding failure_thread_def uuid_thread_def parse_str_uuid bind_thread.simps sum.case
  by ((rule survives_get survives_case delivers_if survives_enqueue_retry | erule (1) survives_execution_writes |
       rule safe.move, rule spare_rules, rule on_rules)+)

lemma survives_complete: "survives view j (crash_safe j) (complete_thread A (str_uuid (job_id j)) c res)"
  unfolding complete_thread_def uuid_thread_def parse_str_uuid bind_thread.simps sum.case
  by ((rule survives_get survives_case delivers_if survives_bind [OF survives_execution_writes(3)] |
       rule safe.move survives_spare_last, rule spare_rules, rule on_rules | simp)+)

lemma survives_on_failure: "survives view j (crash_safe j) (on_failure_thread A cls (str_uuid (job_id j)) c t e)"
  unfolding on_failure_thread_def
  by ((rule survives_failure delivers_if | rule safe.move, rule spare_rules, rule on_rules)+)

lemma survives_run_job: "survives view j (crash_safe j) (run_job_thread A (str_uuid (job_id j)) c)"
  unfolding run_job_thread_def
  by ((rule delivers_try survives_complete survives_on_failure | rule safe.move, rule spare_rules, rule on_rules)+)

end

end
