(* ===== verification/Crash_Recovery.thy ===== *)
theory Crash_Recovery
  imports Crash Lost_Jobs
begin

section \<open>Recovery that dies, and recovery after a death\<close>

text \<open>
  Start-up recovery is itself a coroutine that can be cut off: it enqueues a retry per stuck
  row and commits once, with rows it read before the others' steps. Cut off anywhere it leaves
  each job as the execution does, and the next recovery takes it up.
\<close>

subsection \<open>The commit of recovery on rows that have changed meanwhile\<close>

definition in_table :: "job list \<Rightarrow> table \<Rightarrow> bool" where
  "in_table js t \<longleftrightarrow> (\<forall>r \<in> set js. \<exists>r'. t (job_id r) = Some r' \<and> same_request r r')"

lemma in_table_persists: "in_table js t \<Longrightarrow> persists t t' \<Longrightarrow> in_table js t'"
  unfolding in_table_def persists_def by (meson same_request_trans)

text \<open>A row recovery found stuck; a late write over what it has become.\<close>

definition stuck_row :: "job \<Rightarrow> bool" where
  "stuck_row r \<longleftrightarrow> good_row r \<and> status r = ''processing''"

lemma late_recovery:
  assumes "recovery_of r ws" and "stuck_row r" and "t (job_id r) = Some c" and "same_request r c"
  shows "\<exists>n. row_writes ws t = t(job_id r \<mapsto> n) \<and> good_row n \<and> same_request c n \<and>
     (status n = ''failed'' \<or> status n = ''queued'' \<and> attempts r + 1 < max_attempts r)"
proof (cases "max_attempts r \<le> attempts r + 1")
  case True
  then obtain u where ws: "ws = recover_fail_writes r u" using assms(1) by (auto simp: recovery_of_def)
  let ?n = "c\<lparr>attempts := attempts r + 1, status := ''failed'', completed_at := Some u,
    job_error := Some ''Worker crashed; max attempts exhausted during recovery''\<rparr>"
  have "good_row ?n" using assms(2,4) True by (simp add: stuck_row_def good_row_def same_request_def status_in_range)
  moreover have "row_writes ws t = t(job_id r \<mapsto> ?n)"
    unfolding ws recover_fail_writes_def by (simp add: assms(3))
  ultimately show ?thesis by (intro exI [of _ ?n]) (simp add: same_request_def)
next
  case False
  then obtain u d where ws: "ws = recover_retry_writes r u d" using assms(1) by (auto simp: recovery_of_def)
  let ?n = "c\<lparr>attempts := attempts r + 1, status := ''queued'', next_retry_at := Some (u + timedelta_us d)\<rparr>"
  have "good_row ?n" using assms(2,4) False by (simp add: stuck_row_def good_row_def same_request_def status_in_range)
  moreover have "row_writes ws t = t(job_id r \<mapsto> ?n)"
    unfolding ws recover_retry_writes_def by (simp add: assms(3))
  ultimately show ?thesis using False by (intro exI [of _ ?n]) (simp add: same_request_def)
qed

lemma good_table_update:
  assumes "good_table t" and "t i = Some c" and "same_request c n" and "good_row n"
  shows "good_table (t(i \<mapsto> n))"
proof -
  have "job_id n = i" using good_tableD(4) [OF assms(1,2)] assms(3) by (simp add: same_request_def)
  then show ?thesis
    using assms unfolding good_table_def
    by (auto simp: ran_def same_request_def keyed_by_id_insert intro!: unique_keys_update split: if_splits)
qed

text \<open>The job with identifier \<open>i\<close> is one of those recovery re-queues.\<close>

definition owed :: "uuid \<Rightarrow> job list \<Rightarrow> bool" where
  "owed i js \<longleftrightarrow> (\<exists>r \<in> set js. job_id r = i \<and> attempts r + 1 < max_attempts r)"

definition rewritten :: "bool \<Rightarrow> job option \<Rightarrow> job option \<Rightarrow> bool" where
  "rewritten q x y \<longleftrightarrow>
     y = x \<or> (\<exists>c n. x = Some c \<and> y = Some n \<and> same_request c n \<and> (status n = ''failed'' \<or> status n = ''queued'' \<and> q))"

lemma rewritten_trans: "rewritten q x y \<Longrightarrow> rewritten q' y z \<Longrightarrow> rewritten (q \<or> q') x z"
  unfolding rewritten_def by (auto intro: same_request_trans)

lemma late_recoveries:
  assumes "recovered js ws" and "\<forall>r \<in> set js. stuck_row r" and "in_table js t" and "good_table t"
  shows "good_table (row_writes ws t) \<and> rewritten (owed i js) (t i) (row_writes ws t i)"
  using assms
proof (induction js arbitrary: ws t)
  case Nil
  then show ?case by (simp add: rewritten_def)
next
  case (Cons r js)
  from Cons.prems(1) obtain ws1 ws2 where ws: "ws = ws1 @ ws2" "recovered js ws2" and one: "recovery_of r ws1" by auto
  obtain c where c: "t (job_id r) = Some c" "same_request r c" using Cons.prems(3) by (auto simp: in_table_def)
  obtain n where n: "row_writes ws1 t = t(job_id r \<mapsto> n)" "good_row n" "same_request c n"
      "status n = ''failed'' \<or> status n = ''queued'' \<and> attempts r + 1 < max_attempts r"
    using late_recovery [where t = t, OF one _ c] Cons.prems(2) by auto
  have "persists t (t(job_id r \<mapsto> n))" using c(1) n(3) by (auto simp: persists_def same_request_def)
  moreover have "in_table js t" using Cons.prems(3) by (simp add: in_table_def)
  ultimately have tbl: "in_table js (t(job_id r \<mapsto> n))" by (rule in_table_persists [rotated])
  have later: "good_table (row_writes ws2 (row_writes ws1 t)) \<and>
      rewritten (owed i js) (row_writes ws1 t i) (row_writes ws2 (row_writes ws1 t) i)"
    unfolding n(1)
    by (rule Cons.IH [OF ws(2) _ tbl good_table_update [where t = t, OF Cons.prems(4) c(1) n(3,2)]]) (use Cons.prems(2) in simp)
  have "rewritten (owed i [r]) (t i) (row_writes ws1 t i)"
    using c n(3,4) by (auto simp: n(1) rewritten_def owed_def)
  from rewritten_trans [OF this later [THEN conjunct2]]
  have "rewritten (owed i [r] \<or> owed i js) (t i) (row_writes ws t i)" unfolding ws(1) row_writes_append .
  moreover have "(owed i [r] \<or> owed i js) = owed i (r # js)" by (auto simp: owed_def)
  ultimately show ?case using later [THEN conjunct1] by (simp only: ws(1) row_writes_append)
qed

subsection \<open>The thread of recovery\<close>

text \<open>Threads that survive and whose result satisfies an assertion.\<close>

abbreviation yields ::
  "('w \<Rightarrow> store) \<Rightarrow> job \<Rightarrow> ('a \<Rightarrow> store \<Rightarrow> bool) \<Rightarrow> (store \<Rightarrow> bool) \<Rightarrow> ('w, 'a) thread \<Rightarrow> bool" where
  "yields view j \<equiv> delivers view (spares (job_id j)) (crash_safe j)"

text \<open>The rows recovery works on are in the table; and the job's retry is in the queue if \<open>b\<close>.\<close>

definition working :: "job \<Rightarrow> job list \<Rightarrow> bool \<Rightarrow> store \<Rightarrow> bool" where
  "working j all b s \<longleftrightarrow>
     crash_safe j s \<and> in_table all (rows s) \<and> (b \<longrightarrow> str_uuid (job_id j) \<in> dom (zsets s RETRY_KEY))"

lemma holds_working [on_rules]: "holds_on j (working j all b)"
  by (auto simp: stands_def working_def intro: spared) (auto simp: spares_def intro: in_table_persists)

context services
begin

lemma yields_retry:
  "yields view j (\<lambda>_. working j all (b \<or> job_id r = job_id j)) (working j all b)
     (enqueue_retry_thread A (str_uuid (job_id r)) u)"
  unfolding enqueue_retry_thread_def timed_thread_def
proof (rule safe.move [OF spares_commands(6) holds_working])
  fix t
  show "yields view j (\<lambda>_. working j all (b \<or> job_id r = job_id j)) (working j all b)
      (bind_thread (atomic (zadd A RETRY_KEY (str_uuid (job_id r)) u)) (\<lambda>a.
       bind_thread (atomic (record_elapsed A ''zadd'' t)) (\<lambda>_. return_thread a)))"
  proof (rule safe.command [where B = "\<lambda>_. working j all (b \<or> job_id r = job_id j)"])
    fix w
    assume p: "working j all b (view w)"
    show "wp (zadd A RETRY_KEY (str_uuid (job_id r)) u)
        (\<lambda>a w'. working j all (b \<or> job_id r = job_id j) (view w')) (\<lambda>_ w'. crash_safe j (view w')) w"
      by (rule wp_call [OF zadd_law]) (use p in \<open>auto simp: working_def crash_safe_put\<close>)
  next
    show "yields view j (\<lambda>_. working j all (b \<or> job_id r = job_id j)) (working j all (b \<or> job_id r = job_id j))
        (bind_thread (atomic (record_elapsed A ''zadd'' t)) (\<lambda>_. return_thread a))" for a
      by (rule safe.move [OF spares_commands(7) holds_working]) (rule delivers_return)
  qed (rule holds_working)
qed

lemma yields_recover_one:
  "yields view j (\<lambda>ws s. recovery_of r ws \<and> working j all (b \<or> owed (job_id j) [r]) s) (working j all b) (recover_one_thread A r)"
proof (cases "max_attempts r \<le> attempts r + 1")
  case True
  then have e: "(b \<or> owed (job_id j) [r]) = b" by (simp add: owed_def)
  show ?thesis
    unfolding recover_one_thread_def if_P [OF True] e
    by (intro safe.move spare_rules on_rules delivers_return conjI) (simp_all add: recovery_of_def True, blast)
next
  case False
  then have e: "(b \<or> owed (job_id j) [r]) = (b \<or> job_id r = job_id j)" by (simp add: owed_def)
  show ?thesis
    unfolding recover_one_thread_def if_not_P [OF False] e
    by (rule safe.move [OF spares_commands(9) holds_working], rule safe.move [OF spares_commands(4) holds_working],
        rule safe.move [OF spares_commands(5) holds_working], rule delivers_bind [OF yields_retry],
        rule safe.move [OF spares_commands(1) holds_working], rule delivers_return)
       (use False in \<open>auto simp: recovery_of_def\<close>)
qed

lemma yields_recover_each:
  "yields view j (\<lambda>ws s. recovered js ws \<and> working j all (b \<or> owed (job_id j) js) s) (working j all b) (recover_each_thread A js)"
proof (induction js arbitrary: b)
  case Nil
  show ?case unfolding recover_each_thread.simps by (rule delivers_return) (simp add: owed_def)
next
  case (Cons r js)
  have e: "(b \<or> owed (job_id j) (r # js)) = ((b \<or> owed (job_id j) [r]) \<or> owed (job_id j) js)" by (auto simp: owed_def)
  show ?case
    unfolding recover_each_thread.simps e
  proof (rule delivers_bind [OF yields_recover_one])
    fix ws
    show "yields view j (\<lambda>a s. recovered (r # js) a \<and> working j all ((b \<or> owed (job_id j) [r]) \<or> owed (job_id j) js) s)
        (\<lambda>s. recovery_of r ws \<and> working j all (b \<or> owed (job_id j) [r]) s)
        (bind_thread (recover_each_thread A js) (\<lambda>ws'. return_thread (ws @ ws')))"
      by (rule delivers_fact, rule delivers_bind [OF Cons.IH], rule delivers_return) auto
  qed
qed

lemma crash_safe_recovered:
  assumes "working j js (owed (job_id j) js) s" and "recovered js ws" and "\<forall>r \<in> set js. stuck_row r"
    and "rows s' = row_writes ws (rows s)" and "zsets s' = zsets s"
  shows "crash_safe j s'"
proof -
  have c: "crash_safe j s" and q: "owed (job_id j) js \<Longrightarrow> str_uuid (job_id j) \<in> dom (zsets s RETRY_KEY)"
    and late: "good_table (row_writes ws (rows s)) \<and>
      rewritten (owed (job_id j) js) (rows s (job_id j)) (row_writes ws (rows s) (job_id j))"
    using assms(1) by (auto simp: working_def crash_safe_def intro!: late_recoveries [OF assms(2,3)])
  show ?thesis
  proof (cases "rows s' (job_id j) = rows s (job_id j)")
    case True
    then show ?thesis using c late assms(4,5) by (simp add: crash_safe_def settled_def)
  next
    case False
    then obtain k n where n: "rows s (job_id j) = Some k" "rows s' (job_id j) = Some n" "same_request k n"
        "status n = ''failed'' \<or> status n = ''queued'' \<and> owed (job_id j) js"
      using late by (auto simp: rewritten_def assms(4))
    have "same_request j n" using crash_safe_request [OF c n(1)] n(3) by (rule same_request_trans)
    then show ?thesis using n late q assms(4,5) by (auto simp: crash_safe_def settled_def)
  qed
qed

lemma survives_recovery: "survives view j (crash_safe j) (recovery_thread A m)"
  unfolding recovery_thread_def
proof (rule safe.move [OF spares_commands(4) holds_safe])
  fix now
  let ?stuck = "stuck (now - m * 60 * 10 ^ 6)"
  let ?B = "\<lambda>js s. (\<forall>r \<in> set js. stuck_row r) \<and> working j js False s"
  show "survives view j (crash_safe j) (bind_thread (atomic (db_where A ?stuck)) (\<lambda>stuck_jobs.
      if stuck_jobs = [] then return_thread () else bind_thread (recover_each_thread A stuck_jobs) (\<lambda>ws. atomic (db_commit A ws))))"
  proof (rule safe.command [where B = ?B])
    fix w
    assume c: "crash_safe j (view w)"
    have found: "?B js (view w)" if "set js = matching ?stuck (view w)" for js
    proof -
      have "stuck_row r \<and> rows (view w) (job_id r) = Some r" if "r \<in> set js" for r
        using that c unfolding \<open>set js = _\<close>
        by (auto simp: matching_def ran_def stuck_def stuck_row_def crash_safe_def dest: good_tableD(3,4))
      then show ?thesis using c by (auto simp: working_def in_table_def intro: exI [of _ _])
    qed
    show "wp (db_where A ?stuck) (\<lambda>js w'. ?B js (view w')) (\<lambda>_ w'. crash_safe j (view w')) w"
      by (rule wp_call [OF where_law]) (use c found in auto)
  next
    fix js
    show "holds_on j (?B js)" using holds_working [of j js False] unfolding stands_def by blast
    show "survives view j (?B js) (if js = [] then return_thread ()
        else bind_thread (recover_each_thread A js) (\<lambda>ws. atomic (db_commit A ws)))"
    proof (rule delivers_fact, rule delivers_if)
      show "survives view j (working j js False) (return_thread ())" by (rule survives_return [OF holds_working])
      assume stuck: "\<forall>r \<in> set js. stuck_row r"
      show "survives view j (working j js False) (bind_thread (recover_each_thread A js) (\<lambda>ws. atomic (db_commit A ws)))"
      proof (rule delivers_bind [OF yields_recover_each], rule survives_last)
        fix ws w
        assume p: "recovered js ws \<and> working j js (False \<or> owed (job_id j) js) (view w)"
        then have r: "recovered js ws" and k: "working j js (owed (job_id j) js) (view w)" by simp_all
        show "wp (db_commit A ws) (\<lambda>_ w'. crash_safe j (view w')) (\<lambda>_ w'. crash_safe j (view w')) w"
          by (rule wp_commit)
             (use k in \<open>auto simp: working_def intro: crash_safe_recovered [OF k r stuck] dest: committed_sel\<close>)
      qed
    qed
  qed
qed

end

text \<open>An execution of the job, or a recovery, that is cut off at some point.\<close>

definition cut_short :: "'w app \<Rightarrow> ('w \<Rightarrow> store) \<Rightarrow> uuid \<Rightarrow> 'w \<Rightarrow> 'w \<Rightarrow> bool" where
  "cut_short A view i w w' \<longleftrightarrow>
     (\<exists>t rest. ((\<exists>c. t = run_job_thread A (str_uuid i) c) \<or> (\<exists>m. t = recovery_thread A m)) \<and>
        run_among view (spares i) (t, w) (rest, w'))"

lemma cut_short_safe:
  assumes "services A view" and "(cut_short A view (job_id j))\<^sup>*\<^sup>* w w'" and "crash_safe j (view w)"
  shows "crash_safe j (view w')"
  using assms(2)
proof (induction rule: rtranclp_induct)
  case (step w1 w2)
  then obtain t rest where t: "(\<exists>c. t = run_job_thread A (str_uuid (job_id j)) c) \<or> (\<exists>m. t = recovery_thread A m)"
    and run: "run_among view (spares (job_id j)) (t, w1) (rest, w2)" unfolding cut_short_def by blast
  have "survives view j (crash_safe j) t"
    using t services.survives_run_job [OF assms(1)] services.survives_recovery [OF assms(1)] by blast
  from safe.anywhere [OF this holds_safe step.IH run] show ?case by simp
qed (rule assms(3))

subsection \<open>Recovery takes the job up\<close>

context reliable_services
begin

lemma recovery_settles:
  assumes c: "crash_safe j (view w)" and j: "status j = ''processing''" "started_at j = Some t"
    and late: "t < fst (clock_now A w) - m * 60 * 10 ^ 6"
  shows "wp (run_startup_recovery A m) (\<lambda>_ w'. settled j (view w')) X w"
proof (rule wp_recovery_at)
  show "good_table (rows (view w))" using c by (simp add: crash_safe_def)
next
  fix now w'
  assume now: "now = fst (clock_now A w)" and rec: "recovery_done (now - m * 60 * 10 ^ 6) (view w) (view w')"
  let ?threshold = "now - m * 60 * 10 ^ 6" and ?i = "job_id j"
  have queue: "dom (zsets (view w') RETRY_KEY) = dom (zsets (view w) RETRY_KEY) \<union>
      {str_uuid i |i j. rows (view w) i = Some j \<and> stuck ?threshold j \<and> attempts j + 1 < max_attempts j}"
    using rec by (simp add: recovery_done_def)
  have row: "case rows (view w) ?i of None \<Rightarrow> rows (view w') ?i = None
      | Some r \<Rightarrow> if stuck ?threshold r then \<exists>r'. rows (view w') ?i = Some r' \<and> recovery_row r r' else rows (view w') ?i = Some r"
    using rec [unfolded recovery_done_def, THEN conjunct1] by blast
  consider "rows (view w) ?i = Some j" | "settled j (view w)" using c by (auto simp: crash_safe_def)
  then show "settled j (view w')"
  proof cases
    case 1
    have s: "stuck ?threshold j" using j late now by (simp add: stuck_def)
    then obtain r where r: "rows (view w') ?i = Some r" "recovery_row j r" using row 1 by auto
    show ?thesis
    proof (cases "max_attempts j \<le> attempts j + 1")
      case True
      then show ?thesis using r by (auto simp: settled_def recovery_row_def same_request_def)
    next
      case False
      then have "str_uuid ?i \<in> dom (zsets (view w') RETRY_KEY)" unfolding queue using 1 s by auto
      then show ?thesis using r False by (auto simp: settled_def recovery_row_def same_request_def)
    qed
  next
    case 2
    then obtain r where r: "rows (view w) ?i = Some r" "same_request j r"
        "status r \<in> {''completed'', ''failed''} \<or> status r = ''queued'' \<and> str_uuid ?i \<in> dom (zsets (view w) RETRY_KEY)"
      unfolding settled_def by blast
    then have "status r \<noteq> ''processing''" by auto
    then have "rows (view w') ?i = Some r" using row r(1) by (simp add: stuck_def)
    then show ?thesis using r queue by (auto simp: settled_def)
  qed
qed

end

subsection \<open>Properties\<close>

text \<open>
  C4: A worker killed while it executes a job does not lose the job. Let a job be in
  processing in a well-formed table. Let the worker's execution of it be cut off after any
  number of its commands, and any number of start-up recoveries after it as well, any command
  failing, with steps of other processes on other jobs in between. Then the next recovery that
  runs with services that do not fail and a threshold after the job's start returns, and leaves
  the job completed, failed, or queued with its identifier in the retry queue, its request
  unchanged.
\<close>
theorem execution_survives_crash:
  assumes "services A view" and "reliable_services B view" and "good_table (rows (view w))"
    and "rows (view w) i = Some j" and "status j = ''processing''" and "started_at j = Some t"
    and "(cut_short A view i)\<^sup>*\<^sup>* w w'" and "t < fst (clock_now B w') - m * 60 * 10 ^ 6"
  shows "\<exists>w2 r. run_startup_recovery B m w' = (Inr (), w2) \<and> rows (view w2) i = Some r \<and> same_request j r \<and>
     (status r \<in> {''completed'', ''failed''} \<or>
      status r = ''queued'' \<and> str_uuid i \<in> dom (zsets (view w2) RETRY_KEY))"
proof -
  have i: "job_id j = i" by (rule good_tableD(4) [OF assms(3,4)])
  have "crash_safe j (view w)" using assms(3,4) by (simp add: crash_safe_def i)
  then have "crash_safe j (view w')" by (rule cut_short_safe [OF assms(1) assms(7) [folded i]])
  then have "wp (run_startup_recovery B m) (\<lambda>_ w'. settled j (view w')) (\<lambda>_ _. False) w'"
    by (rule reliable_services.recovery_settles [OF assms(2) _ assms(5,6,8)])
  then show ?thesis
    unfolding wp_def settled_def i by (auto split: prod.splits sum.splits)
qed

text \<open>A running job, and an execution that will hit its deadline.\<close>

definition late_mem :: mem where
  "late_mem = (row_mem (running_row 1))\<lparr>m_late := [True]\<rparr>"

lemma late_mem_row: "good_table (rows (mem_view late_mem))" "rows (mem_view late_mem) 7 = Some (running_row 1)"
  using row_mem_good [OF running_row_good(1), of 1] by (simp_all add: late_mem_def row_mem_def running_row_good)

text \<open>The worker is killed after any number \<open>n\<close> of its commands, and the clock goes on.\<close>

theorem execution_survives_crash_witness:
  "\<forall>n. \<exists>w2 r. run_startup_recovery (mem_app False) 10
       ((snd (advance n (run_job_thread (mem_app True) (str_uuid 7) sample_claim, late_mem)))\<lparr>m_clock := 10 ^ 10\<rparr>) = (Inr (), w2) \<and>
     rows (mem_view w2) 7 = Some r \<and> same_request (running_row 1) r \<and>
     (status r \<in> {''completed'', ''failed''} \<or>
      status r = ''queued'' \<and> str_uuid 7 \<in> dom (zsets (mem_view w2) RETRY_KEY))"
proof
  fix n
  let ?c = "(run_job_thread (mem_app True) (str_uuid 7) sample_claim, late_mem)"
  obtain rest w where c: "advance n ?c = (rest, w)" by (cases "advance n ?c")
  have "run_among mem_view (spares 7) ?c (rest, w)"
    unfolding c [symmetric] by (rule advance_among [OF run_among.here])
  then have "run_among mem_view (spares 7) ?c (rest, w\<lparr>m_clock := 10 ^ 10\<rparr>)"
    by (rule run_among.other) (simp add: spares_data mem_view_def)
  then have run: "(cut_short (mem_app True) mem_view 7)\<^sup>*\<^sup>* late_mem (w\<lparr>m_clock := 10 ^ 10\<rparr>)"
    unfolding cut_short_def by blast
  show "\<exists>w2 r. run_startup_recovery (mem_app False) 10 ((snd (advance n ?c))\<lparr>m_clock := 10 ^ 10\<rparr>) = (Inr (), w2) \<and>
     rows (mem_view w2) 7 = Some r \<and> same_request (running_row 1) r \<and>
     (status r \<in> {''completed'', ''failed''} \<or>
      status r = ''queued'' \<and> str_uuid 7 \<in> dom (zsets (mem_view w2) RETRY_KEY))"
    unfolding c snd_conv
    by (rule execution_survives_crash [where t = 0, OF mem_services mem_reliable_services late_mem_row running_row_good(5) _ run])
       (simp_all add: running_row_def mem_app_def mem_tick_def)
qed

end
