(* ===== verification/Crash_Creation.thy ===== *)
theory Crash_Creation
  imports Cut_Off Concurrent_System
begin

section \<open>An API process that dies while it creates a job\<close>

text \<open>
  \<open>create_new\<close> announces the job in the priority queue before it commits the row. Wherever the
  creation is cut off, every queued row has its identifier in a queue: at worst an identifier
  without a row is left, which workers drop.
\<close>

text \<open>What the others keep: the invariant, the jobs, and the announcements of rows still to come.\<close>

definition leaves_entries :: "store \<Rightarrow> store \<Rightarrow> bool" where
  "leaves_entries s s' \<longleftrightarrow>
     (tracked s \<longrightarrow> tracked s') \<and> persists (rows s) (rows s') \<and>
     (\<forall>u. rows s u = None \<longrightarrow> str_uuid u \<in> dom (zsets s PRIORITY_KEY) \<longrightarrow> str_uuid u \<in> dom (zsets s' PRIORITY_KEY))"

definition announced :: "uuid \<Rightarrow> store \<Rightarrow> bool" where
  "announced u s \<longleftrightarrow> tracked s \<and> (rows s u = None \<longrightarrow> str_uuid u \<in> dom (zsets s PRIORITY_KEY))"

abbreviation creates :: "('w \<Rightarrow> store) \<Rightarrow> (store \<Rightarrow> bool) \<Rightarrow> ('w, 'a) thread \<Rightarrow> bool" where
  "creates view \<equiv> delivers view leaves_entries tracked (\<lambda>_. tracked)"

interpretation entries: cut_off view leaves_entries tracked for view :: "'w \<Rightarrow> store"
  by unfold_locales (simp add: leaves_entries_def)

lemma leaves_data: "data s' = data s \<Longrightarrow> leaves_entries s s'"
  using data_eqD [of s' s] tracked_but_data [of s' s "{}"] by (simp add: leaves_entries_def)

lemma stands_announced: "stands leaves_entries tracked (announced u)"
  unfolding stands_def
proof (intro conjI allI impI)
  show "tracked s" if "announced u s" for s using that by (simp add: announced_def)
next
  fix s s'
  assume a: "announced u s" and r: "leaves_entries s s'"
  have "rows s u = None" if "rows s' u = None"
    using that r by (cases "rows s u") (fastforce simp: leaves_entries_def persists_def)+
  then show "announced u s'" using a r by (simp add: announced_def leaves_entries_def)
qed

named_theorems entry_rules \<open>commands that leave queues and rows alone\<close>

lemma moves_quiet_io [entry_rules]:
  "moves_as view leaves_entries (scalar_one_or_none xs)" "moves_as view leaves_entries (scalar_one xs)"
  unfolding moves_as_def
  by (cases xs rule: scalar_one_or_none.cases; simp add: wp_return wp_raise leaves_data)+

context services
begin

lemma moves_entries [entry_rules]:
  "moves_as view leaves_entries (count_io A n k ats)" "moves_as view leaves_entries (record_elapsed A c t)"
  "moves_as view leaves_entries (priority_score A p)" "moves_as view leaves_entries (read_io (clock_perf A))"
  "moves_as view leaves_entries (read_io (trace_parent A))" "moves_as view leaves_entries (read_io (rnd_uuid4 A))"
  "moves_as view leaves_entries (db_where A P)" "moves_as view leaves_entries (db_rollback A)"
  unfolding moves_as_def priority_score_def wp_bind wp_return
  by (auto intro!: wp_count wp_elapsed wp_readings wp_queries leaves_data)

lemma creates_enqueue:
  assumes "delivers view leaves_entries tracked E (announced u) (k ())"
  shows "delivers view leaves_entries tracked E tracked (bind_thread (enqueue_priority_thread A (str_uuid u) p typ) k)"
  unfolding enqueue_priority_thread_def timed_thread_def bind_thread_assoc bind_return_thread
proof (rule entries.move [OF moves_entries(3) entries.stands_inv], rule entries.move [OF moves_entries(4) entries.stands_inv],
    rule entries.command [where B = "\<lambda>_. announced u"])
  fix score w
  assume t: "tracked (view w)"
  have put: "tracked (view w') \<and> announced u (view w')" if "view w' = zset_put PRIORITY_KEY (str_uuid u) score (view w)" for w'
  proof -
    have "tracked_but ({} - {str_uuid u}) (view w')"
      by (rule tracked_put [OF t, where k = PRIORITY_KEY]) (simp_all add: that)
    then show ?thesis by (simp add: announced_def that)
  qed
  show "wp (zadd A PRIORITY_KEY (str_uuid u) score) (\<lambda>_ w'. announced u (view w')) (\<lambda>_ w'. tracked (view w')) w"
    by (rule wp_call [OF zadd_law]) (use t put in auto)
qed (rule stands_announced | rule entries.move [OF moves_entries(2) stands_announced]
     entries.move [OF moves_entries(1) stands_announced] | use assms in simp)+

end

text \<open>The commit of the announced row.\<close>

definition new_row :: "job_create \<Rightarrow> uuid \<Rightarrow> json_dict \<Rightarrow> job \<Rightarrow> bool" where
  "new_row jc u pl j \<longleftrightarrow>
     (\<exists>c. j = new_job u c (jc_type jc) pl (jc_priority jc) (jc_idempotency_key jc) (jc_max_attempts jc))"

lemma tracked_announced:
  assumes "announced u s" and "new_row jc u pl j" and "1 \<le> jc_max_attempts jc" "jc_max_attempts jc \<le> 10"
    and "\<not> insert_conflicts j (rows s)" and "rows s' = (rows s)(u \<mapsto> j)" and "zsets s' = zsets s" and "lists s' = lists s"
  shows "tracked s'"
proof -
  have t: "tracked s" using assms(1) by (simp add: announced_def)
  obtain c where j: "j = new_job u c (jc_type jc) pl (jc_priority jc) (jc_idempotency_key jc) (jc_max_attempts jc)"
    using assms(2) by (auto simp: new_row_def)
  have "rows s u = None" using assms(5) by (auto simp: insert_conflicts_def j)
  then have q: "queued_in s (str_uuid u)" using assms(1) by (simp add: announced_def queued_in_def)
  have "good_table (rows s')"
    unfolding assms(6)
    by (rule good_table_step [OF table_step.insert [where t = "rows s", OF j assms(3,4,5)]]) (use t in \<open>simp add: tracked_but_def\<close>)
  moreover have "queued_in s' m \<longleftrightarrow> queued_in s m" for m by (simp add: queued_in_def assms(7,8))
  ultimately show ?thesis using t q by (auto simp: tracked_but_def assms(6) split: if_splits)
qed

context services
begin

lemma creates_insert:
  assumes "new_row jc u pl j" and "1 \<le> jc_max_attempts jc" "jc_max_attempts jc \<le> 10" and "creates view tracked (k ())"
  shows "creates view (announced u) (bind_thread (atomic (db_commit A [InsertJob j])) k)"
proof (rule entries.command [where B = "\<lambda>_. tracked"])
  fix w
  assume a: "announced u (view w)"
  have c: "tracked (view w')" if "committed [InsertJob j] (view w) (view w')" for w'
  proof -
    have "job_id j = u" using assms(1) by (auto simp: new_row_def)
    then show ?thesis
      using that by (intro tracked_announced [where s = "view w" and u = u, OF a assms(1,2,3)]) (auto simp: committed_def)
  qed
  show "wp (db_commit A [InsertJob j]) (\<lambda>_ w'. tracked (view w')) (\<lambda>_ w'. tracked (view w')) w"
    by (rule wp_commit) (use a c in \<open>auto simp: announced_def\<close>)
qed (use assms(4) entries.stands_inv in \<open>simp_all\<close>)

lemma creates_flush:
  assumes "\<And>j. new_row jc u pl j \<Longrightarrow> creates view tracked (k j)"
  shows "creates view tracked (bind_thread (atomic (db_flush_new A
      (new_job u c (jc_type jc) pl (jc_priority jc) (jc_idempotency_key jc) (jc_max_attempts jc)))) k)"
proof (rule entries.command [where B = "\<lambda>j s. new_row jc u pl j \<and> tracked s"])
  fix w
  assume "tracked (view w)"
  then show "wp (db_flush_new A (new_job u c (jc_type jc) pl (jc_priority jc) (jc_idempotency_key jc) (jc_max_attempts jc)))
      (\<lambda>j w'. new_row jc u pl j \<and> tracked (view w')) (\<lambda>_ w'. tracked (view w')) w"
    by (intro wp_flush) (auto simp: new_row_def new_job_def)
next
  show "stands leaves_entries tracked (\<lambda>s. new_row jc u pl j \<and> tracked s)" for j
    using entries.stands_inv unfolding stands_def by blast
  show "creates view (\<lambda>s. new_row jc u pl j \<and> tracked s) (k j)" for j by (rule delivers_fact) (rule assms)
qed

lemma creates_new:
  assumes m: "1 \<le> jc_max_attempts jc" "jc_max_attempts jc \<le> 10"
  shows "creates view tracked (create_new_thread A jc)"
  unfolding create_new_thread_def
proof (rule entries.move [OF moves_entries(5) entries.stands_inv], rule entries.move [OF moves_entries(6) entries.stands_inv],
    rule delivers_try, rule creates_flush)
  fix tp u j
  assume j: "new_row jc u (payload_with_trace (jc_payload jc) tp) j"
  then have u: "job_id j = u" by (auto simp: new_row_def)
  show "creates view tracked (bind_thread (enqueue_priority_thread A (str_uuid (job_id j)) (priority j) '''') (\<lambda>_.
      bind_thread (atomic (db_commit A [InsertJob j])) (\<lambda>_.
      bind_thread (atomic (count_io A ''jobs_created'' 1 [(''job_type'', job_type j), (''priority'', priority j)])) (\<lambda>_.
      return_thread (j, True)))))"
    unfolding u
    by (rule creates_enqueue, rule creates_insert [OF j m], rule entries.move [OF moves_entries(1) entries.stands_inv],
        rule delivers_return)
next
  show "creates view tracked (if is_integrity e then
      bind_thread (atomic (db_rollback A)) (\<lambda>_.
      bind_thread (atomic (db_where A (\<lambda>j. idempotency_key j = jc_idempotency_key jc))) (\<lambda>existing.
      bind_thread (atomic (scalar_one existing)) (\<lambda>row.
      bind_thread (atomic (count_io A ''idempotency_hits'' 1 [(''job_type'', job_type row)])) (\<lambda>_.
      return_thread (row, False)))))
    else raise_thread e)" for e
    by ((rule delivers_if delivers_return delivers_raise | assumption |
         rule entries.move [OF _ entries.stands_inv], rule entry_rules)+)
qed

lemma creates_lookup: "creates view tracked (lookup_thread A jc)"
proof -
  have hit: "creates view tracked (case row of None \<Rightarrow> return_thread None | Some r \<Rightarrow>
      bind_thread (atomic (count_io A ''idempotency_hits'' 1 [(''job_type'', job_type r)])) (\<lambda>_. return_thread (Some r)))" for row
    by (cases row; simp) (rule delivers_return entries.move [OF moves_entries(1) entries.stands_inv] | assumption)+
  show ?thesis
    unfolding lookup_thread_def
    by (rule delivers_if, rule entries.move [OF moves_entries(7) entries.stands_inv],
        rule entries.move [OF moves_quiet_io(1) entries.stands_inv], rule hit, rule delivers_return)
qed

lemma creates_endpoint:
  assumes m: "1 \<le> jc_max_attempts jc" "jc_max_attempts jc \<le> 10"
  shows "creates view tracked (create_endpoint_thread A limited jc)"
proof (cases limited)
  case None
  have row: "creates view tracked (case row of Some r \<Rightarrow> return_thread (r, False) | None \<Rightarrow> create_new_thread A jc)" for row
    by (cases row) (simp_all add: creates_new [OF m] delivers_return)
  show ?thesis
    unfolding create_endpoint_thread_def create_thread_def None option.case
    by (rule delivers_if, rule delivers_raise, assumption, rule delivers_if, rule delivers_raise, assumption,
        rule delivers_bind [OF delivers_bind [OF creates_lookup row]])
       (auto split: prod.split intro: delivers_return)
qed (auto simp: create_endpoint_thread_def intro: delivers_raise)

end

subsection \<open>Properties\<close>

text \<open>
  C5: An API process that is killed while it creates a job loses no queued job. Let every
  queued row have its identifier in a queue, and let the endpoint be cut off after any number
  of its commands, any of them failing, with steps of other processes in between that keep
  rows, the invariant and the announcements of jobs still to come. Then every queued row has
  its identifier in a queue.
\<close>
theorem creation_survives_crash:
  assumes "services A view" and "1 \<le> jc_max_attempts jc" and "jc_max_attempts jc \<le> 10"
    and "tracked (view w)" and "run_among view leaves_entries (create_endpoint_thread A limited jc, w) (rest, w')"
  shows "tracked (view w')"
  using entries.anywhere [OF services.creates_endpoint [OF assms(1-3)] entries.stands_inv assms(4,5)] by simp

theorem creation_survives_crash_witness:
  "\<forall>n. tracked (mem_view (snd (advance n (create_endpoint_thread (mem_app True) None sample_request, busy_mem [False, True]))))"
proof
  fix n
  let ?c = "(create_endpoint_thread (mem_app True) None sample_request, busy_mem [False, True])"
  have run: "run_among mem_view leaves_entries ?c (fst (advance n ?c), snd (advance n ?c))"
    unfolding prod.collapse by (rule advance_among [OF run_among.here])
  show "tracked (mem_view (snd (advance n ?c)))"
    by (rule creation_survives_crash [OF mem_services _ _ busy_tracked run]) (simp_all add: sample_request_def)
qed

end
