(* ===== verification/End_To_End.thy ===== *)
theory End_To_End
  imports Outcomes
begin

section \<open>From the request to the result\<close>

text \<open>
  The parts put together: a job is posted, one pass of a worker takes it, and the client reads
  what has become of it. Each step rests on the contract of its part: \<open>create_inserts_rule\<close>
  (Job_Service), \<open>wp_next_job\<close> and \<open>process_attempts\<close> (Worker_Spec, Outcomes), \<open>get_law\<close>.
\<close>

context reliable_services
begin

lemma wp_post_new:
  assumes "acceptable jc"
    and "\<forall>r \<in> ran (rows (view w)). idempotency_key r = None \<or> idempotency_key r \<noteq> jc_idempotency_key jc"
    and "\<And>w1. rows (view w1) = rows (view w) \<Longrightarrow> fst (rnd_uuid4 A w1) \<notin> dom (rows (view w1))"
    and "\<And>j w'. inserted jc (view w) j (view w') \<Longrightarrow> Q \<lparr>status_code = 201, headers = [], body = job_read_of j\<rparr> w'"
  shows "wp (create_job_endpoint A None jc) Q X w"
proof -
  have v: "\<not> jc_type jc \<notin> VALID_TYPES" "\<not> jc_priority jc \<notin> VALID_PRIORITIES" using assms(1) by (auto simp: acceptable_iff)
  show ?thesis
    unfolding create_job_endpoint_def option.case if_not_P [OF v(1)] if_not_P [OF v(2)] wp_bind create_job_def
    by (rule wp_mono [OF create_inserts_rule [OF assms(2,3)]]) (auto simp: wp_return assms(4) split: prod.splits)
qed

lemma wp_pass_first:
  assumes t: "tracked (view w)" and r: "zsets (view w) RETRY_KEY = Map.empty"
    and p: "dom (zsets (view w) PRIORITY_KEY) = {str_uuid i}"
    and j: "rows (view w) i = Some j" "status j = ''queued''" "get_executor (job_type j) = Inr cls"
    and Q: "\<And>s w'. rows s = rows (view w) \<Longrightarrow> lists s = lists (view w) \<Longrightarrow>
        zsets s = (zsets (view w))(PRIORITY_KEY := Map.empty) \<Longrightarrow> attempted i j cls s (view w') \<Longrightarrow> Q () w'"
  shows "wp (worker_iteration A) Q X w"
  unfolding worker_iteration_def wp_try_except poll_once_def wp_bind
proof (rule wp_drain_total)
  fix now ids w1
  assume d: "drained (zsets (view w) RETRY_KEY) 10 now ids" and v: "data (view w1) = zset_drop RETRY_KEY ids (data (view w))"
  have "ids = []" using d by (auto simp: drained_def r)
  then have e: "data (view w1) = data (view w)" using v by simp
  note e = data_eqD [OF e]
  let ?X = "\<lambda>e. wp (count_io A ''worker_loop_iterations'' 1 [(''worker_id'', hostname A), (''outcome'', ''error'')])
      (\<lambda>_. wp (do_io (nap A 1)) Q X) X"
  show "wp (for_each (requeue_due A) ids) (\<lambda>_. wp (next_job A) (\<lambda>nxt. wp (case nxt of
        None \<Rightarrow> count_io A ''worker_loop_iterations'' 1 [(''worker_id'', hostname A), (''outcome'', ''no_job'')]
      | Some (jid, source) \<Rightarrow> process_job A jid source) Q ?X) ?X) ?X w1"
    unfolding \<open>ids = []\<close> for_each.simps wp_return
  proof (rule wp_next_job)
    show "'''' \<notin> dom (zsets (view w1) PRIORITY_KEY)" "'''' \<notin> set (lists (view w1) FIFO_KEY)"
      using tracked_but_no_empty [OF t] by (auto simp: queued_in_def e)
  next
    fix m w2
    assume m: "zfirst (zsets (view w1) PRIORITY_KEY) m" and v2: "data (view w2) = zset_del PRIORITY_KEY m (data (view w1))"
    have i: "m = str_uuid i" using m p by (auto simp: zfirst_def e)
    have "(zsets (view w) PRIORITY_KEY)(m := None) = Map.empty" using p by (auto simp: i fun_eq_iff domIff)
    then have s: "rows (view w2) = rows (view w)" "lists (view w2) = lists (view w)"
        "zsets (view w2) = (zsets (view w))(PRIORITY_KEY := Map.empty)"
      by (simp_all add: data_isD [OF v2] e)
    have "good_table (rows (view w2))" using tracked_but_good [OF t] by (simp add: s)
    then have "wp (process_job A (str_uuid i) ''priority'') (\<lambda>_ w'. attempted i j cls (view w2) (view w')) (\<lambda>_ _. False) w2"
      using j by (intro process_attempts) (simp_all add: s)
    then show "wp (case Some (m, ''priority'') of
        None \<Rightarrow> count_io A ''worker_loop_iterations'' 1 [(''worker_id'', hostname A), (''outcome'', ''no_job'')]
      | Some (jid, source) \<Rightarrow> process_job A jid source) Q ?X w2"
      unfolding i option.case prod.case by (rule wp_mono) (auto intro: Q [OF s])
  qed (use p in \<open>auto simp: e\<close>)
qed

lemma wp_get_present:
  assumes "keyed_by_id (rows (view w))" and "rows (view w) i = Some j"
    and "\<And>ls w'. view w' = view w \<Longrightarrow> Q \<lparr>status_code = 200, headers = [], body = job_detail_of j ls\<rparr> w'"
  shows "wp (get_job_endpoint A i) Q X w"
proof -
  have m: "matching (\<lambda>j. job_id j = i) (view w) = {j}"
    using assms(1,2) by (auto simp: matching_def ran_def dest: keyed_by_idD)
  show ?thesis
    unfolding get_job_endpoint_def get_job_def wp_bind
  proof (rule wp_call_total [OF where_law query_total(2)])
    fix js w1
    assume q: "view w1 = view w \<and> distinct js \<and> set js = matching (\<lambda>j. job_id j = i) (view w)"
    then have "js = [j]" using q m by (intro singleton_list) simp_all
    then show "wp (scalar_one_or_none js) (\<lambda>job. wp (case job of None \<Rightarrow> return_io None
        | Some j \<Rightarrow> bind_io (db_job_logs A i) (\<lambda>ls. return_io (Some (job_detail_of j ls))))
        (\<lambda>job. wp (case job of None \<Rightarrow> raise_io (HTTPException 404 ''Job not found'')
          | Some d \<Rightarrow> return_io \<lparr>status_code = 200, headers = [], body = d\<rparr>) Q X) X) X w1"
      using q by (auto simp: wp_simps job_logs_of_def intro!: wp_call_total [OF logs_law query_total(5)] assms(3))
  qed
qed

end

text \<open>The three requests in a row: post, let a worker make one pass, read.\<close>

definition post_work_read :: "'w app \<Rightarrow> job_create \<Rightarrow> ('w, job_read response \<times> job_detail response) io" where
  "post_work_read A jc =
     bind_io (create_job_endpoint A None jc) (\<lambda>posted.
     seq_io (worker_iteration A)
     (bind_io (get_job_endpoint A (r_id (body posted))) (\<lambda>shown.
      return_io (posted, shown))))"

definition executed :: "job_create \<Rightarrow> job_read response \<Rightarrow> job_detail response \<Rightarrow> store \<Rightarrow> bool" where
  "executed jc posted shown s \<longleftrightarrow>
     status_code posted = 201 \<and> r_status (body posted) = ''queued'' \<and> r_attempts (body posted) = 0 \<and>
     status_code shown = 200 \<and> r_id (body shown) = r_id (body posted) \<and> r_type (body shown) = jc_type jc \<and>
     r_priority (body shown) = jc_priority jc \<and> r_payload (body shown) = r_payload (body posted) \<and>
     r_attempts (body shown) = 1 \<and>
     (r_status (body shown) = ''completed'' \<and>
        (\<exists>cls r. get_executor (jc_type jc) = Inr cls \<and> r_result (body shown) = Some r \<and> result_of cls (r_payload (body posted)) r) \<or>
      r_status (body shown) = ''queued'' \<and> 1 < jc_max_attempts jc \<and> str_uuid (r_id (body posted)) \<in> dom (zsets s RETRY_KEY) \<or>
      r_status (body shown) = ''failed'' \<and> jc_max_attempts jc = 1)"

lemma attempted_executed:
  assumes i: "inserted jc s0 j s1" and a: "attempted (job_id j) j cls s2 s3" and c: "get_executor (jc_type jc) = Inr cls"
    and r: "rows s3 (job_id j) = Some j'" and q: "zsets s2 RETRY_KEY = Map.empty"
    and f: "zsets s3' RETRY_KEY = zsets s3 RETRY_KEY"
  shows "executed jc \<lparr>status_code = 201, headers = [], body = job_read_of j\<rparr>
    \<lparr>status_code = 200, headers = [], body = job_detail_of j' ls\<rparr> s3'"
proof -
  obtain k where k: "rows s3 = (rows s2)(job_id j \<mapsto> k)" "same_request j k" "attempts k = attempts j + 1"
      "status k = ''completed'' \<and> (\<exists>r. job_result k = Some r \<and> result_of cls (payload j) r) \<and>
           zsets s3 RETRY_KEY = zsets s2 RETRY_KEY \<or>
         status k = ''queued'' \<and> attempts k < max_attempts j \<and>
           (\<exists>sc. zsets s3 RETRY_KEY = (zsets s2 RETRY_KEY)(str_uuid (job_id j) \<mapsto> sc)) \<or>
         status k = ''failed'' \<and> attempts k = max_attempts j \<and> zsets s3 RETRY_KEY = zsets s2 RETRY_KEY"
    using a unfolding attempted_def by blast
  then have k': "k = j'" using r by simp
  have j: "status j = ''queued''" "attempts j = 0" "job_type j = jc_type jc" "priority j = jc_priority jc"
      "max_attempts j = jc_max_attempts jc"
    using i by (auto simp: inserted_def)
  show ?thesis
    using k(2-4) j c f
    unfolding executed_def job_detail_of_def job_read_of_def same_request_def k'
    by (auto simp: job_read.defs job_detail.defs)
qed

context reliable_services
begin

lemma wp_post_work_read:
  assumes ok: "acceptable jc" "1 \<le> jc_max_attempts jc" "jc_max_attempts jc \<le> 10"
    and unused: "\<forall>r \<in> ran (rows (view w)). idempotency_key r = None \<or> idempotency_key r \<noteq> jc_idempotency_key jc"
    and fresh: "\<And>w1. rows (view w1) = rows (view w) \<Longrightarrow> fst (rnd_uuid4 A w1) \<notin> dom (rows (view w1))"
    and t: "tracked (view w)" and idle: "zsets (view w) RETRY_KEY = Map.empty" "zsets (view w) PRIORITY_KEY = Map.empty"
  shows "wp (post_work_read A jc) (\<lambda>(posted, shown) w'. executed jc posted shown (view w')) (\<lambda>_ _. False) w"
  unfolding post_work_read_def wp_bind
proof (rule wp_post_new [OF ok(1) unused fresh])
  fix j w1
  assume i: "inserted jc (view w) j (view w1)"
  obtain u c tp ts where j: "j = new_job u c (jc_type jc) (payload_with_trace (jc_payload jc) tp)
      (jc_priority jc) (jc_idempotency_key jc) (jc_max_attempts jc)"
    and d: "data (view w1) = zset_put PRIORITY_KEY (str_uuid u) (score_at (jc_priority jc) ts)
                    ((data (view w))\<lparr>rows := (rows (view w))(u \<mapsto> j)\<rparr>)" using i by (auto simp: inserted_def)
  obtain cls where cls: "get_executor (jc_type jc) = Inr cls"
    using ok(1) get_executor_total [of "jc_type jc"] by (auto simp: acceptable_def split: sum.splits)
  have s1: "rows (view w1) = (rows (view w))(u \<mapsto> j)" "zsets (view w1) RETRY_KEY = Map.empty"
      "dom (zsets (view w1) PRIORITY_KEY) = {str_uuid u}"
    using data_isD [OF d] idle by (simp_all add: zset_put_def)
  have u: "job_id j = u" "status j = ''queued''" "job_type j = jc_type jc" by (simp_all add: j)
  show "wp (worker_iteration A) (\<lambda>_. wp (get_job_endpoint A (r_id (body \<lparr>status_code = 201, headers = [], body = job_read_of j\<rparr>)))
      (\<lambda>shown. wp (return_io (\<lparr>status_code = 201, headers = [], body = job_read_of j\<rparr>, shown))
         (\<lambda>(posted, shown) w'. executed jc posted shown (view w')) (\<lambda>_ _. False)) (\<lambda>_ _. False)) (\<lambda>_ _. False) w1"
  proof (rule wp_pass_first [where i = u, OF tracked_inserted [OF t i ok(2,3)] s1(2,3)])
    fix s w2
    assume r: "rows s = rows (view w1)" and z: "zsets s = (zsets (view w1))(PRIORITY_KEY := Map.empty)"
      and a: "attempted u j cls s (view w2)"
    then obtain k where k: "rows (view w2) = (rows s)(u \<mapsto> k)" "job_id k = u" 
      unfolding attempted_def same_request_def u(1) by blast
    have rid: "r_id (job_read_of j) = u" by (simp add: job_read_of_def u(1))
    have "keyed_by_id (rows (view w1))" using tracked_but_good [OF tracked_inserted [OF t i ok(2,3)]] by (simp add: good_table_def)
    then have keyed: "keyed_by_id (rows (view w2))" using k by (simp add: r keyed_by_id_insert)
    have e: "executed jc \<lparr>status_code = 201, headers = [], body = job_read_of j\<rparr>
        \<lparr>status_code = 200, headers = [], body = job_detail_of k ls\<rparr> s'" if "zsets s' RETRY_KEY = zsets (view w2) RETRY_KEY" for s' ls
      by (rule attempted_executed [OF i a [folded u(1)] cls _ _ that]) (simp_all add: k u(1) z s1)
    show "wp (get_job_endpoint A (r_id (body \<lparr>status_code = 201, headers = [], body = job_read_of j\<rparr>)))
      (\<lambda>shown. wp (return_io (\<lparr>status_code = 201, headers = [], body = job_read_of j\<rparr>, shown))
         (\<lambda>(posted, shown) w'. executed jc posted shown (view w')) (\<lambda>_ _. False)) (\<lambda>_ _. False) w2"
      using rid by (intro wp_get_present [OF keyed, where j = k]) (auto simp: k(1) wp_return intro: e)
  qed (simp_all add: s1 u cls)
qed

end

text \<open>
  C3: From the request to the result. With services that do not fail, nothing waiting in the
  queues but FIFO's, and an unused key and identifier, posting a job that the API accepts is
  answered 201 with the queued job; after one pass of a worker, reading the job's identifier
  is answered 200 with the same job at its first attempt: completed with a result of its
  executor, queued again with its identifier in the retry queue when it has attempts left, or
  failed when it had only one.
\<close>
theorem posted_job_executed:
  assumes "reliable_services A view" and "acceptable jc" and "1 \<le> jc_max_attempts jc" and "jc_max_attempts jc \<le> 10"
    and "\<forall>r \<in> ran (rows (view w)). idempotency_key r = None \<or> idempotency_key r \<noteq> jc_idempotency_key jc"
    and "\<And>w1. rows (view w1) = rows (view w) \<Longrightarrow> fst (rnd_uuid4 A w1) \<notin> dom (rows (view w1))"
    and "tracked (view w)" and "zsets (view w) RETRY_KEY = Map.empty" and "zsets (view w) PRIORITY_KEY = Map.empty"
  shows "wp (post_work_read A jc) (\<lambda>(posted, shown) w'. executed jc posted shown (view w')) (\<lambda>_ _. False) w"
  by (rule reliable_services.wp_post_work_read [OF assms])

theorem posted_job_executed_witness:
  "wp (post_work_read (mem_app False) sample_request)
     (\<lambda>(posted, shown) w'. executed sample_request posted shown (mem_view w')) (\<lambda>_ _. False) mem_init"
proof -
  have "tracked (mem_view mem_init)"
    by (simp add: tracked_but_def mem_init_def good_table_empty queued_in_def)
  then show ?thesis
    by (intro posted_job_executed [OF mem_reliable_services]) (simp_all add: sample_request_def acceptable_def mem_init_def)
qed

end
